(* ===== verification/Prelude.thy ===== *)
theory Prelude
  imports Complex_Main "HOL-Library.Sublist" "HOL-Library.Char_ord" "HOL-Library.List_Lexorder"
begin

text \<open>
  Shared vocabulary of the development: what the components use of the Python language and of its
  standard library.
  \<^item> A \<open>dict\<close> keeps insertion order, and the code iterates over dictionaries, so it is an
    association list with the three operations the sources use: read, store, remove.
    The locale \<open>keyed_store\<close> is the interface the components rely on; \<open>pydict\<close> interprets it.
  \<^item> A \<open>float\<close> is an exact rational number; binary rounding errors are not modelled.
    The explicit decimal \<open>round(x, n)\<close> calls of the sources are modelled by \<open>py_round\<close>
    (ties go to the even digit, as in Python).
  \<^item> A \<open>str\<close> is a \<open>string\<close>; case mapping and white space are those of ASCII text.
  \<^item> A call that can raise returns a sum, \<open>Inl\<close> the exception and \<open>Inr\<close> the value; a call that
    also changes state returns the state next to it, in the exceptional case too.
\<close>

type_synonym ('k, 'v) dict = "('k \<times> 'v) list"
type_synonym py_float = rat
type_synonym timestamp = int

named_theorems dict_simps
named_theorems repo_simps
named_theorems value_simps

section \<open>Insertion-ordered dictionaries\<close>

abbreviation dget :: "('k, 'v) dict \<Rightarrow> 'k \<Rightarrow> 'v option" where
  "dget d k \<equiv> map_of d k"

abbreviation dkeys :: "('k, 'v) dict \<Rightarrow> 'k list" where
  "dkeys d \<equiv> map fst d"

abbreviation dvalues :: "('k, 'v) dict \<Rightarrow> 'v list" where
  "dvalues d \<equiv> map snd d"

fun dset :: "('k, 'v) dict \<Rightarrow> 'k \<Rightarrow> 'v \<Rightarrow> ('k, 'v) dict" where
  "dset [] k v = [(k, v)]"
| "dset ((k', v') # d) k v = (if k' = k then (k, v) # d else (k', v') # dset d k v)"

definition dpop :: "('k, 'v) dict \<Rightarrow> 'k \<Rightarrow> ('k, 'v) dict" where
  "dpop d k = filter (\<lambda>p. fst p \<noteq> k) d"

definition dict_wf :: "('k, 'v) dict \<Rightarrow> bool" where
  "dict_wf d \<longleftrightarrow> distinct (dkeys d)"

definition dget_default :: "('k, 'v) dict \<Rightarrow> 'k \<Rightarrow> 'v \<Rightarrow> 'v" where
  "dget_default d k v = (case dget d k of None \<Rightarrow> v | Some w \<Rightarrow> w)"

lemma dget_dset [simp, dict_simps]: "dget (dset d k v) k' = (if k' = k then Some v else dget d k')"
  by (induction d k v rule: dset.induct) auto

lemma dget_dpop [simp, dict_simps]: "dget (dpop d k) k' = (if k' = k then None else dget d k')"
  by (induction d) (auto simp: dpop_def)

lemma dkeys_dset [dict_simps]:
  "dkeys (dset d k v) = (if k \<in> set (dkeys d) then dkeys d else dkeys d @ [k])"
  by (induction d k v rule: dset.induct) auto

lemma set_dkeys_dset [simp]: "set (dkeys (dset d k v)) = insert k (set (dkeys d))"
  by (auto simp: dkeys_dset simp del: set_map)

lemma dset_fresh: "k \<notin> set (dkeys d) \<Longrightarrow> dset d k v = d @ [(k, v)]"
  by (induction d k v rule: dset.induct) auto

lemma dkeys_dpop [dict_simps]: "dkeys (dpop d k) = filter (\<lambda>x. x \<noteq> k) (dkeys d)"
  by (induction d) (auto simp: dpop_def)

lemma dict_wf_Nil [simp]: "dict_wf []"
  by (simp add: dict_wf_def)

lemma dict_wf_dset [simp]: "dict_wf d \<Longrightarrow> dict_wf (dset d k v)"
  by (auto simp: dict_wf_def dkeys_dset simp del: set_map)

lemma dict_wf_dpop [simp]: "dict_wf d \<Longrightarrow> dict_wf (dpop d k)"
  by (simp add: dict_wf_def dkeys_dpop)

lemma dget_in_set: "dict_wf d \<Longrightarrow> (k, v) \<in> set d \<longleftrightarrow> dget d k = Some v"
  by (auto simp: dict_wf_def)

lemma dget_dkeys: "(\<exists>v. dget d k = Some v) \<longleftrightarrow> k \<in> set (dkeys d)"
  by (metis domI domIff dom_map_of_conv_image_fst list.set_map not_Some_eq)

lemma dget_None: "dget d k = None \<longleftrightarrow> k \<notin> set (dkeys d)"
  by (simp add: map_of_eq_None_iff)

lemma in_dvalues: "dict_wf d \<Longrightarrow> v \<in> set (dvalues d) \<longleftrightarrow> (\<exists>k. dget d k = Some v)"
  by (auto simp: dget_in_set [symmetric]) force

lemma length_dset: "length (dset d k v) = (if k \<in> set (dkeys d) then length d else Suc (length d))"
  by (induction d k v rule: dset.induct) auto

lemma length_dpop:
  assumes "dict_wf d"
  shows "length (dpop d k) = (if k \<in> set (dkeys d) then length d - 1 else length d)"
  using assms
proof (induction d)
  case (Cons p d)
  then show ?case
    by (cases p; cases d) (auto simp: dict_wf_def dpop_def filter_id_conv image_iff)
qed (simp add: dpop_def)

subsection \<open>The interface of a keyed store\<close>

text \<open>
  What the repositories, caches and queues of the program rely on when they keep objects under a
  key: a read returns what was last stored under that key, and other keys are not disturbed.
\<close>

locale keyed_store =
  fixes emp :: "'s" and get :: "'s \<Rightarrow> 'k \<Rightarrow> 'v option"
    and put :: "'s \<Rightarrow> 'k \<Rightarrow> 'v \<Rightarrow> 's" and del :: "'s \<Rightarrow> 'k \<Rightarrow> 's"
    and wf :: "'s \<Rightarrow> bool"
  assumes get_emp: "get emp k = None"
    and get_put: "wf s \<Longrightarrow> get (put s k v) k' = (if k' = k then Some v else get s k')"
    and get_del: "wf s \<Longrightarrow> get (del s k) k' = (if k' = k then None else get s k')"
    and wf_emp: "wf emp"
    and wf_put: "wf s \<Longrightarrow> wf (put s k v)"
    and wf_del: "wf s \<Longrightarrow> wf (del s k)"
begin

lemma get_put_same: "wf s \<Longrightarrow> get (put s k v) k = Some v"
  by (simp add: get_put)

lemma get_put_put: "wf s \<Longrightarrow> get (put (put s k v) k w) = get (put s k w)"
  by (rule ext) (simp add: get_put wf_put)

lemma get_put_commute: "wf s \<Longrightarrow> k \<noteq> l \<Longrightarrow> get (put (put s k v) l w) = get (put (put s l w) k v)"
  by (rule ext) (simp add: get_put wf_put)

lemma get_del_put: "wf s \<Longrightarrow> get s k = None \<Longrightarrow> get (del (put s k v) k) = get s"
  by (rule ext) (simp add: get_put get_del wf_put)

lemma put_all_get:
  "wf s \<Longrightarrow> wf (fold (\<lambda>x t. put t (key x) x) xs s) \<and>
     (k \<notin> key ` set xs \<longrightarrow> get (fold (\<lambda>x t. put t (key x) x) xs s) k = get s k)"
proof (induction xs arbitrary: s)
  case (Cons x xs)
  then show ?case using Cons.IH [of "put s (key x) x"] by (simp add: wf_put get_put)
qed simp

end

interpretation pydict: keyed_store "[]" "map_of" dset dpop dict_wf
  by unfold_locales simp_all

section \<open>Values of JSON responses\<close>

text \<open>The dictionaries the \<open>to_dict\<close> methods and the services return hold values of mixed types.\<close>

datatype json =
    JNull | JBool bool | JInt int | JFloat py_float | JStr string
  | JList "json list" | JObj "(string \<times> json) list"

definition json_opt :: "('a \<Rightarrow> json) \<Rightarrow> 'a option \<Rightarrow> json" where
  "json_opt f x = (case x of None \<Rightarrow> JNull | Some v \<Rightarrow> f v)"

definition dict_update :: "('k, 'v) dict \<Rightarrow> ('k, 'v) dict \<Rightarrow> ('k, 'v) dict" where
  "dict_update d e = fold (\<lambda>p d. dset d (fst p) (snd p)) e d"

lemma dget_dict_update: "dget (dict_update d e) k = (case dget (rev e) k of None \<Rightarrow> dget d k | Some v \<Rightarrow> Some v)"
  by (induction e rule: rev_induct) (auto simp: dict_update_def)

section \<open>Exceptions next to state\<close>

definition is_ok :: "'e + 'a \<Rightarrow> bool" where
  "is_ok r \<longleftrightarrow> (case r of Inl _ \<Rightarrow> False | Inr _ \<Rightarrow> True)"

lemma is_ok_simps [simp]: "is_ok (Inr x)" "\<not> is_ok (Inl e)"
  by (simp_all add: is_ok_def)

lemma is_ok_iff: "is_ok r \<longleftrightarrow> (\<exists>x. r = Inr x)"
  by (cases r) auto

section \<open>Decimal rounding\<close>

definition round_half_even :: "rat \<Rightarrow> int" where
  "round_half_even y =
     (let f = \<lfloor>y\<rfloor>; d = y - of_int f
      in if d < 1/2 then f else if d > 1/2 then f + 1 else if even f then f else f + 1)"

definition py_round :: "rat \<Rightarrow> nat \<Rightarrow> rat" where
  "py_round x n = of_int (round_half_even (x * 10 ^ n)) / 10 ^ n"

lemma round_half_even_bounds:
  "of_int (round_half_even y) \<le> y + 1/2" "y - 1/2 \<le> of_int (round_half_even y)"
  unfolding round_half_even_def Let_def by (auto simp: field_simps) linarith+

lemma round_half_even_mono: "x \<le> y \<Longrightarrow> round_half_even x \<le> round_half_even y"
proof (cases "\<lfloor>x\<rfloor> = \<lfloor>y\<rfloor>")
  case True
  assume "x \<le> y"
  with True show ?thesis by (auto simp: round_half_even_def Let_def)
next
  case False
  assume "x \<le> y"
  with False have lt: "\<lfloor>x\<rfloor> + 1 \<le> \<lfloor>y\<rfloor>" using floor_mono [of x y] by linarith
  have "round_half_even x \<le> \<lfloor>x\<rfloor> + 1" "\<lfloor>y\<rfloor> \<le> round_half_even y"
    by (auto simp: round_half_even_def Let_def)
  with lt show ?thesis by linarith
qed

lemma round_half_even_int [simp]: "round_half_even (of_int k) = k"
  by (simp add: round_half_even_def)

lemma py_round_mono: "x \<le> y \<Longrightarrow> py_round x n \<le> py_round y n"
  unfolding py_round_def
  by (intro divide_right_mono) (auto intro!: round_half_even_mono mult_right_mono)

lemma py_round_zero [simp]: "py_round 0 n = 0"
  using round_half_even_int [of 0] by (simp add: py_round_def)

lemma py_round_nonneg: "0 \<le> x \<Longrightarrow> 0 \<le> py_round x n"
  using py_round_mono [of 0 x n] by simp

lemma py_round_idem [simp]: "py_round (py_round x n) n = py_round x n"
  by (simp add: py_round_def)

lemma py_round_error: "\<bar>py_round x n - x\<bar> \<le> (1/2) / 10 ^ n"
proof -
  let ?r = "of_int (round_half_even (x * 10 ^ n)) :: rat"
  have "\<bar>?r - x * 10 ^ n\<bar> \<le> 1/2"
    using round_half_even_bounds [of "x * 10 ^ n"] by linarith
  moreover have "py_round x n - x = (?r - x * 10 ^ n) / 10 ^ n"
    by (simp add: py_round_def field_simps)
  ultimately show ?thesis
    by (simp only: abs_divide power_abs abs_numeral) (rule divide_right_mono, simp_all)
qed

lemma py_round_upper: "py_round x n \<le> x + (1/2) / 10 ^ n"
  using py_round_error [of x n] by linarith

lemma py_round_of_int [simp]: "py_round (of_int k) n = of_int k"
proof -
  have "of_int k * 10 ^ n = (of_int (k * 10 ^ n) :: rat)" by simp
  then show ?thesis unfolding py_round_def by (metis (no_types) nonzero_mult_div_cancel_right
        of_int_mult of_int_numeral of_int_power power_not_zero round_half_even_int zero_neq_numeral)
qed

section \<open>Slices\<close>

text \<open>The slice \<open>xs[:limit]\<close>: a negative limit counts from the end.\<close>

definition py_take :: "int \<Rightarrow> 'a list \<Rightarrow> 'a list" where
  "py_take limit xs = (if limit \<ge> 0 then take (nat limit) xs else take (length xs - nat (- limit)) xs)"

lemma set_py_take: "set (py_take limit xs) \<subseteq> set xs"
  by (simp add: py_take_def set_take_subset)

lemma distinct_py_take: "distinct xs \<Longrightarrow> distinct (py_take limit xs)"
  by (simp add: py_take_def)

lemma map_py_take: "map f (py_take limit xs) = py_take limit (map f xs)"
  by (simp add: py_take_def take_map)

lemma sorted_wrt_py_take: "sorted_wrt P xs \<Longrightarrow> sorted_wrt P (py_take limit xs)"
  by (simp add: py_take_def sorted_wrt_take)

section \<open>Strings\<close>

definition lower_char :: "char \<Rightarrow> char" where
  "lower_char c = (if 65 \<le> (of_char c :: nat) \<and> (of_char c :: nat) \<le> 90 then char_of (of_char c + 32 :: nat) else c)"

definition upper_char :: "char \<Rightarrow> char" where
  "upper_char c = (if 97 \<le> (of_char c :: nat) \<and> (of_char c :: nat) \<le> 122 then char_of (of_char c - 32 :: nat) else c)"

definition py_lower :: "string \<Rightarrow> string" where "py_lower s = map lower_char s"
definition py_upper :: "string \<Rightarrow> string" where "py_upper s = map upper_char s"

definition is_space :: "char \<Rightarrow> bool" where
  "is_space c \<longleftrightarrow> (of_char c :: nat) \<in> {9, 10, 11, 12, 13, 28, 29, 30, 31, 32}"

definition py_strip :: "string \<Rightarrow> string" where
  "py_strip s = rev (dropWhile is_space (rev (dropWhile is_space s)))"

abbreviation startswith :: "string \<Rightarrow> string \<Rightarrow> bool" where
  "startswith s p \<equiv> prefix p s"

definition py_in :: "string \<Rightarrow> string \<Rightarrow> bool" where
  "py_in t s \<longleftrightarrow> (\<exists>k \<in> set [0..<Suc (length s)]. prefix t (drop k s))"

text \<open>Python's truth value of an optional string: \<open>None\<close> and the empty string are false.\<close>

definition truthy :: "string option \<Rightarrow> bool" where
  "truthy x \<longleftrightarrow> (case x of None \<Rightarrow> False | Some s \<Rightarrow> s \<noteq> [])"

text \<open>The expression \<open>x or d\<close> on an optional value.\<close>

definition or_int :: "int option \<Rightarrow> int \<Rightarrow> int" where
  "or_int x d = (case x of None \<Rightarrow> d | Some v \<Rightarrow> if v = 0 then d else v)"

definition or_float :: "py_float option \<Rightarrow> py_float \<Rightarrow> py_float" where
  "or_float x d = (case x of None \<Rightarrow> d | Some v \<Rightarrow> if v = 0 then d else v)"

definition or_str :: "string option \<Rightarrow> string \<Rightarrow> string" where
  "or_str x d = (if truthy x then the x else d)"

fun show_nat :: "nat \<Rightarrow> string" where
  "show_nat n = (if n < 10 then [char_of (n + 48)] else show_nat (n div 10) @ [char_of (n mod 10 + 48)])"

definition show_int :: "int \<Rightarrow> string" where
  "show_int i = (if i < 0 then ''-'' @ show_nat (nat (- i)) else show_nat (nat i))"

declare show_nat.simps [simp del]

lemma truthy_simps [simp]: "\<not> truthy None" "truthy (Some s) \<longleftrightarrow> s \<noteq> []"
  by (simp_all add: truthy_def)

definition quoted :: "string \<Rightarrow> string" where
  "quoted s = CHR 0x27 # s @ [CHR 0x27]"

lemma lower_char_idem [simp]: "lower_char (lower_char c) = lower_char c"
  by (auto simp: lower_char_def)

lemma py_lower_idem [simp]: "py_lower (py_lower s) = py_lower s"
  by (simp add: py_lower_def)

end
