(* ===== verification/Core_Types.thy ===== *)
theory Core_Types
  imports Prelude
begin

text \<open>
  The enumerations of \<^verbatim>\<open>libflow/core/enums.py\<close> and the exceptions of
  \<^verbatim>\<open>libflow/core/exceptions.py\<close>, together with the built-in exceptions the modelled code raises.
  Enumeration members whose names clash carry a prefix; the \<open>_value\<close> functions give the string
  each member has in the source.
\<close>

section \<open>Enumerations\<close>

datatype book_format = PHYSICAL | EBOOK | AUDIOBOOK

datatype book_status = AVAILABLE | RESERVED | ISSUED | IN_TRANSIT | UNDER_REPAIR | LOST

datatype user_role = STUDENT | FACULTY | LIBRARIAN | ADMIN

datatype reservation_status =
  RES_PENDING | READY_FOR_PICKUP | FULFILLED | EXPIRED | CANCELLED

datatype payment_method = UPI | CREDIT_CARD | DEBIT_CARD | WALLET | CASH

datatype payment_status = PAY_PENDING | PAY_COMPLETED | PAY_FAILED | REFUNDED

datatype notification_channel = EMAIL | SMS | IN_APP | WEBHOOK

datatype transfer_status =
  TRF_REQUESTED | TRF_APPROVED | TRF_IN_TRANSIT | TRF_COMPLETED | TRF_REJECTED

fun format_value :: "book_format \<Rightarrow> string" where
  "format_value PHYSICAL = ''PHYSICAL''"
| "format_value EBOOK = ''EBOOK''"
| "format_value AUDIOBOOK = ''AUDIOBOOK''"

fun status_value :: "book_status \<Rightarrow> string" where
  "status_value AVAILABLE = ''AVAILABLE''"
| "status_value RESERVED = ''RESERVED''"
| "status_value ISSUED = ''ISSUED''"
| "status_value IN_TRANSIT = ''IN_TRANSIT''"
| "status_value UNDER_REPAIR = ''UNDER_REPAIR''"
| "status_value LOST = ''LOST''"

fun role_value :: "user_role \<Rightarrow> string" where
  "role_value STUDENT = ''STUDENT''"
| "role_value FACULTY = ''FACULTY''"
| "role_value LIBRARIAN = ''LIBRARIAN''"
| "role_value ADMIN = ''ADMIN''"

fun reservation_status_value :: "reservation_status \<Rightarrow> string" where
  "reservation_status_value RES_PENDING = ''PENDING''"
| "reservation_status_value READY_FOR_PICKUP = ''READY_FOR_PICKUP''"
| "reservation_status_value FULFILLED = ''FULFILLED''"
| "reservation_status_value EXPIRED = ''EXPIRED''"
| "reservation_status_value CANCELLED = ''CANCELLED''"

fun payment_method_value :: "payment_method \<Rightarrow> string" where
  "payment_method_value UPI = ''UPI''"
| "payment_method_value CREDIT_CARD = ''CREDIT_CARD''"
| "payment_method_value DEBIT_CARD = ''DEBIT_CARD''"
| "payment_method_value WALLET = ''WALLET''"
| "payment_method_value CASH = ''CASH''"

fun transfer_status_value :: "transfer_status \<Rightarrow> string" where
  "transfer_status_value TRF_REQUESTED = ''REQUESTED''"
| "transfer_status_value TRF_APPROVED = ''APPROVED''"
| "transfer_status_value TRF_IN_TRANSIT = ''IN_TRANSIT''"
| "transfer_status_value TRF_COMPLETED = ''COMPLETED''"
| "transfer_status_value TRF_REJECTED = ''REJECTED''"

text \<open>The \<open>Enum(value)\<close> constructor calls: the member with that value, or nothing (a \<open>ValueError\<close>).\<close>

definition book_format_of :: "string \<Rightarrow> book_format option" where
  "book_format_of s = find (\<lambda>f. format_value f = s) [PHYSICAL, EBOOK, AUDIOBOOK]"

definition user_role_of :: "string \<Rightarrow> user_role option" where
  "user_role_of s = find (\<lambda>r. role_value r = s) [STUDENT, FACULTY, LIBRARIAN, ADMIN]"

lemma book_format_of_value [simp]: "book_format_of (format_value f) = Some f"
  by (cases f) (simp_all add: book_format_of_def)

lemma user_role_of_value [simp]: "user_role_of (role_value r) = Some r"
  by (cases r) (simp_all add: user_role_of_def)

lemma status_value_inj: "status_value s = status_value t \<longleftrightarrow> s = t"
  by (cases s; cases t) simp_all

section \<open>Exceptions\<close>

datatype exn =
    BookNotFoundError string
  | UserNotFoundError string
  | CopyNotFoundError string
  | BranchNotFoundError string
  | DuplicateUserError string
  | InvalidStateTransitionError string
  | CopyUnavailableError string "string option"
  | UserNotEligibleError string string
  | OptimisticLockConflictError string int int
  | PermissionDeniedError string "string option"
  | InsufficientInputError string
  | TransferError string
  | ValueError string
  | KeyError string
  | TimeoutError string
  | AttributeError string
  | HTTPException nat string
  | CircuitBreakerOpenError string
  | RedisError string
  | RuntimeError string

definition not_found_message :: "string \<Rightarrow> string \<Rightarrow> string" where
  "not_found_message resource_type resource_id = resource_type @ '' '' @ quoted resource_id @ '' not found.''"

fun exn_message :: "exn \<Rightarrow> string" where
  "exn_message (BookNotFoundError isbn) = not_found_message ''Book'' isbn"
| "exn_message (UserNotFoundError user_id) = not_found_message ''User'' user_id"
| "exn_message (CopyNotFoundError copy_id) = not_found_message ''Book copy'' copy_id"
| "exn_message (BranchNotFoundError branch_id) = not_found_message ''Branch'' branch_id"
| "exn_message (DuplicateUserError user_id) = ''User '' @ quoted user_id @ '' already exists.''"
| "exn_message (InvalidStateTransitionError m) = m"
| "exn_message (CopyUnavailableError copy_id st) =
     ''Copy '' @ quoted copy_id @ '' is not available.'' @
     (if truthy st then '' Current status: '' @ the st @ ''.'' else [])"
| "exn_message (UserNotEligibleError user_id reason) =
     ''User '' @ quoted user_id @ '' is not eligible to borrow: '' @ reason @ ''.''"
| "exn_message (OptimisticLockConflictError r expected actual) =
     ''Optimistic lock conflict on '' @ quoted r @ '': expected version '' @ show_int expected @
     '', found '' @ show_int actual @ ''.''"
| "exn_message (PermissionDeniedError permission role) =
     ''Missing required permission: '' @ quoted permission @ ''.'' @
     (if truthy role then '' Caller role: '' @ the role @ ''.'' else [])"
| "exn_message (InsufficientInputError d) = d"
| "exn_message (TransferError m) = m"
| "exn_message (ValueError m) = m"
| "exn_message (KeyError m) = quoted m"
| "exn_message (TimeoutError m) = m"
| "exn_message (AttributeError m) = m"
| "exn_message (HTTPException _ d) = d"
| "exn_message (CircuitBreakerOpenError m) = m"
| "exn_message (RedisError m) = m"
| "exn_message (RuntimeError m) = m"

end
