(* ===== verification/Book_State.thy ===== *)
theory Book_State
  imports Core_Types
begin

text \<open>
  The lifecycle of one physical copy: \<^verbatim>\<open>libflow/core/book_state.py\<close> (the state pattern) and the
  class \<open>BookCopy\<close> of \<^verbatim>\<open>libflow/core/book.py\<close>. The state objects of the source carry no data, so
  each is a constructor; a method of a state object is a function of the state and the copy it
  mutates, and a method a state does not override is the base class's \<open>ValueError\<close>.
\<close>

section \<open>The copy and its state objects\<close>

datatype book_copy_state =
  AvailableState | ReservedState | IssuedState | InTransitState | UnderRepairState | LostState

fun get_status :: "book_copy_state \<Rightarrow> book_status" where
  "get_status AvailableState = AVAILABLE"
| "get_status ReservedState = RESERVED"
| "get_status IssuedState = ISSUED"
| "get_status InTransitState = IN_TRANSIT"
| "get_status UnderRepairState = UNDER_REPAIR"
| "get_status LostState = LOST"

record book_copy =
  cp_copy_id :: string
  cp_book_isbn :: string
  cp_branch_id :: string
  cp_shelf_location :: string
  cp_price :: py_float
  cp_state :: book_copy_state
  cp_borrower :: "string option"
  cp_reserver :: "string option"
  cp_target :: "string option"
  cp_borrow_count :: int

definition new_copy :: "string \<Rightarrow> string \<Rightarrow> string \<Rightarrow> string \<Rightarrow> py_float \<Rightarrow> book_copy" where
  "new_copy copy_id book_isbn branch_id shelf_location price =
     \<lparr>cp_copy_id = copy_id, cp_book_isbn = book_isbn, cp_branch_id = branch_id,
      cp_shelf_location = shelf_location, cp_price = price, cp_state = AvailableState,
      cp_borrower = None, cp_reserver = None, cp_target = None, cp_borrow_count = 0\<rparr>"

definition copy_status :: "book_copy \<Rightarrow> book_status" where
  "copy_status c = get_status (cp_state c)"

definition set_state :: "book_copy \<Rightarrow> book_copy_state \<Rightarrow> book_copy" where
  "set_state c s = c\<lparr>cp_state := s\<rparr>"

definition cannot :: "string \<Rightarrow> book_copy_state \<Rightarrow> exn" where
  "cannot what s = ValueError (''Cannot '' @ what @ '' in state '' @ quoted (status_value (get_status s)) @ ''.'')"

section \<open>The methods of the state objects\<close>

fun state_check_out :: "book_copy_state \<Rightarrow> book_copy \<Rightarrow> string \<Rightarrow> exn + book_copy" where
  "state_check_out AvailableState c borrower_id =
     Inr (set_state (c\<lparr>cp_borrower := Some borrower_id\<rparr>) IssuedState)"
| "state_check_out ReservedState c borrower_id =
     (if truthy (cp_reserver c) \<and> cp_reserver c \<noteq> Some borrower_id
      then Inl (ValueError (''Copy is reserved for user '' @ quoted (the (cp_reserver c)) @
             '', not '' @ quoted borrower_id @ ''.''))
      else Inr (set_state (c\<lparr>cp_reserver := None, cp_borrower := Some borrower_id\<rparr>) IssuedState))"
| "state_check_out s c borrower_id = Inl (cannot ''checkout book copy'' s)"

fun state_return_book :: "book_copy_state \<Rightarrow> book_copy \<Rightarrow> exn + book_copy" where
  "state_return_book ReservedState c = Inr (set_state (c\<lparr>cp_reserver := None\<rparr>) AvailableState)"
| "state_return_book IssuedState c = Inr (set_state (c\<lparr>cp_borrower := None\<rparr>) AvailableState)"
| "state_return_book s c = Inl (cannot ''return book copy'' s)"

fun state_reserve :: "book_copy_state \<Rightarrow> book_copy \<Rightarrow> string \<Rightarrow> exn + book_copy" where
  "state_reserve AvailableState c reserver_id =
     Inr (set_state (c\<lparr>cp_reserver := Some reserver_id\<rparr>) ReservedState)"
| "state_reserve s c reserver_id = Inl (cannot ''reserve book copy'' s)"

fun state_start_transfer :: "book_copy_state \<Rightarrow> book_copy \<Rightarrow> string \<Rightarrow> exn + book_copy" where
  "state_start_transfer AvailableState c destination =
     Inr (set_state (c\<lparr>cp_target := Some destination\<rparr>) InTransitState)"
| "state_start_transfer s c destination = Inl (cannot ''transfer book copy'' s)"

fun state_complete_transfer :: "book_copy_state \<Rightarrow> book_copy \<Rightarrow> exn + book_copy" where
  "state_complete_transfer InTransitState c =
     Inr (set_state (if truthy (cp_target c)
       then c\<lparr>cp_branch_id := the (cp_target c), cp_target := None\<rparr> else c) AvailableState)"
| "state_complete_transfer s c = Inl (cannot ''complete transfer'' s)"

fun state_mark_lost :: "book_copy_state \<Rightarrow> book_copy \<Rightarrow> exn + book_copy" where
  "state_mark_lost s c = Inr (set_state c LostState)"

fun state_mark_repair :: "book_copy_state \<Rightarrow> book_copy \<Rightarrow> exn + book_copy" where
  "state_mark_repair s c = Inr (set_state c UnderRepairState)"

fun state_restore_available :: "book_copy_state \<Rightarrow> book_copy \<Rightarrow> exn + book_copy" where
  "state_restore_available LostState c =
     Inr (set_state (c\<lparr>cp_borrower := None, cp_reserver := None\<rparr>) AvailableState)"
| "state_restore_available s c = Inr (set_state c AvailableState)"

section \<open>The methods of BookCopy\<close>

definition copy_check_out :: "book_copy \<Rightarrow> string \<Rightarrow> exn + book_copy" where
  "copy_check_out c borrower_id =
     (case state_check_out (cp_state c) c borrower_id of
        Inl e \<Rightarrow> Inl e
      | Inr c' \<Rightarrow> Inr (c'\<lparr>cp_borrow_count := cp_borrow_count c' + 1\<rparr>))"

definition copy_return_book :: "book_copy \<Rightarrow> exn + book_copy" where
  "copy_return_book c = state_return_book (cp_state c) c"

definition copy_reserve :: "book_copy \<Rightarrow> string \<Rightarrow> exn + book_copy" where
  "copy_reserve c reserver_id = state_reserve (cp_state c) c reserver_id"

definition copy_start_transfer :: "book_copy \<Rightarrow> string \<Rightarrow> exn + book_copy" where
  "copy_start_transfer c destination = state_start_transfer (cp_state c) c destination"

definition copy_complete_transfer :: "book_copy \<Rightarrow> exn + book_copy" where
  "copy_complete_transfer c = state_complete_transfer (cp_state c) c"

definition copy_mark_lost :: "book_copy \<Rightarrow> exn + book_copy" where
  "copy_mark_lost c = state_mark_lost (cp_state c) c"

definition copy_mark_repair :: "book_copy \<Rightarrow> exn + book_copy" where
  "copy_mark_repair c = state_mark_repair (cp_state c) c"

definition copy_restore_available :: "book_copy \<Rightarrow> exn + book_copy" where
  "copy_restore_available c = state_restore_available (cp_state c) c"

lemmas copy_op_defs =
  copy_check_out_def copy_return_book_def copy_reserve_def copy_start_transfer_def
  copy_complete_transfer_def copy_mark_lost_def copy_mark_repair_def copy_restore_available_def

section \<open>The lifecycle as a transition system\<close>

text \<open>
  The methods of a copy as events. The first five are the ones the services and routers call; the
  last three are maintenance methods that only direct users of the class reach.
\<close>

datatype copy_event =
    CheckOut string | ReturnBook | Reserve string | StartTransfer string | CompleteTransfer
  | MarkLost | MarkRepair | RestoreAvailable

fun copy_apply :: "book_copy \<Rightarrow> copy_event \<Rightarrow> exn + book_copy" where
  "copy_apply c (CheckOut u) = copy_check_out c u"
| "copy_apply c ReturnBook = copy_return_book c"
| "copy_apply c (Reserve u) = copy_reserve c u"
| "copy_apply c (StartTransfer b) = copy_start_transfer c b"
| "copy_apply c CompleteTransfer = copy_complete_transfer c"
| "copy_apply c MarkLost = copy_mark_lost c"
| "copy_apply c MarkRepair = copy_mark_repair c"
| "copy_apply c RestoreAvailable = copy_restore_available c"

inductive copy_step :: "book_copy \<Rightarrow> copy_event \<Rightarrow> book_copy \<Rightarrow> bool" where
  step_ok: "copy_apply c e = Inr c' \<Longrightarrow> copy_step c e c'"
| step_raise: "copy_apply c e = Inl x \<Longrightarrow> copy_step c e c"

inductive copy_steps :: "book_copy \<Rightarrow> copy_event list \<Rightarrow> book_copy \<Rightarrow> bool" where
  steps_none: "copy_steps c [] c"
| steps_more: "copy_steps c es c' \<Longrightarrow> copy_step c' e c'' \<Longrightarrow> copy_steps c (es @ [e]) c''"

inductive_cases copy_stepE: "copy_step c e c'"

definition service_event :: "copy_event \<Rightarrow> bool" where
  "service_event e \<longleftrightarrow>
     (case e of MarkLost \<Rightarrow> False | MarkRepair \<Rightarrow> False | RestoreAvailable \<Rightarrow> False
              | StartTransfer b \<Rightarrow> b \<noteq> [] | _ \<Rightarrow> True)"

text \<open>What each status says about the optional identifiers of the copy.\<close>

definition copy_consistent :: "book_copy \<Rightarrow> bool" where
  "copy_consistent c \<longleftrightarrow>
     (case copy_status c of
        AVAILABLE \<Rightarrow> cp_borrower c = None \<and> cp_reserver c = None \<and> cp_target c = None
      | RESERVED \<Rightarrow> cp_borrower c = None \<and> cp_reserver c \<noteq> None \<and> cp_target c = None
      | ISSUED \<Rightarrow> cp_borrower c \<noteq> None \<and> cp_reserver c = None \<and> cp_target c = None
      | IN_TRANSIT \<Rightarrow> cp_borrower c = None \<and> cp_reserver c = None \<and> truthy (cp_target c)
      | _ \<Rightarrow> False)"

definition copy_identified :: "book_copy \<Rightarrow> bool" where
  "copy_identified c \<longleftrightarrow>
     (copy_status c = RESERVED \<longrightarrow> cp_reserver c \<noteq> None) \<and>
     (copy_status c = ISSUED \<longrightarrow> cp_borrower c \<noteq> None) \<and>
     (copy_status c = IN_TRANSIT \<longrightarrow> cp_target c \<noteq> None)"

definition edge_allowed :: "book_status \<Rightarrow> copy_event \<Rightarrow> book_status \<Rightarrow> bool" where
  "edge_allowed s e t \<longleftrightarrow>
     (case e of
        CheckOut _ \<Rightarrow> (s = AVAILABLE \<or> s = RESERVED) \<and> t = ISSUED
      | ReturnBook \<Rightarrow> (s = ISSUED \<or> s = RESERVED) \<and> t = AVAILABLE
      | Reserve _ \<Rightarrow> s = AVAILABLE \<and> t = RESERVED
      | StartTransfer _ \<Rightarrow> s = AVAILABLE \<and> t = IN_TRANSIT
      | CompleteTransfer \<Rightarrow> s = IN_TRANSIT \<and> t = AVAILABLE
      | MarkLost \<Rightarrow> t = LOST
      | MarkRepair \<Rightarrow> t = UNDER_REPAIR
      | RestoreAvailable \<Rightarrow> t = AVAILABLE)"

lemmas copy_inv_defs = copy_consistent_def copy_identified_def copy_status_def set_state_def

lemma new_copy_consistent [simp]: "copy_consistent (new_copy i b br sh p)"
  by (simp add: copy_inv_defs new_copy_def)

lemma new_copy_status [simp]: "copy_status (new_copy i b br sh p) = AVAILABLE"
  by (simp add: copy_status_def new_copy_def)

text \<open>Inversion of the two operations the circulation service performs most.\<close>

lemma copy_check_out_InrD:
  "copy_check_out c u = Inr c' \<Longrightarrow>
     (copy_status c = AVAILABLE \<or> copy_status c = RESERVED) \<and> copy_status c' = ISSUED \<and>
     cp_borrower c' = Some u \<and> cp_copy_id c' = cp_copy_id c \<and> cp_book_isbn c' = cp_book_isbn c \<and>
     cp_branch_id c' = cp_branch_id c \<and> cp_borrow_count c' = cp_borrow_count c + 1"
  by (cases "cp_state c") (auto simp: copy_check_out_def copy_status_def set_state_def split: if_splits)

lemma copy_check_out_available [simp]:
  "copy_status c = AVAILABLE \<Longrightarrow>
     copy_check_out c u = Inr (c\<lparr>cp_borrower := Some u, cp_state := IssuedState,
                                 cp_borrow_count := cp_borrow_count c + 1\<rparr>)"
  by (cases "cp_state c") (auto simp: copy_check_out_def copy_status_def set_state_def)

lemma copy_check_out_reserved [simp]:
  "copy_status c = RESERVED \<Longrightarrow> cp_reserver c = Some u \<Longrightarrow>
     copy_check_out c u = Inr (c\<lparr>cp_borrower := Some u, cp_reserver := None, cp_state := IssuedState,
                                 cp_borrow_count := cp_borrow_count c + 1\<rparr>)"
  by (cases "cp_state c") (auto simp: copy_check_out_def copy_status_def set_state_def)

lemma copy_return_issued [simp]:
  "copy_status c = ISSUED \<Longrightarrow>
     copy_return_book c = Inr (c\<lparr>cp_borrower := None, cp_state := AvailableState\<rparr>)"
  by (cases "cp_state c") (auto simp: copy_return_book_def copy_status_def set_state_def)

lemma copy_reserve_available [simp]:
  "copy_status c = AVAILABLE \<Longrightarrow>
     copy_reserve c u = Inr (c\<lparr>cp_reserver := Some u, cp_state := ReservedState\<rparr>)"
  by (cases "cp_state c") (auto simp: copy_reserve_def copy_status_def set_state_def)

lemma copy_start_transfer_available [simp]:
  "copy_status c = AVAILABLE \<Longrightarrow>
     copy_start_transfer c b = Inr (c\<lparr>cp_target := Some b, cp_state := InTransitState\<rparr>)"
  by (cases "cp_state c") (auto simp: copy_start_transfer_def copy_status_def set_state_def)

lemma copy_status_update [simp]: "copy_status (c\<lparr>cp_state := s\<rparr>) = get_status s"
  by (simp add: copy_status_def)

lemma copy_status_frame [simp]:
  "copy_status (c\<lparr>cp_borrower := b\<rparr>) = copy_status c"
  "copy_status (c\<lparr>cp_reserver := b\<rparr>) = copy_status c"
  "copy_status (c\<lparr>cp_target := b\<rparr>) = copy_status c"
  "copy_status (c\<lparr>cp_borrow_count := n\<rparr>) = copy_status c"
  "copy_status (c\<lparr>cp_branch_id := i\<rparr>) = copy_status c"
  by (simp_all add: copy_status_def)

lemma copy_apply_ids:
  "copy_apply c e = Inr c' \<Longrightarrow> cp_copy_id c' = cp_copy_id c \<and> cp_book_isbn c' = cp_book_isbn c"
  by (cases e; cases "cp_state c") (auto simp: copy_op_defs set_state_def split: if_splits)

lemma copy_apply_edge: "copy_apply c e = Inr c' \<Longrightarrow> edge_allowed (copy_status c) e (copy_status c')"
  by (cases e; cases "cp_state c")
     (auto simp: copy_op_defs set_state_def copy_status_def edge_allowed_def split: if_splits)

lemma copy_apply_consistent:
  "copy_apply c e = Inr c' \<Longrightarrow> service_event e \<Longrightarrow> copy_consistent c \<Longrightarrow> copy_consistent c'"
  by (cases e; cases "cp_state c")
     (auto simp: copy_op_defs copy_inv_defs service_event_def split: if_splits)

lemma copy_apply_identified:
  "copy_apply c e = Inr c' \<Longrightarrow> copy_identified c \<Longrightarrow> copy_identified c'"
  by (cases e; cases "cp_state c") (auto simp: copy_op_defs copy_inv_defs split: if_splits)



end
