(* ===== verification/Books.thy ===== *)
theory Books
  imports Book_State
begin

text \<open>
  The book hierarchy of \<^verbatim>\<open>libflow/core/book.py\<close>. The common attributes of \<open>Book\<close> are the fields of
  one record; the attributes of the three subclasses are the constructors of \<open>book_details\<close>, so a
  method a subclass overrides is a case distinction on the details.

  A \<open>BookCopy\<close> is a mutable object that the dictionary of its book and the dictionary of the
  repository share. A physical book therefore holds references, and the copies themselves live in a
  heap, from references to copies.
\<close>

type_synonym copy_ref = nat
type_synonym copy_heap = "copy_ref \<Rightarrow> book_copy option"

section \<open>Attributes\<close>

datatype book_details =
    PhysicalBook (weight_grams: int) (page_count: int) (book_copies: "(string, copy_ref) dict")
  | EBook (download_url: string) (file_size_mb: py_float) (file_format: string)
      (drm_protected: bool) (max_concurrent_downloads: int) (active_readers_count: int)
  | AudioBook (stream_url: string) (duration_minutes: int) (narrator: string)

record book =
  bk_isbn :: string
  bk_title :: string
  bk_authors :: "string list"
  bk_category :: string
  bk_publication_year :: int
  bk_publisher :: string
  bk_description :: string
  bk_rating :: py_float
  bk_difficulty_level :: string
  bk_keywords :: "string list"
  bk_borrow_history_count :: int
  bk_details :: book_details

section \<open>Methods\<close>

fun details_format :: "book_details \<Rightarrow> book_format" where
  "details_format (PhysicalBook _ _ _) = PHYSICAL"
| "details_format (EBook _ _ _ _ _ _) = EBOOK"
| "details_format (AudioBook _ _ _) = AUDIOBOOK"

definition get_format :: "book \<Rightarrow> book_format" where
  "get_format b = details_format (bk_details b)"

abbreviation is_physical :: "book \<Rightarrow> bool" where
  "is_physical b \<equiv> is_PhysicalBook (bk_details b)"

definition copies_of :: "book \<Rightarrow> (string, copy_ref) dict" where
  "copies_of b = (case bk_details b of PhysicalBook _ _ cs \<Rightarrow> cs | _ \<Rightarrow> [])"

definition with_copies :: "book \<Rightarrow> (string, copy_ref) dict \<Rightarrow> book" where
  "with_copies b cs =
     (case bk_details b of PhysicalBook w p _ \<Rightarrow> b\<lparr>bk_details := PhysicalBook w p cs\<rparr> | _ \<Rightarrow> b)"

definition add_copy :: "book \<Rightarrow> string \<Rightarrow> copy_ref \<Rightarrow> book" where
  "add_copy b copy_id r = with_copies b (dset (copies_of b) copy_id r)"

definition remove_copy :: "book \<Rightarrow> string \<Rightarrow> copy_ref option \<times> book" where
  "remove_copy b copy_id = (dget (copies_of b) copy_id, with_copies b (dpop (copies_of b) copy_id))"

definition heap_copies :: "copy_heap \<Rightarrow> (string, copy_ref) dict \<Rightarrow> book_copy list" where
  "heap_copies h cs = List.map_filter h (dvalues cs)"

definition get_available_copies :: "copy_heap \<Rightarrow> book \<Rightarrow> string option \<Rightarrow> book_copy list" where
  "get_available_copies h b branch_id =
     filter (\<lambda>c. copy_status c = AVAILABLE \<and> (branch_id = None \<or> Some (cp_branch_id c) = branch_id))
       (heap_copies h (copies_of b))"

definition total_copies :: "book \<Rightarrow> nat" where
  "total_copies b = length (copies_of b)"

definition is_available :: "copy_heap \<Rightarrow> book \<Rightarrow> bool" where
  "is_available h b =
     (case bk_details b of
        PhysicalBook _ _ _ \<Rightarrow> length (get_available_copies h b None) > 0
      | EBook _ _ _ _ max_downloads readers \<Rightarrow> readers < max_downloads
      | AudioBook _ _ _ \<Rightarrow> True)"

definition acquire_read_access :: "copy_heap \<Rightarrow> book \<Rightarrow> (exn + string) \<times> book" where
  "acquire_read_access h b =
     (case bk_details b of
        EBook url mb fmt drm max_downloads readers \<Rightarrow>
          if \<not> is_available h b
          then (Inl (ValueError (''Max concurrent download limit ('' @ show_int max_downloads @
                  '') reached for '' @ quoted (bk_title b) @ ''.'')), b)
          else (Inr url, b\<lparr>bk_details := EBook url mb fmt drm max_downloads (readers + 1),
                           bk_borrow_history_count := bk_borrow_history_count b + 1\<rparr>)
      | _ \<Rightarrow> (Inl (AttributeError ''acquire_read_access''), b))"

definition release_read_access :: "book \<Rightarrow> book" where
  "release_read_access b =
     (case bk_details b of
        EBook url mb fmt drm max_downloads readers \<Rightarrow>
          if readers > 0 then b\<lparr>bk_details := EBook url mb fmt drm max_downloads (readers - 1)\<rparr> else b
      | _ \<Rightarrow> b)"

section \<open>Dictionaries for responses\<close>

definition copy_to_dict :: "book_copy \<Rightarrow> (string, json) dict" where
  "copy_to_dict c =
     [(''copy_id'', JStr (cp_copy_id c)), (''book_isbn'', JStr (cp_book_isbn c)),
      (''branch_id'', JStr (cp_branch_id c)), (''shelf_location'', JStr (cp_shelf_location c)),
      (''price'', JFloat (cp_price c)), (''status'', JStr (status_value (copy_status c))),
      (''current_borrower_id'', json_opt JStr (cp_borrower c)),
      (''current_reserver_id'', json_opt JStr (cp_reserver c)),
      (''borrow_count'', JInt (cp_borrow_count c))]"

definition base_to_dict :: "copy_heap \<Rightarrow> book \<Rightarrow> (string, json) dict" where
  "base_to_dict h b =
     [(''isbn'', JStr (bk_isbn b)), (''title'', JStr (bk_title b)),
      (''authors'', JList (map JStr (bk_authors b))), (''category'', JStr (bk_category b)),
      (''publication_year'', JInt (bk_publication_year b)), (''publisher'', JStr (bk_publisher b)),
      (''description'', JStr (bk_description b)), (''rating'', JFloat (bk_rating b)),
      (''difficulty_level'', JStr (bk_difficulty_level b)),
      (''keywords'', JList (map JStr (bk_keywords b))),
      (''format'', JStr (format_value (get_format b))), (''is_available'', JBool (is_available h b))]"

definition book_to_dict :: "copy_heap \<Rightarrow> book \<Rightarrow> (string, json) dict" where
  "book_to_dict h b =
     dict_update (base_to_dict h b)
       (case bk_details b of
          PhysicalBook w p cs \<Rightarrow>
            [(''total_copies'', JInt (int (total_copies b))),
             (''available_copies'', JInt (int (length (get_available_copies h b None)))),
             (''weight_grams'', JInt w), (''page_count'', JInt p),
             (''copies'', JList (map (\<lambda>c. JObj (copy_to_dict c)) (heap_copies h cs)))]
        | EBook url mb fmt drm max_downloads readers \<Rightarrow>
            [(''download_url'', JStr url), (''file_size_mb'', JFloat mb), (''file_format'', JStr fmt),
             (''drm_protected'', JBool drm), (''active_readers'', JInt readers),
             (''max_concurrent_downloads'', JInt max_downloads)]
        | AudioBook url mins who \<Rightarrow>
            [(''stream_url'', JStr url), (''duration_minutes'', JInt mins), (''narrator'', JStr who)])"

section \<open>Facts about copies of a book\<close>

lemma copies_of_with_copies [simp]: "is_physical b \<Longrightarrow> copies_of (with_copies b cs) = cs"
  by (cases "bk_details b") (auto simp: with_copies_def copies_of_def)

lemma with_copies_frame [simp]:
  "bk_isbn (with_copies b cs) = bk_isbn b" "is_physical (with_copies b cs) = is_physical b"
  "bk_title (with_copies b cs) = bk_title b" "bk_rating (with_copies b cs) = bk_rating b"
  by (cases "bk_details b"; simp add: with_copies_def)+

lemma copies_of_add_copy [simp]:
  "is_physical b \<Longrightarrow> copies_of (add_copy b i r) = dset (copies_of b) i r"
  by (simp add: add_copy_def)

lemma add_copy_frame [simp]: "bk_isbn (add_copy b i r) = bk_isbn b" "is_physical (add_copy b i r) = is_physical b"
  by (simp_all add: add_copy_def)

lemma set_heap_copies: "c \<in> set (heap_copies h cs) \<longleftrightarrow> (\<exists>r \<in> set (dvalues cs). h r = Some c)"
  by (force simp: heap_copies_def map_filter_def)

lemma get_available_copies_iff:
  "c \<in> set (get_available_copies h b br) \<longleftrightarrow>
     copy_status c = AVAILABLE \<and> (br = None \<or> Some (cp_branch_id c) = br) \<and>
     (\<exists>r \<in> set (dvalues (copies_of b)). h r = Some c)"
  by (auto simp: get_available_copies_def set_heap_copies)

lemma length_heap_copies: "length (heap_copies h cs) \<le> length cs"
proof -
  have "length (heap_copies h cs) \<le> length (dvalues cs)"
    unfolding heap_copies_def map_filter_def length_map [of _ "filter _ _"] by (rule length_filter_le)
  then show ?thesis by simp
qed

lemma available_le_total: "length (get_available_copies h b br) \<le> total_copies b"
  unfolding get_available_copies_def total_copies_def
  using length_filter_le length_heap_copies order_trans by blast

lemma is_available_physical:
  assumes "is_physical b"
  shows "is_available h b \<longleftrightarrow>
    (\<exists>r \<in> set (dvalues (copies_of b)). \<exists>c. h r = Some c \<and> copy_status c = AVAILABLE)"
proof -
  have "is_available h b \<longleftrightarrow> get_available_copies h b None \<noteq> []"
    using assms by (cases "bk_details b") (simp_all add: is_available_def)
  also have "\<dots> \<longleftrightarrow> (\<exists>c. c \<in> set (get_available_copies h b None))"
    by (simp add: ex_in_conv)
  also have "\<dots> \<longleftrightarrow> (\<exists>r \<in> set (dvalues (copies_of b)). \<exists>c. h r = Some c \<and> copy_status c = AVAILABLE)"
    unfolding get_available_copies_iff by blast
  finally show ?thesis .
qed

section \<open>Concurrent access to an e-book\<close>

datatype read_event = Acquire | Release

fun read_step :: "copy_heap \<Rightarrow> book \<Rightarrow> read_event \<Rightarrow> book" where
  "read_step h b Acquire = snd (acquire_read_access h b)"
| "read_step h b Release = release_read_access b"

definition readers_bounded :: "book \<Rightarrow> bool" where
  "readers_bounded b \<longleftrightarrow>
     is_EBook (bk_details b) \<and> 0 \<le> active_readers_count (bk_details b) \<and>
     active_readers_count (bk_details b) \<le> max_concurrent_downloads (bk_details b)"

lemma read_step_bounded: "readers_bounded b \<Longrightarrow> readers_bounded (read_step h b e)"
  by (cases e; cases "bk_details b")
     (auto simp: readers_bounded_def acquire_read_access_def release_read_access_def is_available_def)

lemma read_step_max:
  "max_concurrent_downloads (bk_details (read_step h b e)) = max_concurrent_downloads (bk_details b)"
  by (cases e; cases "bk_details b")
     (auto simp: acquire_read_access_def release_read_access_def)

text \<open>
  However readers of an e-book acquire and release access, the number of active readers stays
  between zero and the configured limit, an acquisition fails exactly when the limit is reached,
  and a failing acquisition leaves the book unchanged.
\<close>

theorem ebook_access_bounded:
  assumes "readers_bounded b"
  shows "readers_bounded (foldl (read_step h) b es) \<and>
    (is_ok (fst (acquire_read_access h b)) \<longleftrightarrow>
       active_readers_count (bk_details b) < max_concurrent_downloads (bk_details b)) \<and>
    (is_ok (fst (acquire_read_access h b)) \<or> snd (acquire_read_access h b) = b)"
proof (intro conjI)
  show "readers_bounded (foldl (read_step h) b es)"
    using assms by (induction es arbitrary: b) (simp_all add: read_step_bounded)
  show "is_ok (fst (acquire_read_access h b)) \<longleftrightarrow>
          active_readers_count (bk_details b) < max_concurrent_downloads (bk_details b)"
    using assms by (cases "bk_details b")
      (auto simp: readers_bounded_def acquire_read_access_def is_available_def)
  show "is_ok (fst (acquire_read_access h b)) \<or> snd (acquire_read_access h b) = b"
    by (cases "bk_details b") (auto simp: acquire_read_access_def)
qed

definition example_ebook :: "int \<Rightarrow> book" where
  "example_ebook limit =
     \<lparr>bk_isbn = ''978-0134685991'', bk_title = ''Effective Java'', bk_authors = [''Joshua Bloch''],
      bk_category = ''Programming Languages'', bk_publication_year = 2018, bk_publisher = ''Unknown'',
      bk_description = [], bk_rating = 49/10, bk_difficulty_level = ''Advanced'', bk_keywords = [],
      bk_borrow_history_count = 0,
      bk_details = EBook ''https://cdn.libraflow.org/ebooks/effective_java_3e.pdf'' (46/5) ''PDF'' True limit 0\<rparr>"

theorem ebook_access_bounded_witness:
  "readers_bounded (foldl (read_step (\<lambda>_. None)) (example_ebook 1) [Acquire, Acquire, Release]) \<and>
   is_ok (fst (acquire_read_access (\<lambda>_. None) (example_ebook 1)))"
proof -
  have "readers_bounded (example_ebook 1)"
    by (simp add: readers_bounded_def example_ebook_def)
  from ebook_access_bounded [OF this, of "\<lambda>_. None" "[Acquire, Acquire, Release]"] show ?thesis
    by (simp add: example_ebook_def)
qed

end
