(* ===== verification/Users.thy ===== *)
theory Users
  imports Core_Types
begin

text \<open>
  Users, borrowing privileges, fines and permissions: \<^verbatim>\<open>libflow/core/user.py\<close>. The attributes of
  the four subclasses are the constructors of \<open>user_details\<close>. Dates are day numbers, so a
  difference of dates in days is a subtraction; points in time are \<open>timestamp\<close>s handed to the
  operations that read the clock. The department of a faculty member and the staff code of a librarian are
  optional: a user that is read back from a database row with an empty column has the value \<open>None\<close> there.
\<close>

type_synonym date = int

datatype user_details =
    Student (academic_year: int) (major: string) (exam_date: "date option")
  | Faculty (department: "string option")
  | Librarian (staff_code: "string option")
  | Admin

record borrow_entry =
  be_copy_id :: string
  be_isbn :: string
  be_borrowed_at :: timestamp
  be_returned_at :: "timestamp option"
  be_is_late :: bool
  be_is_damaged :: bool

record user =
  us_user_id :: string
  us_name :: string
  us_email :: string
  us_password_hash :: string
  us_max_borrow_limit :: int
  us_branch_id :: string
  us_active :: "string set"
  us_history :: "borrow_entry list"
  us_active_reservations :: "string set"
  us_fines :: py_float
  us_security_deposit :: py_float
  us_is_suspended :: bool
  us_details :: user_details

definition new_user ::
  "string \<Rightarrow> string \<Rightarrow> string \<Rightarrow> string \<Rightarrow> int \<Rightarrow> string \<Rightarrow> user_details \<Rightarrow> user" where
  "new_user user_id name email password_hash max_borrow_limit branch_id details =
     \<lparr>us_user_id = user_id, us_name = name, us_email = email, us_password_hash = password_hash,
      us_max_borrow_limit = max_borrow_limit, us_branch_id = branch_id, us_active = {},
      us_history = [], us_active_reservations = {}, us_fines = 0, us_security_deposit = 0,
      us_is_suspended = False, us_details = details\<rparr>"

section \<open>Constructors of the subclasses\<close>

definition new_student ::
  "string \<Rightarrow> string \<Rightarrow> string \<Rightarrow> int \<Rightarrow> string \<Rightarrow> date option \<Rightarrow> string \<Rightarrow> string \<Rightarrow> int \<Rightarrow> user" where
  "new_student user_id name email year maj exam pwd branch_id limit =
     new_user user_id name email pwd limit branch_id (Student year maj exam)"

definition new_faculty :: "string \<Rightarrow> string \<Rightarrow> string \<Rightarrow> string option \<Rightarrow> string \<Rightarrow> string \<Rightarrow> user" where
  "new_faculty user_id name email dept pwd branch_id =
     new_user user_id name email pwd 10 branch_id (Faculty dept)"

definition new_librarian :: "string \<Rightarrow> string \<Rightarrow> string \<Rightarrow> string option \<Rightarrow> string \<Rightarrow> string \<Rightarrow> user" where
  "new_librarian user_id name email code pwd branch_id =
     new_user user_id name email pwd 15 branch_id (Librarian code)"

definition new_admin :: "string \<Rightarrow> string \<Rightarrow> string \<Rightarrow> string \<Rightarrow> string \<Rightarrow> user" where
  "new_admin user_id name email pwd branch_id = new_user user_id name email pwd 50 branch_id Admin"

section \<open>Roles and permissions\<close>

fun details_role :: "user_details \<Rightarrow> user_role" where
  "details_role (Student _ _ _) = STUDENT"
| "details_role (Faculty _) = FACULTY"
| "details_role (Librarian _) = LIBRARIAN"
| "details_role Admin = ADMIN"

definition get_role :: "user \<Rightarrow> user_role" where
  "get_role u = details_role (us_details u)"

fun role_permissions :: "user_role \<Rightarrow> string list" where
  "role_permissions STUDENT =
     [''BOOK_SEARCH'', ''BOOK_RESERVE'', ''BOOK_READ_DIGITAL'', ''VIEW_PROFILE'', ''PAY_FINES'']"
| "role_permissions FACULTY =
     [''BOOK_SEARCH'', ''BOOK_RESERVE'', ''BOOK_READ_DIGITAL'', ''VIEW_PROFILE'', ''PAY_FINES'',
      ''FACULTY_PRIORITY_BORROW'']"
| "role_permissions LIBRARIAN =
     [''BOOK_SEARCH'', ''BOOK_ISSUE'', ''BOOK_RETURN'', ''BOOK_MANAGE_INVENTORY'',
      ''BOOK_TRANSFER_INITIATE'', ''BOOK_TRANSFER_RECEIVE'', ''BOOK_ALLOCATE'', ''BOOK_RESERVE'',
      ''BILLING_PAY'', ''INTEL_RECOMMENDATIONS'', ''INTEL_RISK_ASSESSMENT'', ''INTEL_LEARNING_PATH'',
      ''INTEL_GRAPH_TRAVERSE'', ''FINE_WAIVE_PARTIAL'', ''USER_VIEW_CIRCULATION'']"
| "role_permissions ADMIN = [''ALL'']"

definition get_permissions :: "user \<Rightarrow> string list" where
  "get_permissions u = role_permissions (get_role u)"

definition has_permission :: "user \<Rightarrow> string \<Rightarrow> bool" where
  "has_permission u permission \<longleftrightarrow>
     permission \<in> set (get_permissions u) \<or> ''ALL'' \<in> set (get_permissions u)"

section \<open>Borrowing\<close>

definition can_borrow :: "user \<Rightarrow> bool" where
  "can_borrow u =
     (if us_is_suspended u then False
      else if us_fines u > 100 then False
      else if int (card (us_active u)) \<ge> us_max_borrow_limit u then False
      else True)"

definition add_borrow :: "timestamp \<Rightarrow> user \<Rightarrow> string \<Rightarrow> string \<Rightarrow> user" where
  "add_borrow now u copy_id isbn =
     u\<lparr>us_active := insert copy_id (us_active u),
       us_history := us_history u @
         [\<lparr>be_copy_id = copy_id, be_isbn = isbn, be_borrowed_at = now, be_returned_at = None,
           be_is_late = False, be_is_damaged = False\<rparr>]\<rparr>"

fun update_first :: "('a \<Rightarrow> bool) \<Rightarrow> ('a \<Rightarrow> 'a) \<Rightarrow> 'a list \<Rightarrow> 'a list" where
  "update_first P f [] = []"
| "update_first P f (x # xs) = (if P x then f x # xs else x # update_first P f xs)"

definition open_entry :: "string \<Rightarrow> borrow_entry \<Rightarrow> bool" where
  "open_entry copy_id e \<longleftrightarrow> be_copy_id e = copy_id \<and> be_returned_at e = None"

definition record_return :: "timestamp \<Rightarrow> user \<Rightarrow> string \<Rightarrow> bool \<Rightarrow> bool \<Rightarrow> user" where
  "record_return now u copy_id is_late is_damaged =
     u\<lparr>us_active := us_active u - {copy_id},
       us_history := rev (update_first (open_entry copy_id)
         (\<lambda>e. e\<lparr>be_returned_at := Some now, be_is_late := is_late, be_is_damaged := is_damaged\<rparr>)
         (rev (us_history u)))\<rparr>"

section \<open>Fines\<close>

definition add_fine :: "user \<Rightarrow> py_float \<Rightarrow> user" where
  "add_fine u amount = u\<lparr>us_fines := us_fines u + max 0 amount\<rparr>"

definition pay_fine :: "user \<Rightarrow> py_float \<Rightarrow> py_float \<times> user" where
  "pay_fine u amount =
     (let paid = min (us_fines u) amount in (paid, u\<lparr>us_fines := us_fines u - paid\<rparr>))"

definition user_to_dict :: "user \<Rightarrow> (string, json) dict" where
  "user_to_dict u =
     [(''user_id'', JStr (us_user_id u)), (''name'', JStr (us_name u)), (''email'', JStr (us_email u)),
      (''role'', JStr (role_value (get_role u))), (''max_borrow_limit'', JInt (us_max_borrow_limit u)),
      (''active_borrows_count'', JInt (int (card (us_active u)))),
      (''unpaid_fines'', JFloat (us_fines u)), (''security_deposit'', JFloat (us_security_deposit u)),
      (''is_suspended'', JBool (us_is_suspended u)), (''branch_id'', JStr (us_branch_id u))] @
     (case us_details u of
        Student year maj exam \<Rightarrow>
          [(''academic_year'', JInt year), (''major'', JStr maj), (''exam_date'', json_opt JInt exam)]
      | _ \<Rightarrow> [])"

section \<open>Lemmas\<close>

text \<open>The loans of a copy that the history still shows as open.\<close>

definition open_loans :: "user \<Rightarrow> string \<Rightarrow> nat" where
  "open_loans u copy_id = length (filter (open_entry copy_id) (us_history u))"

lemma length_update_first [simp]: "length (update_first P f xs) = length xs"
  by (induction xs) auto

lemma update_first_none: "\<forall>x \<in> set xs. \<not> P x \<Longrightarrow> update_first P f xs = xs"
  by (induction xs) auto

lemma filter_update_first:
  "(\<And>x. P x \<Longrightarrow> \<not> Q (f x)) \<Longrightarrow> (\<And>x. P x \<Longrightarrow> Q x) \<Longrightarrow> (\<And>x. Q x \<Longrightarrow> P x) \<Longrightarrow>
     length (filter Q (update_first P f xs)) = length (filter Q xs) - Suc 0"
  by (induction xs) (auto simp: Suc_diff_le)

lemma filter_update_first_other:
  "(\<And>x. P x \<Longrightarrow> Q (f x) = Q x) \<Longrightarrow>
     length (filter Q (update_first P f xs)) = length (filter Q xs)"
  by (induction xs) auto

lemma add_borrow_frame [simp]:
  "us_user_id (add_borrow now u i b) = us_user_id u"
  "us_active (add_borrow now u i b) = insert i (us_active u)"
  "us_max_borrow_limit (add_borrow now u i b) = us_max_borrow_limit u"
  "us_fines (add_borrow now u i b) = us_fines u"
  "us_is_suspended (add_borrow now u i b) = us_is_suspended u"
  by (simp_all add: add_borrow_def)

lemma record_return_frame [simp]:
  "us_user_id (record_return now u i l d) = us_user_id u"
  "us_active (record_return now u i l d) = us_active u - {i}"
  "us_max_borrow_limit (record_return now u i l d) = us_max_borrow_limit u"
  "us_fines (record_return now u i l d) = us_fines u"
  by (simp_all add: record_return_def)

lemma fines_frame [simp]:
  "us_user_id (add_fine u a) = us_user_id u" "us_active (add_fine u a) = us_active u"
  "us_max_borrow_limit (add_fine u a) = us_max_borrow_limit u"
  "us_user_id (snd (pay_fine u a)) = us_user_id u" "us_active (snd (pay_fine u a)) = us_active u"
  "us_max_borrow_limit (snd (pay_fine u a)) = us_max_borrow_limit u"
  by (simp_all add: add_fine_def pay_fine_def Let_def)

lemma open_loans_add_borrow [simp]:
  "open_loans (add_borrow now u i b) j = open_loans u j + (if j = i then 1 else 0)"
  by (simp add: open_loans_def add_borrow_def open_entry_def)

lemma open_loans_record_return [simp]:
  "open_loans (record_return now u i l d) j = open_loans u j - (if j = i then 1 else 0)"
proof -
  let ?f = "\<lambda>e. e\<lparr>be_returned_at := Some now, be_is_late := l, be_is_damaged := d\<rparr>"
  have "length (filter (open_entry j) (update_first (open_entry i) ?f xs)) =
          length (filter (open_entry j) xs) - (if j = i then 1 else 0)" for xs
    by (cases "j = i")
       (auto simp: open_entry_def intro!: filter_update_first filter_update_first_other)
  then show ?thesis by (simp add: open_loans_def record_return_def rev_filter [symmetric])
qed

lemma can_borrow_iff:
  "can_borrow u \<longleftrightarrow>
     \<not> us_is_suspended u \<and> us_fines u \<le> 100 \<and> int (card (us_active u)) < us_max_borrow_limit u"
  by (auto simp: can_borrow_def)

lemma card_add_borrow:
  "finite (us_active u) \<Longrightarrow> can_borrow u \<Longrightarrow>
     int (card (us_active (add_borrow now u i b))) \<le> us_max_borrow_limit u"
  by (auto simp: can_borrow_iff card_insert_if)

text \<open>
  Paying a fine and charging a fine conserve money. A charge adds the positive part of the
  amount; a payment is split exactly into what it clears and what stays due, it never clears more
  than was paid or than was due, and a balance that is not negative never becomes negative.
\<close>

theorem fines_conserved:
  assumes "0 \<le> us_fines u"
  shows "us_fines (add_fine u a) = us_fines u + max 0 a \<and>
     us_fines (snd (pay_fine u a)) + fst (pay_fine u a) = us_fines u \<and>
     fst (pay_fine u a) \<le> a \<and> fst (pay_fine u a) \<le> us_fines u \<and>
     0 \<le> us_fines (snd (pay_fine u a)) \<and> 0 \<le> us_fines (add_fine u a) \<and>
     (us_fines u \<le> a \<longrightarrow> us_fines (snd (pay_fine u a)) = 0)"
  using assms by (auto simp: add_fine_def pay_fine_def Let_def min_def max_def)

theorem fines_conserved_witness:
  "us_fines (snd (pay_fine (add_fine (new_admin ''A'' ''Root'' ''a@b'' ''h'' ''B'') 120) 50)) = 70 \<and>
   fst (pay_fine (add_fine (new_admin ''A'' ''Root'' ''a@b'' ''h'' ''B'') 120) 500) = 120"
proof -
  let ?u = "add_fine (new_admin ''A'' ''Root'' ''a@b'' ''h'' ''B'') 120"
  have f: "us_fines ?u = 120" by (simp add: add_fine_def new_admin_def new_user_def)
  then have "0 \<le> us_fines ?u" by simp
  from fines_conserved [OF this, of 50] fines_conserved [OF this, of 500] f show ?thesis
    by (auto simp: pay_fine_def Let_def)
qed

text \<open>
  A loan that is opened and then closed is no longer active and leaves no open history entry
  behind; the history keeps every entry, and the loans of all other copies are untouched.
\<close>

theorem borrow_then_return:
  assumes "open_loans u copy_id = 0" and "copy_id \<notin> us_active u"
  shows "us_active (record_return t2 (add_borrow t1 u copy_id isbn) copy_id late damaged) = us_active u \<and>
     (\<forall>j. open_loans (record_return t2 (add_borrow t1 u copy_id isbn) copy_id late damaged) j = open_loans u j) \<and>
     us_history (record_return t2 (add_borrow t1 u copy_id isbn) copy_id late damaged) =
       us_history u @ [\<lparr>be_copy_id = copy_id, be_isbn = isbn, be_borrowed_at = t1,
         be_returned_at = Some t2, be_is_late = late, be_is_damaged = damaged\<rparr>]"
  using assms by (auto simp: record_return_def add_borrow_def open_entry_def open_loans_def)

theorem borrow_then_return_witness:
  "us_active (record_return 20 (add_borrow 10 (new_admin ''A'' ''Root'' ''a@b'' ''h'' ''B'') ''C1'' ''I1'') ''C1'' True False) = {}"
  using borrow_then_return [of "new_admin ''A'' ''Root'' ''a@b'' ''h'' ''B''" "''C1''" 20 10 "''I1''" True False]
  by (simp add: new_admin_def new_user_def open_loans_def)

end
