(* ===== verification/Branch_Manager.thy ===== *)
theory Branch_Manager
  imports Book_State
begin

text \<open>
  Branches (\<^verbatim>\<open>libflow/core/branch.py\<close>) and the transfers between them
  (\<^verbatim>\<open>libflow/distributed/branch_manager.py\<close>). The copy of a transfer is passed in and mutated; a
  transfer request is only reached through the dictionary of the manager.
\<close>

record library_branch =
  br_branch_id :: string
  br_name :: string
  br_city :: string
  br_address :: string
  br_phone :: string
  br_latitude :: py_float
  br_longitude :: py_float

definition branch_to_dict :: "library_branch \<Rightarrow> (string, json) dict" where
  "branch_to_dict b =
     [(''branch_id'', JStr (br_branch_id b)), (''name'', JStr (br_name b)), (''city'', JStr (br_city b)),
      (''address'', JStr (br_address b)), (''phone'', JStr (br_phone b)),
      (''coordinates'', JObj [(''latitude'', JFloat (br_latitude b)), (''longitude'', JFloat (br_longitude b))])]"

record transfer_request =
  tr_transfer_id :: string
  tr_copy_id :: string
  tr_isbn :: string
  tr_source_branch_id :: string
  tr_dest_branch_id :: string
  tr_requested_by :: string
  tr_status :: transfer_status
  tr_created_at :: timestamp
  tr_completed_at :: "timestamp option"

definition transfer_to_dict :: "transfer_request \<Rightarrow> (string, json) dict" where
  "transfer_to_dict t =
     [(''transfer_id'', JStr (tr_transfer_id t)), (''copy_id'', JStr (tr_copy_id t)), (''isbn'', JStr (tr_isbn t)),
      (''source_branch_id'', JStr (tr_source_branch_id t)), (''dest_branch_id'', JStr (tr_dest_branch_id t)),
      (''requested_by'', JStr (tr_requested_by t)), (''status'', JStr (transfer_status_value (tr_status t))),
      (''created_at'', JInt (tr_created_at t)), (''completed_at'', json_opt JInt (tr_completed_at t))]"

record branch_mgr =
  bm_branches :: "(string, library_branch) dict"
  bm_transfers :: "(string, transfer_request) dict"

definition new_branch_mgr :: branch_mgr where
  "new_branch_mgr = \<lparr>bm_branches = [], bm_transfers = []\<rparr>"

definition register_branch :: "branch_mgr \<Rightarrow> library_branch \<Rightarrow> branch_mgr" where
  "register_branch bm b = bm\<lparr>bm_branches := dset (bm_branches bm) (br_branch_id b) b\<rparr>"

definition get_branch :: "branch_mgr \<Rightarrow> string \<Rightarrow> library_branch option" where
  "get_branch bm branch_id = dget (bm_branches bm) branch_id"

definition list_all_branches :: "branch_mgr \<Rightarrow> (string, json) dict list" where
  "list_all_branches bm = map branch_to_dict (dvalues (bm_branches bm))"

definition request_transfer ::
  "timestamp \<Rightarrow> string \<Rightarrow> branch_mgr \<Rightarrow> book_copy \<Rightarrow> string \<Rightarrow> string \<Rightarrow> (exn + transfer_request \<times> book_copy) \<times> branch_mgr" where
  "request_transfer now uuid8 bm c dest_branch_id requested_by =
     (if dest_branch_id \<notin> set (dkeys (bm_branches bm))
      then (Inl (ValueError (''Destination branch '' @ quoted dest_branch_id @ '' does not exist.'')), bm)
      else if cp_branch_id c = dest_branch_id
      then (Inl (ValueError (''Copy is already located at branch '' @ quoted dest_branch_id @ ''.'')), bm)
      else case copy_start_transfer c dest_branch_id of
             Inl e \<Rightarrow> (Inl e, bm)
           | Inr c \<Rightarrow>
               let tx_id = ''TRF-'' @ uuid8;
                   req = \<lparr>tr_transfer_id = tx_id, tr_copy_id = cp_copy_id c, tr_isbn = cp_book_isbn c,
                     tr_source_branch_id = cp_branch_id c, tr_dest_branch_id = dest_branch_id,
                     tr_requested_by = requested_by, tr_status = TRF_IN_TRANSIT, tr_created_at = now, tr_completed_at = None\<rparr>
               in (Inr (req, c), bm\<lparr>bm_transfers := dset (bm_transfers bm) tx_id req\<rparr>))"

definition complete_transfer ::
  "timestamp \<Rightarrow> branch_mgr \<Rightarrow> string \<Rightarrow> book_copy \<Rightarrow> (exn + transfer_request \<times> book_copy) \<times> branch_mgr" where
  "complete_transfer now bm transfer_id c =
     (case dget (bm_transfers bm) transfer_id of
        None \<Rightarrow> (Inl (ValueError (''Transfer request '' @ quoted transfer_id @ '' not found.'')), bm)
      | Some req \<Rightarrow>
          if tr_status req \<noteq> TRF_IN_TRANSIT
          then (Inl (ValueError (''Transfer '' @ quoted transfer_id @ '' is not in transit.'')), bm)
          else case copy_complete_transfer c of
                 Inl e \<Rightarrow> (Inl e, bm)
               | Inr c \<Rightarrow>
                   let req = req\<lparr>tr_status := TRF_COMPLETED, tr_completed_at := Some now\<rparr>
                   in (Inr (req, c), bm\<lparr>bm_transfers := dset (bm_transfers bm) transfer_id req\<rparr>))"

section \<open>Properties\<close>

lemma request_transfer_ok:
  assumes "request_transfer now uid bm c dest who = (Inr (req, c'), bm')"
  shows "copy_status c = AVAILABLE \<and> copy_status c' = IN_TRANSIT \<and> cp_target c' = Some dest \<and>
    cp_branch_id c' = cp_branch_id c \<and> cp_branch_id c \<noteq> dest \<and> dest \<in> set (dkeys (bm_branches bm)) \<and>
    tr_status req = TRF_IN_TRANSIT \<and> tr_source_branch_id req = cp_branch_id c \<and> tr_dest_branch_id req = dest \<and>
    tr_copy_id req = cp_copy_id c \<and> tr_transfer_id req = ''TRF-'' @ uid \<and> tr_isbn req = cp_book_isbn c \<and>
    c' = c\<lparr>cp_target := Some dest, cp_state := InTransitState\<rparr> \<and>
    bm' = bm\<lparr>bm_transfers := dset (bm_transfers bm) (''TRF-'' @ uid) req\<rparr>"
  using assms
  by (cases "cp_state c")
     (auto simp: request_transfer_def copy_start_transfer_def set_state_def copy_status_def Let_def split: if_splits)

lemma request_transfer_raise: "request_transfer now uid bm c dest who = (Inl e, bm') \<Longrightarrow> bm' = bm"
  by (auto simp: request_transfer_def Let_def split: if_splits sum.splits)

lemma complete_transfer_raise: "complete_transfer now bm i c = (Inl e, bm') \<Longrightarrow> bm' = bm"
  by (auto simp: complete_transfer_def Let_def split: if_splits sum.splits option.splits)

text \<open>
  C36: a transfer moves its copy. A transfer that was granted can be completed with the copy it took, once:
  the copy then is available at the destination and keeps its other data, the request is completed, and
  completing it again is refused without effect. A refused request changes nothing.
\<close>

theorem transfer_moves_copy:
  assumes "request_transfer now uid bm c dest who = (r, bm')" and "dest \<noteq> []"
  shows "case r of
      Inl e \<Rightarrow> bm' = bm
    | Inr (req, c') \<Rightarrow>
        complete_transfer now' bm' (''TRF-'' @ uid) c' =
          (Inr (req\<lparr>tr_status := TRF_COMPLETED, tr_completed_at := Some now'\<rparr>,
                c\<lparr>cp_branch_id := dest, cp_target := None, cp_state := AvailableState\<rparr>),
           bm'\<lparr>bm_transfers := dset (bm_transfers bm') (''TRF-'' @ uid) (req\<lparr>tr_status := TRF_COMPLETED, tr_completed_at := Some now'\<rparr>)\<rparr>) \<and>
        fst (complete_transfer now'' (snd (complete_transfer now' bm' (''TRF-'' @ uid) c')) (''TRF-'' @ uid) c'') =
          Inl (ValueError (''Transfer '' @ quoted (''TRF-'' @ uid) @ '' is not in transit.''))"
proof (cases r)
  case (Inl e)
  then show ?thesis using request_transfer_raise assms(1) by simp
next
  case (Inr p)
  obtain req c' where p: "p = (req, c')" by fastforce
  note ok = request_transfer_ok [OF assms(1) [unfolded Inr p]]
  have "copy_complete_transfer c' = Inr (c\<lparr>cp_branch_id := dest, cp_target := None, cp_state := AvailableState\<rparr>)"
    using ok assms(2) by (simp add: copy_complete_transfer_def set_state_def)
  then have 1: "complete_transfer now' bm' (''TRF-'' @ uid) c' =
      (Inr (req\<lparr>tr_status := TRF_COMPLETED, tr_completed_at := Some now'\<rparr>,
            c\<lparr>cp_branch_id := dest, cp_target := None, cp_state := AvailableState\<rparr>),
       bm'\<lparr>bm_transfers := dset (bm_transfers bm') (''TRF-'' @ uid) (req\<lparr>tr_status := TRF_COMPLETED, tr_completed_at := Some now'\<rparr>)\<rparr>)"
    using ok by (simp add: complete_transfer_def Let_def)
  have 2: "fst (complete_transfer now'' (snd (complete_transfer now' bm' (''TRF-'' @ uid) c')) (''TRF-'' @ uid) c'') =
      Inl (ValueError (''Transfer '' @ quoted (''TRF-'' @ uid) @ '' is not in transit.''))"
    unfolding 1 by (simp add: complete_transfer_def)
  show ?thesis unfolding Inr p sum.case prod.case by (intro conjI 1 2)
qed

theorem transfer_moves_copy_witness:
  "\<exists>req c' bm'. request_transfer 5 ''AB'' (register_branch new_branch_mgr
      \<lparr>br_branch_id = ''B2'', br_name = ''N'', br_city = ''C'', br_address = [], br_phone = [], br_latitude = 0, br_longitude = 0\<rparr>)
      (new_copy ''C1'' ''I1'' ''B1'' ''A1'' 500) ''B2'' ''me'' = (Inr (req, c'), bm') \<and>
    (\<exists>req'. fst (complete_transfer 9 bm' ''TRF-AB'' c') = Inr (req', new_copy ''C1'' ''I1'' ''B2'' ''A1'' 500))"
proof -
  let ?bm = "register_branch new_branch_mgr \<lparr>br_branch_id = ''B2'', br_name = ''N'', br_city = ''C'', br_address = [], br_phone = [], br_latitude = 0, br_longitude = 0\<rparr>"
  let ?c = "new_copy ''C1'' ''I1'' ''B1'' ''A1'' 500"
  obtain r bm' where r: "request_transfer 5 ''AB'' ?bm ?c ''B2'' ''me'' = (r, bm')" by fastforce
  have "is_ok r" using r by (auto simp: request_transfer_def register_branch_def new_branch_mgr_def new_copy_def Let_def
      copy_start_transfer_def set_state_def)
  then obtain req c' where "r = Inr (req, c')" by (auto simp: is_ok_iff)
  with transfer_moves_copy [OF r, of 9 0 ?c] r show ?thesis by (auto simp: new_copy_def)
qed

end
