(* ===== verification/Lock_Manager.thy ===== *)
theory Lock_Manager
  imports Core_Types
begin

text \<open>
  The lock manager of \<^verbatim>\<open>libflow/storage/lock_manager.py\<close>: a mutex and a version counter per resource
  in the process, and their distributed versions on a Redis server. The server is not part of the
  program: its commands are a parameter (\<open>redis_ops\<close>) with their documented behaviour as the hypothesis
  \<open>redis_laws\<close>; the two Lua scripts of the source are definitions over the commands.
\<close>

section \<open>In-process mutexes and versions\<close>

record lock_mgr =
  lm_mutexes :: "(string, bool) dict"
  lm_versions :: "(string, int) dict"

definition new_lock_mgr :: lock_mgr where
  "new_lock_mgr = \<lparr>lm_mutexes = [], lm_versions = []\<rparr>"

text \<open>The value of a mutex is whether it is locked.\<close>

definition get_resource_mutex :: "lock_mgr \<Rightarrow> string \<Rightarrow> bool \<times> lock_mgr" where
  "get_resource_mutex lm resource_id =
     (case dget (lm_mutexes lm) resource_id of
        Some locked \<Rightarrow> (locked, lm)
      | None \<Rightarrow> (False, lm\<lparr>lm_mutexes := dset (lm_mutexes lm) resource_id False\<rparr>))"

definition mutex_locked :: "lock_mgr \<Rightarrow> string \<Rightarrow> bool" where
  "mutex_locked lm resource_id \<longleftrightarrow> dget (lm_mutexes lm) resource_id = Some True"

definition lock_timeout :: "(py_float \<Rightarrow> string) \<Rightarrow> string \<Rightarrow> py_float \<Rightarrow> exn" where
  "lock_timeout show_float resource_id timeout =
     TimeoutError (''Could not acquire lock for resource '' @ quoted resource_id @ '' within '' @ show_float timeout @ ''s.'')"

text \<open>
  The context manager around a block, for a caller that meets the mutex in its present state: a mutex
  that stays locked for the whole timeout raises, and the block runs with the mutex locked, which is
  released on every way out. \<open>threading.Lock\<close> is not reentrant: a block that asks for its own resource
  again times out.
\<close>

definition with_pessimistic_lock ::
  "(py_float \<Rightarrow> string) \<Rightarrow> lock_mgr \<Rightarrow> string \<Rightarrow> py_float \<Rightarrow> (lock_mgr \<Rightarrow> 's \<Rightarrow> (exn + 'a) \<times> lock_mgr \<times> 's) \<Rightarrow> 's \<Rightarrow>
     (exn + 'a) \<times> lock_mgr \<times> 's" where
  "with_pessimistic_lock show_float lm resource_id timeout body s =
     (case get_resource_mutex lm resource_id of
        (True, lm) \<Rightarrow> (Inl (lock_timeout show_float resource_id timeout), lm, s)
      | (False, lm) \<Rightarrow>
          (case body (lm\<lparr>lm_mutexes := dset (lm_mutexes lm) resource_id True\<rparr>) s of
             (r, lm, s) \<Rightarrow> (r, lm\<lparr>lm_mutexes := dset (lm_mutexes lm) resource_id False\<rparr>, s)))"

definition get_version :: "lock_mgr \<Rightarrow> string \<Rightarrow> int" where
  "get_version lm resource_id = dget_default (lm_versions lm) resource_id 1"

definition version_conflict :: "string \<Rightarrow> int \<Rightarrow> int \<Rightarrow> exn" where
  "version_conflict resource_id expected current =
     ValueError (''Optimistic lock conflict on '' @ quoted resource_id @ '': expected v'' @ show_int expected @
       '', but was v'' @ show_int current @ ''.'')"

definition check_and_update_version :: "lock_mgr \<Rightarrow> string \<Rightarrow> int \<Rightarrow> (exn + int) \<times> lock_mgr" where
  "check_and_update_version lm resource_id expected_version =
     (let current_version = dget_default (lm_versions lm) resource_id 1 in
      if current_version \<noteq> expected_version
      then (Inl (version_conflict resource_id expected_version current_version), lm)
      else (Inr (current_version + 1), lm\<lparr>lm_versions := dset (lm_versions lm) resource_id (current_version + 1)\<rparr>))"

section \<open>Mutual exclusion between threads\<close>

text \<open>
  Threads that use the context manager, one block at a time. A waiting thread gets the mutex when it is
  free, or gives up when its timeout ends while the mutex is taken.
\<close>

datatype thread_pc = Idle | Waiting string | Critical string

inductive lock_step :: "lock_mgr \<times> (nat \<Rightarrow> thread_pc) \<Rightarrow> lock_mgr \<times> (nat \<Rightarrow> thread_pc) \<Rightarrow> bool" where
  request: "pc t = Idle \<Longrightarrow> lock_step (lm, pc) (snd (get_resource_mutex lm r), pc(t := Waiting r))"
| acquire: "pc t = Waiting r \<Longrightarrow> get_resource_mutex lm r = (False, lm') \<Longrightarrow>
    lock_step (lm, pc) (lm'\<lparr>lm_mutexes := dset (lm_mutexes lm') r True\<rparr>, pc(t := Critical r))"
| timeout: "pc t = Waiting r \<Longrightarrow> get_resource_mutex lm r = (True, lm') \<Longrightarrow> lock_step (lm, pc) (lm', pc(t := Idle))"
| release: "pc t = Critical r \<Longrightarrow>
    lock_step (lm, pc) (lm\<lparr>lm_mutexes := dset (lm_mutexes lm) r False\<rparr>, pc(t := Idle))"

inductive lock_reachable :: "lock_mgr \<times> (nat \<Rightarrow> thread_pc) \<Rightarrow> bool" where
  init: "lock_reachable (new_lock_mgr, \<lambda>_. Idle)"
| step: "lock_reachable s \<Longrightarrow> lock_step s s' \<Longrightarrow> lock_reachable s'"

definition inside :: "(nat \<Rightarrow> thread_pc) \<Rightarrow> string \<Rightarrow> nat set" where
  "inside pc r = {t. pc t = Critical r}"

definition lock_inv :: "lock_mgr \<times> (nat \<Rightarrow> thread_pc) \<Rightarrow> bool" where
  "lock_inv s \<longleftrightarrow> (\<forall>r. (mutex_locked (fst s) r \<longrightarrow> (\<exists>t. inside (snd s) r = {t})) \<and>
       (\<not> mutex_locked (fst s) r \<longrightarrow> inside (snd s) r = {}))"

lemma inside_upd:
  "inside (pc(t := x)) r = (if x = Critical r then insert t (inside pc r) else inside pc r - {t})"
  by (auto simp: inside_def)

lemma outside: "pc t = Idle \<or> pc t = Waiting r' \<Longrightarrow> inside pc r - {t} = inside pc r"
  by (auto simp: inside_def)

lemma get_resource_mutex_fst: "fst (get_resource_mutex lm r) = mutex_locked lm r"
  by (auto simp: get_resource_mutex_def mutex_locked_def split: option.splits)

lemma get_resource_mutex_snd [simp]: "mutex_locked (snd (get_resource_mutex lm r)) r' = mutex_locked lm r'"
  by (auto simp: get_resource_mutex_def mutex_locked_def split: option.splits)

lemma mutex_locked_dset [simp]:
  "mutex_locked (lm\<lparr>lm_mutexes := dset (lm_mutexes lm) r b\<rparr>) r' = (if r' = r then b else mutex_locked lm r')"
  by (simp add: mutex_locked_def)

lemma lock_step_inv: "lock_step s s' \<Longrightarrow> lock_inv s \<Longrightarrow> lock_inv s'"
proof (induction rule: lock_step.induct)
  case (request pc t lm r)
  then show ?case by (simp add: lock_inv_def inside_upd outside)
next
  case (acquire pc t r lm lm')
  have lm': "mutex_locked lm' x = mutex_locked lm x" for x
    using acquire.hyps(2) get_resource_mutex_snd [of lm r x] by simp
  have "\<not> mutex_locked lm r" using acquire.hyps(2) get_resource_mutex_fst [of lm r] by simp
  then show ?case using acquire.prems acquire.hyps(1) by (auto simp: lock_inv_def inside_upd outside lm')
next
  case (timeout pc t r lm lm')
  have lm': "mutex_locked lm' x = mutex_locked lm x" for x
    using timeout.hyps(2) get_resource_mutex_snd [of lm r x] by simp
  show ?case using timeout.prems timeout.hyps(1) by (simp add: lock_inv_def inside_upd outside lm')
next
  case (release pc t r lm)
  have t: "t \<in> inside pc r" using release.hyps by (simp add: inside_def)
  have "(mutex_locked (lm\<lparr>lm_mutexes := dset (lm_mutexes lm) r False\<rparr>) r' \<longrightarrow> (\<exists>u. inside (pc(t := Idle)) r' = {u})) \<and>
      (\<not> mutex_locked (lm\<lparr>lm_mutexes := dset (lm_mutexes lm) r False\<rparr>) r' \<longrightarrow> inside (pc(t := Idle)) r' = {})" for r'
  proof (cases "r' = r")
    case True
    then show ?thesis using release.prems t by (auto simp: lock_inv_def inside_upd)
  next
    case False
    then have "inside pc r' - {t} = inside pc r'" using release.hyps by (auto simp: inside_def)
    then show ?thesis using release.prems False by (auto simp: lock_inv_def inside_upd)
  qed
  then show ?case by (simp add: lock_inv_def)
qed

lemma lock_reachable_inv: "lock_reachable s \<Longrightarrow> lock_inv s"
proof (induction rule: lock_reachable.induct)
  case (step s s')
  show ?case by (rule lock_step_inv [OF step.hyps(2) step.IH])
qed (simp add: lock_inv_def mutex_locked_def new_lock_mgr_def inside_def)

text \<open>
  C10: pessimistic locking excludes. However threads request, wait, time out and leave, no two of them are
  inside a block guarded by the same resource; a mutex is locked exactly while some thread is inside, so
  that no lock is left behind when a block ends.
\<close>

theorem mutual_exclusion:
  assumes "lock_reachable (lm, pc)"
  shows "(pc t = Critical r \<and> pc u = Critical r \<longrightarrow> t = u) \<and> (mutex_locked lm r \<longleftrightarrow> (\<exists>t. pc t = Critical r))"
proof -
  have "(mutex_locked lm r \<longrightarrow> (\<exists>t. inside pc r = {t})) \<and> (\<not> mutex_locked lm r \<longrightarrow> inside pc r = {})"
    using lock_reachable_inv [OF assms] by (simp add: lock_inv_def)
  moreover have "t \<in> inside pc r \<longleftrightarrow> pc t = Critical r" for t by (simp add: inside_def)
  ultimately show ?thesis by (cases "mutex_locked lm r") (metis singletonD insertI1, metis empty_iff)
qed

theorem mutual_exclusion_witness:
  "\<exists>lm pc. lock_reachable (lm, pc) \<and> pc (0::nat) = Critical ''C1'' \<and> mutex_locked lm ''C1''"
proof -
  let ?lm1 = "snd (get_resource_mutex new_lock_mgr ''C1'')"
  let ?pc1 = "(\<lambda>_. Idle)(0 := Waiting ''C1'')"
  have 1: "lock_reachable (?lm1, ?pc1)"
    by (rule lock_reachable.step [OF lock_reachable.init]) (rule lock_step.request, simp)
  have 2: "lock_step (?lm1, ?pc1) (?lm1\<lparr>lm_mutexes := dset (lm_mutexes ?lm1) ''C1'' True\<rparr>, ?pc1(0 := Critical ''C1''))"
    by (rule lock_step.acquire [of _ 0]) (simp_all add: get_resource_mutex_def new_lock_mgr_def)
  note reach = lock_reachable.step [OF 1 2]
  from mutual_exclusion [OF reach, of 0 "''C1''" 0]
  have "mutex_locked (?lm1\<lparr>lm_mutexes := dset (lm_mutexes ?lm1) ''C1'' True\<rparr>) ''C1''" by auto
  with reach show ?thesis by (intro exI [of _ "?lm1\<lparr>lm_mutexes := dset (lm_mutexes ?lm1) ''C1'' True\<rparr>"] exI [of _ "?pc1(0 := Critical ''C1'')"]) simp
qed

section \<open>Optimistic versions\<close>

fun race :: "lock_mgr \<Rightarrow> string \<Rightarrow> int list \<Rightarrow> (exn + int) list \<times> lock_mgr" where
  "race lm r [] = ([], lm)"
| "race lm r (v # vs) =
     (case check_and_update_version lm r v of (x, lm) \<Rightarrow> (case race lm r vs of (xs, lm) \<Rightarrow> (x # xs, lm)))"

lemma check_version:
  "fst (check_and_update_version lm r v) = (if get_version lm r = v then Inr (v + 1) else Inl (version_conflict r v (get_version lm r)))"
  "get_version (snd (check_and_update_version lm r v)) r' =
     (if r' = r \<and> get_version lm r = v then v + 1 else get_version lm r')"
  by (auto simp: check_and_update_version_def get_version_def Let_def dget_default_def)

lemma race_Cons:
  "fst (race lm r (v # vs)) = fst (check_and_update_version lm r v) # fst (race (snd (check_and_update_version lm r v)) r vs)"
  "snd (race lm r (v # vs)) = snd (race (snd (check_and_update_version lm r v)) r vs)"
  by (simp_all split: prod.splits)

declare race.simps(2) [simp del]

lemma race_frame: "r' \<noteq> r \<Longrightarrow> get_version (snd (race lm r vs)) r' = get_version lm r'"
  by (induction vs arbitrary: lm) (simp_all add: race_Cons check_version)

lemma race_stale:
  "v < get_version lm r \<Longrightarrow>
     fst (race lm r (replicate n v)) = replicate n (Inl (version_conflict r v (get_version lm r))) \<and>
     get_version (snd (race lm r (replicate n v))) r = get_version lm r"
  by (induction n arbitrary: lm) (simp_all add: race_Cons check_version)

text \<open>
  Of any number of concurrent updates that read the same version, exactly one succeeds, the first
  one to be checked; every update is counted once, so the version grows by exactly one, and the counters
  of other resources do not move.
\<close>

theorem optimistic_single_winner:
  assumes "get_version lm r = v"
  shows "fst (race lm r (replicate (Suc n) v)) = Inr (v + 1) # replicate n (Inl (version_conflict r v (v + 1))) \<and>
    get_version (snd (race lm r (replicate (Suc n) v))) r = v + 1 \<and>
    (r' \<noteq> r \<longrightarrow> get_version (snd (race lm r (replicate (Suc n) v))) r' = get_version lm r')"
proof -
  let ?m = "snd (check_and_update_version lm r v)"
  have "get_version ?m r = v + 1" using assms by (simp add: check_version)
  then show ?thesis using race_stale [of v ?m r n] assms race_frame [of r' r lm "replicate (Suc n) v"]
    by (simp add: race_Cons check_version)
qed

theorem optimistic_single_winner_witness:
  "length (filter is_ok (fst (race new_lock_mgr ''C1'' [1, 1, 1]))) = 1"
  using optimistic_single_winner [of new_lock_mgr "''C1''" 1 2 "''C2''"]
  by (simp add: get_version_def new_lock_mgr_def dget_default_def eval_nat_numeral)

section \<open>Distributed locks\<close>

text \<open>
  The commands of the Redis server the manager uses, at a given time: \<open>GET\<close>, \<open>SET key value NX PX ms\<close>
  (with whether it was set) and \<open>DEL\<close>.
\<close>

record 'r redis_ops =
  ro_get :: "'r \<Rightarrow> py_float \<Rightarrow> string \<Rightarrow> string option"
  ro_set_nx_px :: "'r \<Rightarrow> py_float \<Rightarrow> string \<Rightarrow> string \<Rightarrow> int \<Rightarrow> bool \<times> 'r"
  ro_del :: "'r \<Rightarrow> string \<Rightarrow> 'r"

text \<open>
  The documented behaviour: \<open>SET NX PX\<close> stores the value for the given number of milliseconds exactly
  if the key holds none, \<open>DEL\<close> removes the key, and neither touches another key.
\<close>

definition redis_laws :: "'r redis_ops \<Rightarrow> bool" where
  "redis_laws ops \<longleftrightarrow>
     (\<forall>r now k v ms t k'. now \<le> t \<longrightarrow>
        fst (ro_set_nx_px ops r now k v ms) = (ro_get ops r now k = None) \<and>
        ro_get ops (snd (ro_set_nx_px ops r now k v ms)) t k' =
          (if k' = k \<and> ro_get ops r now k = None then if t < now + of_int ms / 1000 then Some v else None
           else ro_get ops r t k')) \<and>
     (\<forall>r k t k'. ro_get ops (ro_del ops r k) t k' = (if k' = k then None else ro_get ops r t k'))"

definition lua_release_lock :: "'r redis_ops \<Rightarrow> 'r \<Rightarrow> py_float \<Rightarrow> string \<Rightarrow> string \<Rightarrow> 'r" where
  "lua_release_lock ops r now key token =
     (if ro_get ops r now key = Some token then ro_del ops r key else r)"

definition lock_key :: "string \<Rightarrow> string \<Rightarrow> string" where
  "lock_key key_prefix resource_id = key_prefix @ resource_id"

definition expire_ms :: "py_float \<Rightarrow> int" where
  "expire_ms expire_seconds = (if expire_seconds \<ge> 0 then \<lfloor>expire_seconds * 1000\<rfloor> else \<lceil>expire_seconds * 1000\<rceil>)"

text \<open>
  The retry loop: the clock readings of its iterations, each with what other clients do to the server
  before the attempt. It stops at the first success or at the deadline.
\<close>

fun redis_acquire_loop ::
  "'r redis_ops \<Rightarrow> string \<Rightarrow> string \<Rightarrow> int \<Rightarrow> py_float \<Rightarrow> (py_float \<times> ('r \<Rightarrow> 'r)) list \<Rightarrow> 'r \<Rightarrow> py_float option \<times> 'r" where
  "redis_acquire_loop ops key token ms deadline [] r = (None, r)"
| "redis_acquire_loop ops key token ms deadline ((now, interference) # ts) r =
     (let r = interference r in
      if now < deadline
      then (case ro_set_nx_px ops r now key token ms of
              (True, r) \<Rightarrow> (Some now, r)
            | (False, r) \<Rightarrow> redis_acquire_loop ops key token ms deadline ts r)
      else (None, r))"

text \<open>
  Clients of the server: idle, or inside a block with the resource, the token and the end of the lease.
  Tokens are fresh (\<open>uuid4\<close>). Time passes between the steps. A client releases its lock with the script at
  any time, possibly long after its lease has ended.
\<close>

datatype client_pc = CIdle | CCritical string string py_float

record 'r redis_world =
  rl_server :: 'r
  rl_now :: py_float
  rl_clients :: "nat \<Rightarrow> client_pc"
  rl_tokens :: "string set"

inductive redis_step :: "'r redis_ops \<Rightarrow> string \<Rightarrow> int \<Rightarrow> 'r redis_world \<Rightarrow> 'r redis_world \<Rightarrow> bool" for ops pfx ms where
  tick: "rl_now w \<le> t \<Longrightarrow> redis_step ops pfx ms w (w\<lparr>rl_now := t\<rparr>)"
| acquire: "rl_clients w c = CIdle \<Longrightarrow> token \<notin> rl_tokens w \<Longrightarrow>
    ro_set_nx_px ops (rl_server w) (rl_now w) (lock_key pfx res) token ms = (True, server) \<Longrightarrow>
    redis_step ops pfx ms w (w\<lparr>rl_server := server, rl_tokens := insert token (rl_tokens w),
      rl_clients := (rl_clients w)(c := CCritical res token (rl_now w + of_int ms / 1000))\<rparr>)"
| attempt: "ro_set_nx_px ops (rl_server w) (rl_now w) (lock_key pfx res) token ms = (False, server) \<Longrightarrow>
    redis_step ops pfx ms w (w\<lparr>rl_server := server\<rparr>)"
| release: "rl_clients w c = CCritical res token lease \<Longrightarrow>
    redis_step ops pfx ms w (w\<lparr>rl_server := lua_release_lock ops (rl_server w) (rl_now w) (lock_key pfx res) token,
      rl_clients := (rl_clients w)(c := CIdle)\<rparr>)"

inductive redis_reachable :: "'r redis_ops \<Rightarrow> string \<Rightarrow> int \<Rightarrow> 'r \<Rightarrow> 'r redis_world \<Rightarrow> bool" for ops pfx ms server where
  init: "redis_reachable ops pfx ms server \<lparr>rl_server = server, rl_now = 0, rl_clients = \<lambda>_. CIdle, rl_tokens = {}\<rparr>"
| step: "redis_reachable ops pfx ms server w \<Longrightarrow> redis_step ops pfx ms w w' \<Longrightarrow> redis_reachable ops pfx ms server w'"

definition redis_inv :: "'r redis_ops \<Rightarrow> string \<Rightarrow> 'r redis_world \<Rightarrow> bool" where
  "redis_inv ops pfx w \<longleftrightarrow>
     (\<forall>c res token lease. rl_clients w c = CCritical res token lease \<longrightarrow> token \<in> rl_tokens w \<and>
        (\<forall>t. rl_now w \<le> t \<and> t < lease \<longrightarrow> ro_get ops (rl_server w) t (lock_key pfx res) = Some token)) \<and>
     (\<forall>c d res res' token lease lease'. rl_clients w c = CCritical res token lease \<and> rl_clients w d = CCritical res' token lease' \<longrightarrow> c = d)"

lemma redis_get_set:
  assumes "redis_laws ops" "ro_set_nx_px ops r now k v ms = (b, r')" "now \<le> t"
  shows "b = (ro_get ops r now k = None)"
    "ro_get ops r' t k' = (if k' = k \<and> b then if t < now + of_int ms / 1000 then Some v else None else ro_get ops r t k')"
proof -
  have "fst (ro_set_nx_px ops r now k v ms) = (ro_get ops r now k = None) \<and>
      ro_get ops (snd (ro_set_nx_px ops r now k v ms)) t k' =
        (if k' = k \<and> ro_get ops r now k = None then if t < now + of_int ms / 1000 then Some v else None
         else ro_get ops r t k')"
    using assms(1,3) unfolding redis_laws_def by blast
  then show "b = (ro_get ops r now k = None)"
    "ro_get ops r' t k' = (if k' = k \<and> b then if t < now + of_int ms / 1000 then Some v else None else ro_get ops r t k')"
    using assms(2) by auto
qed

lemma redis_get_del: "redis_laws ops \<Longrightarrow> ro_get ops (ro_del ops r k) t k' = (if k' = k then None else ro_get ops r t k')"
  by (simp add: redis_laws_def)

lemma lock_key_inj [simp]: "lock_key pfx r = lock_key pfx r' \<longleftrightarrow> r = r'"
  by (simp add: lock_key_def)

lemma redis_release_inv:
  assumes "redis_laws ops" "redis_inv ops pfx w" "rl_clients w c = CCritical res token lease"
  shows "redis_inv ops pfx (w\<lparr>rl_server := lua_release_lock ops (rl_server w) (rl_now w) (lock_key pfx res) token,
      rl_clients := (rl_clients w)(c := CIdle)\<rparr>)"
proof -
  have "ro_get ops (lua_release_lock ops (rl_server w) (rl_now w) (lock_key pfx res) token) t (lock_key pfx res') = Some token'"
    if d: "d \<noteq> c" "rl_clients w d = CCritical res' token' lease'" and t: "rl_now w \<le> t" "t < lease'" for d res' token' lease' t
  proof -
    have tok: "token' \<noteq> token" using assms(2,3) d unfolding redis_inv_def by metis
    have held: "ro_get ops (rl_server w) t' (lock_key pfx res') = Some token'" if "rl_now w \<le> t'" "t' < lease'" for t'
      using assms(2) d that unfolding redis_inv_def by blast
    have now: "rl_now w < lease'" using t by simp
    show ?thesis
    proof (cases "res' = res")
      case True
      then have "ro_get ops (rl_server w) (rl_now w) (lock_key pfx res) = Some token'" using held [OF order_refl now] by simp
      then show ?thesis using held [OF t] tok True by (simp add: lua_release_lock_def)
    next
      case False
      then show ?thesis using held [OF t] by (simp add: lua_release_lock_def redis_get_del [OF assms(1)])
    qed
  qed
  then show ?thesis using assms(2) unfolding redis_inv_def by (auto split: if_splits)
qed

lemma redis_step_inv:
  assumes "redis_laws ops"
  shows "redis_step ops pfx ms w w' \<Longrightarrow> redis_inv ops pfx w \<Longrightarrow> redis_inv ops pfx w'"
proof (induction rule: redis_step.induct)
  case (tick w t)
  then show ?case by (auto simp: redis_inv_def)
next
  case (acquire w c token res server)
  note get = redis_get_set [OF assms acquire.hyps(3)]
  have free: "ro_get ops (rl_server w) (rl_now w) (lock_key pfx res) = None" using get(1) [of "rl_now w"] by simp
  have other: "res' \<noteq> res" if "rl_clients w d = CCritical res' token' lease'" "rl_now w < lease'" for d res' token' lease'
    using acquire.prems that free unfolding redis_inv_def by (metis option.distinct(1) order_refl)
  have "ro_get ops server t (lock_key pfx res') = Some token'"
    if "rl_clients w d = CCritical res' token' lease'" "rl_now w \<le> t" "t < lease'" for d res' token' lease' t
  proof -
    have "ro_get ops (rl_server w) t (lock_key pfx res') = Some token'"
      using acquire.prems that unfolding redis_inv_def by blast
    moreover have "res' \<noteq> res" using other [OF that(1)] that(2,3) by simp
    ultimately show ?thesis using get(2) [OF that(2)] by simp
  qed
  moreover have "rl_clients w d = CCritical res' token' lease' \<Longrightarrow> token' \<in> rl_tokens w" for d res' token' lease'
    using acquire.prems unfolding redis_inv_def by blast
  moreover have "c' = d" if "rl_clients w c' = CCritical r1 token' l1" "rl_clients w d = CCritical r2 token' l2" for c' d r1 r2 token' l1 l2
    using acquire.prems that unfolding redis_inv_def by blast
  moreover have "ro_get ops server t (lock_key pfx res) = Some token" if "rl_now w \<le> t" "t < rl_now w + of_int ms / 1000" for t
    using get(2) [OF that(1), of "lock_key pfx res"] that(2) by simp
  moreover have "token' \<in> rl_tokens w \<Longrightarrow> token' \<noteq> token" for token' using acquire.hyps(2) by blast
  ultimately show ?case unfolding redis_inv_def by (auto split: if_splits) blast+
next
  case (attempt w res token server)
  then show ?case using redis_get_set(2) [OF assms attempt.hyps] by (simp add: redis_inv_def)
next
  case (release w c res token lease)
  then show ?case by (intro redis_release_inv [OF assms])
qed

lemma redis_reachable_inv:
  assumes "redis_laws ops"
  shows "redis_reachable ops pfx ms server w \<Longrightarrow> redis_inv ops pfx w"
proof (induction rule: redis_reachable.induct)
  case (step w w')
  show ?case by (rule redis_step_inv [OF assms step.hyps(2) step.IH])
qed (simp add: redis_inv_def)

text \<open>
  C9: the distributed lock excludes during the lease. For a server that behaves as documented and fresh
  tokens, two clients that are inside blocks for the same resource at a time when neither lease has ended
  are the same client, although clients whose lease is over may release at any time: the release script
  never removes a lock that has passed to another client.
\<close>

theorem distributed_lock_excludes:
  assumes "redis_laws ops" and "redis_reachable ops pfx ms server w"
    and "rl_clients w c = CCritical res token lease" "rl_now w < lease"
    and "rl_clients w d = CCritical res token' lease'" "rl_now w < lease'"
  shows "c = d"
proof -
  have inv: "redis_inv ops pfx w" by (rule redis_reachable_inv [OF assms(1,2)])
  then have "ro_get ops (rl_server w) (rl_now w) (lock_key pfx res) = Some token"
    "ro_get ops (rl_server w) (rl_now w) (lock_key pfx res) = Some token'"
    using assms(3-6) unfolding redis_inv_def by blast+
  then have "token = token'" by simp
  then show ?thesis using inv assms(3,5) unfolding redis_inv_def by blast
qed

text \<open>A server that keeps a value and its expiry time per key.\<close>

definition expiring_ops :: "(string \<Rightarrow> (string \<times> py_float) option) redis_ops" where
  "expiring_ops = \<lparr>
     ro_get = (\<lambda>r now k. case r k of None \<Rightarrow> None | Some (v, e) \<Rightarrow> if now < e then Some v else None),
     ro_set_nx_px = (\<lambda>r now k v ms.
        if (case r k of None \<Rightarrow> True | Some (_, e) \<Rightarrow> \<not> now < e) then (True, r(k := Some (v, now + of_int ms / 1000))) else (False, r)),
     ro_del = (\<lambda>r k. r(k := None))\<rparr>"

lemma expiring_ops_laws: "redis_laws expiring_ops"
  by (auto simp: redis_laws_def expiring_ops_def split: option.splits if_splits)

theorem distributed_lock_excludes_witness:
  "\<exists>w. redis_reachable expiring_ops ''lock:'' 10000 Map.empty w \<and> rl_clients w 7 = CCritical ''C1'' ''tok'' 10 \<and>
     (\<forall>d token'. rl_clients w d = CCritical ''C1'' token' 10 \<longrightarrow> 7 = d)"
proof -
  let ?w0 = "\<lparr>rl_server = Map.empty, rl_now = 0, rl_clients = \<lambda>_. CIdle, rl_tokens = {}\<rparr>"
  let ?w1 = "?w0\<lparr>rl_server := Map.empty(''lock:C1'' \<mapsto> (''tok'', 10 :: py_float)), rl_tokens := {''tok''}, rl_clients := (\<lambda>_. CIdle)(7 := CCritical ''C1'' ''tok'' 10)\<rparr>"
  have "redis_step expiring_ops ''lock:'' 10000 ?w0 ?w1"
    using redis_step.acquire [of ?w0 7 "''tok''" expiring_ops "''lock:''" "''C1''" 10000 "Map.empty(''lock:C1'' \<mapsto> (''tok'', 10))"]
    by (simp add: expiring_ops_def lock_key_def)
  then have reach: "redis_reachable expiring_ops ''lock:'' 10000 Map.empty ?w1"
    by (rule redis_reachable.step [OF redis_reachable.init])
  have c: "rl_clients ?w1 7 = CCritical ''C1'' ''tok'' 10" and now: "rl_now ?w1 < 10" by simp_all
  show ?thesis
  proof (intro exI conjI allI impI)
    show "7 = d" if "rl_clients ?w1 d = CCritical ''C1'' token' 10" for d token'
      by (rule distributed_lock_excludes [OF expiring_ops_laws reach c now that now])
  qed (use reach in simp_all)
qed

end
