(* ===== verification/Repository.thy ===== *)
theory Repository
  imports Books Users Branch_Manager Lock_Manager
begin

text \<open>
  The in-memory repositories of \<^verbatim>\<open>libflow/storage/inmemory.py\<close>, the implementation of the interfaces of
  \<^verbatim>\<open>libflow/storage/repository.py\<close> that the container wires by default. Copies are objects in a heap: the
  copy dictionary and the dictionary of a physical book hold references to the same object. Users,
  branches and books are only reached through their dictionary, so they are stored by value. The
  operations are defined on every extension of the record, in particular on the state of the whole
  library.
\<close>

record repo =
  rp_heap :: copy_heap
  rp_next :: copy_ref
  rp_books :: "(string, book) dict"
  rp_copies :: "(string, copy_ref) dict"
  rp_locks :: lock_mgr
  rp_users :: "(string, user) dict"
  rp_branches :: "(string, library_branch) dict"
  rp_records :: "(string, json) dict list"

section \<open>Books and copies\<close>

definition heap_put :: "copy_ref \<Rightarrow> book_copy \<Rightarrow> 'm repo_scheme \<Rightarrow> 'm repo_scheme" where
  "heap_put r c s = s\<lparr>rp_heap := (rp_heap s)(r := Some c)\<rparr>"

definition register_copy :: "copy_ref \<Rightarrow> 'm repo_scheme \<Rightarrow> 'm repo_scheme" where
  "register_copy r s =
     (case rp_heap s r of None \<Rightarrow> s | Some c \<Rightarrow> s\<lparr>rp_copies := dset (rp_copies s) (cp_copy_id c) r\<rparr>)"

definition save_book :: "'m repo_scheme \<Rightarrow> book \<Rightarrow> 'm repo_scheme" where
  "save_book s b =
     (let s = s\<lparr>rp_books := dset (rp_books s) (bk_isbn b) b\<rparr>
      in if is_physical b then fold register_copy (dvalues (copies_of b)) s else s)"

definition get_book :: "'m repo_scheme \<Rightarrow> string \<Rightarrow> book option" where
  "get_book s isbn = dget (rp_books s) isbn"

definition list_books :: "'m repo_scheme \<Rightarrow> book list" where
  "list_books s = dvalues (rp_books s)"

definition delete_book :: "'m repo_scheme \<Rightarrow> string \<Rightarrow> 'm repo_scheme" where
  "delete_book s isbn =
     (case dget (rp_books s) isbn of
        None \<Rightarrow> s
      | Some b \<Rightarrow>
          let s = s\<lparr>rp_books := dpop (rp_books s) isbn\<rparr>
          in if is_physical b then s\<lparr>rp_copies := foldl dpop (rp_copies s) (dkeys (copies_of b))\<rparr> else s)"

definition save_copy :: "'m repo_scheme \<Rightarrow> copy_ref \<Rightarrow> 'm repo_scheme" where
  "save_copy s r =
     (case rp_heap s r of
        None \<Rightarrow> s
      | Some c \<Rightarrow>
          let s = s\<lparr>rp_copies := dset (rp_copies s) (cp_copy_id c) r\<rparr>
          in case dget (rp_books s) (cp_book_isbn c) of
               None \<Rightarrow> s
             | Some parent \<Rightarrow>
                 if is_physical parent
                 then s\<lparr>rp_books := dset (rp_books s) (cp_book_isbn c) (add_copy parent (cp_copy_id c) r)\<rparr> else s)"

text \<open>A lookup returns the live object: its reference together with its present value.\<close>

definition get_copy :: "'m repo_scheme \<Rightarrow> string \<Rightarrow> (copy_ref \<times> book_copy) option" where
  "get_copy s copy_id =
     (case dget (rp_copies s) copy_id of None \<Rightarrow> None | Some r \<Rightarrow> map_option (Pair r) (rp_heap s r))"

definition list_copies :: "'m repo_scheme \<Rightarrow> book_copy list" where
  "list_copies s = List.map_filter (rp_heap s) (dvalues (rp_copies s))"

definition count_copies_for_isbn :: "'m repo_scheme \<Rightarrow> string \<Rightarrow> nat" where
  "count_copies_for_isbn s isbn = length (filter (\<lambda>c. cp_book_isbn c = isbn) (list_copies s))"

text \<open>The mutation block of a copy runs under the mutex of the lock manager.\<close>

definition locking_section ::
  "(py_float \<Rightarrow> string) \<Rightarrow> string \<Rightarrow> ('m repo_scheme \<Rightarrow> (exn + 'a) \<times> 'm repo_scheme) \<Rightarrow> 'm repo_scheme \<Rightarrow> (exn + 'a) \<times> 'm repo_scheme" where
  "locking_section show_float copy_id body s =
     (case get_resource_mutex (rp_locks s) copy_id of
        (True, lm) \<Rightarrow> (Inl (lock_timeout show_float copy_id 5), s\<lparr>rp_locks := lm\<rparr>)
      | (False, lm) \<Rightarrow>
          (case body (s\<lparr>rp_locks := lm\<lparr>lm_mutexes := dset (lm_mutexes lm) copy_id True\<rparr>\<rparr>) of
             (r, s) \<Rightarrow> (r, s\<lparr>rp_locks := (rp_locks s)\<lparr>lm_mutexes := dset (lm_mutexes (rp_locks s)) copy_id False\<rparr>\<rparr>)))"

section \<open>Users, branches and circulation records\<close>

definition save_user :: "'m repo_scheme \<Rightarrow> user \<Rightarrow> 'm repo_scheme" where
  "save_user s u = s\<lparr>rp_users := dset (rp_users s) (us_user_id u) u\<rparr>"

definition get_user :: "'m repo_scheme \<Rightarrow> string \<Rightarrow> user option" where
  "get_user s user_id = dget (rp_users s) user_id"

definition list_users :: "'m repo_scheme \<Rightarrow> user list" where
  "list_users s = dvalues (rp_users s)"

definition user_exists :: "'m repo_scheme \<Rightarrow> string \<Rightarrow> bool" where
  "user_exists s user_id \<longleftrightarrow> user_id \<in> set (dkeys (rp_users s))"

definition save_branch :: "'m repo_scheme \<Rightarrow> library_branch \<Rightarrow> 'm repo_scheme" where
  "save_branch s b = s\<lparr>rp_branches := dset (rp_branches s) (br_branch_id b) b\<rparr>"

definition repo_get_branch :: "'m repo_scheme \<Rightarrow> string \<Rightarrow> library_branch option" where
  "repo_get_branch s branch_id = dget (rp_branches s) branch_id"

definition list_branches :: "'m repo_scheme \<Rightarrow> library_branch list" where
  "list_branches s = dvalues (rp_branches s)"

definition save_record :: "'m repo_scheme \<Rightarrow> (string, json) dict \<Rightarrow> 'm repo_scheme" where
  "save_record s rec = s\<lparr>rp_records := rp_records s @ [rec]\<rparr>"

definition list_records :: "'m repo_scheme \<Rightarrow> (string, json) dict list" where
  "list_records s = rp_records s"

definition record_count :: "'m repo_scheme \<Rightarrow> nat" where
  "record_count s = length (rp_records s)"

section \<open>The invariant of the repositories\<close>

text \<open>
  Every dictionary is keyed by the identifier of its objects, no reference dangles, and the two views of
  the copies agree: a book lists exactly the copies of its ISBN, and lists the same objects as the copy
  dictionary.
\<close>

definition copies_ok :: "'m repo_scheme \<Rightarrow> bool" where
  "copies_ok s \<longleftrightarrow> dict_wf (rp_copies s) \<and>
     (\<forall>cid r. dget (rp_copies s) cid = Some r \<longrightarrow> r < rp_next s \<and> (\<exists>c. rp_heap s r = Some c \<and> cp_copy_id c = cid))"

definition books_ok :: "'m repo_scheme \<Rightarrow> bool" where
  "books_ok s \<longleftrightarrow> dict_wf (rp_books s) \<and>
     (\<forall>isbn b. dget (rp_books s) isbn = Some b \<longrightarrow> bk_isbn b = isbn \<and> dict_wf (copies_of b) \<and>
        (\<forall>cid r. dget (copies_of b) cid = Some r \<longleftrightarrow>
           is_physical b \<and> dget (rp_copies s) cid = Some r \<and> map_option cp_book_isbn (rp_heap s r) = Some isbn))"

definition users_ok :: "'m repo_scheme \<Rightarrow> bool" where
  "users_ok s \<longleftrightarrow> dict_wf (rp_users s) \<and>
     (\<forall>i u. dget (rp_users s) i = Some u \<longrightarrow> us_user_id u = i \<and> finite (us_active u))"

definition repo_inv :: "'m repo_scheme \<Rightarrow> bool" where
  "repo_inv s \<longleftrightarrow> copies_ok s \<and> books_ok s \<and> users_ok s"

lemma with_copies_same: "with_copies b (copies_of b) = b"
  by (cases "bk_details b") (auto simp: with_copies_def copies_of_def)

lemma dset_idem: "dget d k = Some v \<Longrightarrow> dset d k v = d"
  by (induction d k v rule: dset.induct) (auto split: if_splits)

lemma get_copy_Some: "get_copy s cid = Some (r, c) \<longleftrightarrow> dget (rp_copies s) cid = Some r \<and> rp_heap s r = Some c"
  by (auto simp: get_copy_def split: option.splits)

lemma get_copy_id: "copies_ok s \<Longrightarrow> get_copy s cid = Some (r, c) \<Longrightarrow> cp_copy_id c = cid"
  by (fastforce simp: copies_ok_def get_copy_Some)

lemma refs_inj: "copies_ok s \<Longrightarrow> dget (rp_copies s) a = Some r \<Longrightarrow> dget (rp_copies s) b = Some r \<Longrightarrow> a = b"
  unfolding copies_ok_def by (metis option.inject)

text \<open>Mutating a registered copy without changing its identity, and saving it again, changes only the heap.\<close>

lemma save_copy_idem:
  assumes "repo_inv s" "get_copy s cid = Some (r, c)"
  shows "save_copy s r = s"
proof -
  have r: "dget (rp_copies s) cid = Some r" "rp_heap s r = Some c" "cp_copy_id c = cid"
    using assms get_copy_id by (auto simp: get_copy_Some repo_inv_def)
  have b: "add_copy b cid r = b" if "dget (rp_books s) (cp_book_isbn c) = Some b" "is_physical b" for b
    using assms(1) that r by (auto simp: repo_inv_def books_ok_def add_copy_def dset_idem with_copies_same)
  show ?thesis
    using r b by (auto simp: save_copy_def Let_def dset_idem split: option.splits)
qed

lemma heap_put_fields [simp]:
  "rp_copies (heap_put r c s) = rp_copies s" "rp_books (heap_put r c s) = rp_books s" "rp_users (heap_put r c s) = rp_users s"
  "rp_next (heap_put r c s) = rp_next s" "rp_records (heap_put r c s) = rp_records s" "rp_locks (heap_put r c s) = rp_locks s"
  "rp_heap (heap_put r c s) = (rp_heap s)(r := Some c)" "rp_branches (heap_put r c s) = rp_branches s"
  by (simp_all add: heap_put_def)

lemma heap_put_inv:
  assumes "repo_inv s" "get_copy s cid = Some (r, c)" "cp_copy_id c' = cp_copy_id c" "cp_book_isbn c' = cp_book_isbn c"
  shows "repo_inv (heap_put r c' s)"
proof -
  have r: "dget (rp_copies s) cid = Some r" "rp_heap s r = Some c" using assms(2) by (auto simp: get_copy_Some)
  have "copies_ok (heap_put r c' s)"
    using assms r by (auto simp: repo_inv_def copies_ok_def) (metis refs_inj copies_ok_def option.inject)+
  moreover have "map_option cp_book_isbn (rp_heap (heap_put r c' s) x) = map_option cp_book_isbn (rp_heap s x)" for x
    using r assms(4) by simp
  then have "books_ok (heap_put r c' s)" using assms(1) by (simp add: repo_inv_def books_ok_def)
  ultimately show ?thesis using assms(1) by (simp add: repo_inv_def users_ok_def)
qed

lemma get_copy_heap_put:
  assumes "repo_inv s" "get_copy s cid = Some (r, c)"
  shows "get_copy (heap_put r c' s) i = (if i = cid then Some (r, c') else get_copy s i)"
proof -
  have "dget (rp_copies s) cid = Some r" using assms(2) by (simp add: get_copy_Some)
  moreover have "dget (rp_copies s) i \<noteq> Some r" if "i \<noteq> cid"
    using refs_inj [of s i r cid] assms(1) calculation that by (auto simp: repo_inv_def)
  ultimately show ?thesis by (cases "i = cid"; cases "dget (rp_copies s) i") (simp_all add: get_copy_def)
qed

text \<open>Changes of the parts of the state the invariant does not mention.\<close>

lemma repo_inv_cong:
  assumes "rp_heap s' = rp_heap s" "rp_next s' = rp_next s" "rp_books s' = rp_books s" "rp_copies s' = rp_copies s"
    "rp_users s' = rp_users s"
  shows "repo_inv s' = repo_inv s"
  using assms by (simp add: repo_inv_def copies_ok_def books_ok_def users_ok_def)

lemma save_user_inv: "repo_inv s \<Longrightarrow> finite (us_active u) \<Longrightarrow> repo_inv (save_user s u)"
  by (auto simp: repo_inv_def copies_ok_def books_ok_def users_ok_def save_user_def)

lemma get_user_save_user: "get_user (save_user s u) i = (if i = us_user_id u then Some u else get_user s i)"
  by (simp add: get_user_def save_user_def)

lemma save_user_fields [simp]:
  "rp_copies (save_user s u) = rp_copies s" "rp_books (save_user s u) = rp_books s" "rp_heap (save_user s u) = rp_heap s"
  "rp_next (save_user s u) = rp_next s" "rp_records (save_user s u) = rp_records s" "rp_locks (save_user s u) = rp_locks s"
  by (simp_all add: save_user_def)

lemma get_copy_cong:
  "rp_copies s' = rp_copies s \<Longrightarrow> rp_heap s' = rp_heap s \<Longrightarrow> get_copy s' i = get_copy s i"
  by (simp add: get_copy_def split: option.splits)

section \<open>The interface of a repository\<close>

text \<open>
  The contract of \<^verbatim>\<open>libflow/storage/repository.py\<close> the services rely on: an object that was saved is
  found under its own identifier until another object with that identifier is saved, and the listing shows
  exactly what can be looked up, each identifier once.
\<close>

locale entity_store =
  fixes key :: "'e \<Rightarrow> 'k" and save :: "'s \<Rightarrow> 'e \<Rightarrow> 's" and lookup :: "'s \<Rightarrow> 'k \<Rightarrow> 'e option"
    and listing :: "'s \<Rightarrow> 'e list" and ok :: "'s \<Rightarrow> bool"
  assumes lookup_save: "lookup (save s x) k = (if k = key x then Some x else lookup s k)"
    and ok_save: "ok s \<Longrightarrow> ok (save s x)"
    and listing_lookup: "ok s \<Longrightarrow> x \<in> set (listing s) \<longleftrightarrow> lookup s (key x) = Some x"
    and listing_distinct: "ok s \<Longrightarrow> distinct (map key (listing s))"
begin

lemma save_all: "lookup (foldl save s xs) k = (case find (\<lambda>x. key x = k) (rev xs) of None \<Rightarrow> lookup s k | Some x \<Rightarrow> Some x)"
  by (induction xs rule: rev_induct) (auto simp: lookup_save)

lemma ok_save_all: "ok s \<Longrightarrow> ok (foldl save s xs)"
  by (induction xs arbitrary: s) (simp_all add: ok_save)

lemma listing_save: "ok s \<Longrightarrow> set (listing (save s x)) = insert x {y \<in> set (listing s). key y \<noteq> key x}"
  by (auto simp: listing_lookup ok_save lookup_save split: if_splits)

lemma listing_size: "ok s \<Longrightarrow> length (listing (save s x)) = length (listing s) + (if lookup s (key x) = None then 1 else 0)"
  if keyed: "\<And>k y. lookup s k = Some y \<Longrightarrow> key y = k"
proof -
  assume ok: "ok s"
  have len: "length (listing t) = card (set (listing t))" if "ok t" for t
    using listing_distinct [OF that] by (simp add: distinct_card distinct_map)
  let ?old = "{y \<in> set (listing s). key y = key x}"
  have old: "?old = (case lookup s (key x) of None \<Rightarrow> {} | Some y \<Rightarrow> {y})"
  proof (cases "lookup s (key x)")
    case None
    then show ?thesis using listing_lookup [OF ok] by auto
  next
    case (Some y)
    have ky: "key y = key x" by (rule keyed [OF Some])
    have "y \<in> set (listing s)" unfolding listing_lookup [OF ok] ky by (rule Some)
    moreover have "z = y" if "z \<in> set (listing s)" "key z = key x" for z
      using that(1) Some unfolding listing_lookup [OF ok] that(2) by simp
    ultimately have "?old = {y}" using ky by blast
    then show ?thesis unfolding Some by simp
  qed
  have "card ({y \<in> set (listing s). key y \<noteq> key x} \<union> ?old) = card {y \<in> set (listing s). key y \<noteq> key x} + card ?old"
    by (rule card_Un_disjoint) auto
  moreover have "{y \<in> set (listing s). key y \<noteq> key x} \<union> ?old = set (listing s)" by auto
  moreover have "card (set (listing (save s x))) = Suc (card {y \<in> set (listing s). key y \<noteq> key x})"
    using listing_save [OF ok, of x] by simp
  ultimately show ?thesis using len [OF ok] len [OF ok_save [OF ok]] old by (auto split: option.splits)
qed

end

definition keyed_by :: "('e \<Rightarrow> 'k) \<Rightarrow> ('k, 'e) dict \<Rightarrow> bool" where
  "keyed_by key d \<longleftrightarrow> dict_wf d \<and> (\<forall>i x. dget d i = Some x \<longrightarrow> key x = i)"

lemma keyed_by_dset: "keyed_by key d \<Longrightarrow> keyed_by key (dset d (key x) x)"
  by (simp add: keyed_by_def)

lemma keyed_by_values: "keyed_by key d \<Longrightarrow> x \<in> set (dvalues d) \<longleftrightarrow> dget d (key x) = Some x"
  using in_dvalues [of d x] unfolding keyed_by_def by metis

lemma keyed_by_keys: "keyed_by key d \<Longrightarrow> distinct (map key (dvalues d))"
proof -
  assume k: "keyed_by key d"
  then have e: "map key (dvalues d) = dkeys d" by (auto simp: keyed_by_def dget_in_set [symmetric])
  show ?thesis unfolding e using k by (simp add: keyed_by_def dict_wf_def)
qed

lemma register_copies_books [simp]: "rp_books (fold register_copy rs s) = rp_books s"
  by (induction rs arbitrary: s) (simp_all add: register_copy_def split: option.splits)

lemma save_book_books [simp]: "rp_books (save_book s b) = dset (rp_books s) (bk_isbn b) b"
  by (simp add: save_book_def Let_def)

lemmas store_defs = save_user_def get_user_def list_users_def save_branch_def repo_get_branch_def list_branches_def
  get_book_def list_books_def

interpretation user_store: entity_store us_user_id save_user get_user list_users "\<lambda>s. keyed_by us_user_id (rp_users s)"
  by unfold_locales (simp_all only: store_defs keyed_by_values keyed_by_keys, simp_all add: keyed_by_dset)

interpretation branch_store: entity_store br_branch_id save_branch repo_get_branch list_branches "\<lambda>s. keyed_by br_branch_id (rp_branches s)"
  by unfold_locales (simp_all only: store_defs keyed_by_values keyed_by_keys, simp_all add: keyed_by_dset)

interpretation book_store: entity_store bk_isbn save_book get_book list_books "\<lambda>s. keyed_by bk_isbn (rp_books s)"
  by unfold_locales (simp_all only: store_defs keyed_by_values keyed_by_keys, simp_all add: keyed_by_dset)

end
