(* ===== verification/Forecaster.thy ===== *)
theory Forecaster
  imports Users
begin

text \<open>
  The demand forecaster of \<^verbatim>\<open>libflow/ai/demand_forecaster.py\<close>: the checkout dates per title and per
  title and branch, and the demand category computed from the checkouts of the last seven and thirty
  days. A date is its day number.
\<close>

record forecaster =
  fc_borrow_history_dates :: "(string, date list) dict"
  fc_branch_borrow_dates :: "(string \<times> string, date list) dict"

definition new_forecaster :: forecaster where
  "new_forecaster = \<lparr>fc_borrow_history_dates = [], fc_branch_borrow_dates = []\<rparr>"

text \<open>Appending to a \<open>defaultdict(list)\<close>.\<close>

definition dappend :: "('k, 'v list) dict \<Rightarrow> 'k \<Rightarrow> 'v \<Rightarrow> ('k, 'v list) dict" where
  "dappend d k v = dset d k (dget_default d k [] @ [v])"

definition record_checkout :: "forecaster \<Rightarrow> string \<Rightarrow> date \<Rightarrow> string option \<Rightarrow> forecaster" where
  "record_checkout fc isbn checkout_date branch_id =
     (let fc = fc\<lparr>fc_borrow_history_dates := dappend (fc_borrow_history_dates fc) isbn checkout_date\<rparr>
      in if truthy branch_id
         then fc\<lparr>fc_branch_borrow_dates := dappend (fc_branch_borrow_dates fc) (isbn, the branch_id) checkout_date\<rparr>
         else fc)"

datatype demand_category = NORMAL | MODERATE | SURGE

fun demand_category_value :: "demand_category \<Rightarrow> string" where
  "demand_category_value NORMAL = ''NORMAL''"
| "demand_category_value MODERATE = ''MODERATE''"
| "demand_category_value SURGE = ''SURGE''"

record demand_metrics =
  dm_isbn :: string
  dm_demand_category :: demand_category
  dm_velocity_7d :: nat
  dm_velocity_30d :: nat
  dm_recommended_max_loan_days :: int
  dm_fine_surge_multiplier :: py_float
  dm_branch_id :: "string option"

definition within_days :: "date \<Rightarrow> int \<Rightarrow> date list \<Rightarrow> nat" where
  "within_days reference_date n dates = length (filter (\<lambda>d. reference_date - d \<le> n) dates)"

definition calc_demand_metrics :: "string \<Rightarrow> date list \<Rightarrow> date \<Rightarrow> demand_metrics" where
  "calc_demand_metrics isbn dates reference_date =
     (let velocity_30d = within_days reference_date 30 dates;
          velocity_7d = within_days reference_date 7 dates;
          (category, loan_days, multiplier) =
            (if velocity_7d \<ge> 5 \<or> velocity_30d \<ge> 15 then (SURGE, 7, 3/2)
             else if velocity_7d \<ge> 2 \<or> velocity_30d \<ge> 6 then (MODERATE, 14, 1)
             else (NORMAL, 21, 1))
      in \<lparr>dm_isbn = isbn, dm_demand_category = category, dm_velocity_7d = velocity_7d,
          dm_velocity_30d = velocity_30d, dm_recommended_max_loan_days = loan_days,
          dm_fine_surge_multiplier = multiplier, dm_branch_id = None\<rparr>)"

definition forecast_demand :: "forecaster \<Rightarrow> string \<Rightarrow> date \<Rightarrow> demand_metrics" where
  "forecast_demand fc isbn reference_date =
     calc_demand_metrics isbn (dget_default (fc_borrow_history_dates fc) isbn []) reference_date"

definition forecast_demand_at_branch :: "forecaster \<Rightarrow> string \<Rightarrow> string \<Rightarrow> date \<Rightarrow> demand_metrics" where
  "forecast_demand_at_branch fc isbn branch_id reference_date =
     (calc_demand_metrics isbn (dget_default (fc_branch_borrow_dates fc) (isbn, branch_id) []) reference_date)
       \<lparr>dm_branch_id := Some branch_id\<rparr>"

section \<open>Demand grows with the checkouts\<close>

fun demand_rank :: "demand_category \<Rightarrow> nat" where
  "demand_rank NORMAL = 0"
| "demand_rank MODERATE = 1"
| "demand_rank SURGE = 2"

lemma dget_dappend: "dget_default (dappend d k v) k' [] = (if k' = k then dget_default d k [] @ [v] else dget_default d k' [])"
  by (simp add: dappend_def dget_default_def)

lemma within_days_subseq: "subseq xs ys \<Longrightarrow> within_days ref n xs \<le> within_days ref n ys"
  unfolding within_days_def by (intro list_emb_length) (rule subseq_filter)

lemma metrics_mono:
  assumes "within_days ref 7 xs \<le> within_days ref 7 ys" "within_days ref 30 xs \<le> within_days ref 30 ys"
  shows "demand_rank (dm_demand_category (calc_demand_metrics i xs ref)) \<le> demand_rank (dm_demand_category (calc_demand_metrics i ys ref))"
    "dm_recommended_max_loan_days (calc_demand_metrics i ys ref) \<le> dm_recommended_max_loan_days (calc_demand_metrics i xs ref)"
    "dm_fine_surge_multiplier (calc_demand_metrics i xs ref) \<le> dm_fine_surge_multiplier (calc_demand_metrics i ys ref)"
  using assms by (auto simp: calc_demand_metrics_def Let_def)

lemma metrics_velocity [simp]:
  "dm_velocity_7d (calc_demand_metrics i xs ref) = within_days ref 7 xs"
  "dm_velocity_30d (calc_demand_metrics i xs ref) = within_days ref 30 xs"
  by (simp_all add: calc_demand_metrics_def Let_def split: prod.splits)

definition recorded :: "(string \<times> date \<times> string option) list \<Rightarrow> forecaster" where
  "recorded cs = foldl (\<lambda>fc (isbn, d, b). record_checkout fc isbn d b) new_forecaster cs"

lemma recorded_dates:
  "dget_default (fc_borrow_history_dates (recorded cs)) isbn [] = map (\<lambda>(i, d, b). d) (filter (\<lambda>(i, d, b). i = isbn) cs)"
  "dget_default (fc_branch_borrow_dates (recorded cs)) (isbn, br) [] =
     map (\<lambda>(i, d, b). d) (filter (\<lambda>(i, d, b). i = isbn \<and> truthy b \<and> the b = br) cs)"
proof (induction cs rule: rev_induct)
  case Nil
  { case 1 then show ?case by (simp add: recorded_def new_forecaster_def dget_default_def) }
  { case 2 then show ?case by (simp add: recorded_def new_forecaster_def dget_default_def) }
next
  case (snoc c cs)
  obtain i d b where c: "c = (i, d, b)" by (cases c) auto
  have r: "recorded (cs @ [(i, d, b)]) = record_checkout (recorded cs) i d b" by (simp add: recorded_def)
  { case 1 then show ?case using snoc(1) by (simp add: r c record_checkout_def Let_def dget_dappend) }
  { case 2 then show ?case using snoc(2) by (auto simp: r c record_checkout_def Let_def dget_dappend) }
qed

text \<open>
  The forecast for a branch never exceeds the forecast for the whole library. After any sequence of
  recorded checkouts, the velocities of a title at one branch are at most its velocities overall, its
  demand category there is at most as high, and the recommended loan period there at most as short. One
  more checkout never lowers the category.
\<close>

theorem branch_demand_bounded:
  "dm_velocity_7d (forecast_demand_at_branch (recorded cs) isbn br ref) \<le> dm_velocity_7d (forecast_demand (recorded cs) isbn ref) \<and>
   dm_velocity_30d (forecast_demand_at_branch (recorded cs) isbn br ref) \<le> dm_velocity_30d (forecast_demand (recorded cs) isbn ref) \<and>
   demand_rank (dm_demand_category (forecast_demand_at_branch (recorded cs) isbn br ref)) \<le>
     demand_rank (dm_demand_category (forecast_demand (recorded cs) isbn ref)) \<and>
   dm_recommended_max_loan_days (forecast_demand (recorded cs) isbn ref) \<le>
     dm_recommended_max_loan_days (forecast_demand_at_branch (recorded cs) isbn br ref) \<and>
   demand_rank (dm_demand_category (forecast_demand (recorded cs) isbn ref)) \<le>
     demand_rank (dm_demand_category (forecast_demand (recorded (cs @ [c])) isbn ref))"
proof -
  define all where "all = map (\<lambda>(i, d, b). d) (filter (\<lambda>(i, d, b). i = isbn) cs)"
  define here where "here = map (\<lambda>(i, d, b). d) (filter (\<lambda>(i, d, b). i = isbn \<and> truthy b \<and> the b = br) cs)"
  define more where "more = map (\<lambda>(i, d, b). d) (filter (\<lambda>(i, d, b). i = isbn) (cs @ [c]))"
  have "filter (\<lambda>(i, d, b). i = isbn \<and> truthy b \<and> the b = br) cs =
      filter (\<lambda>(i, d, b). truthy b \<and> the b = br) (filter (\<lambda>(i, d, b). i = isbn) cs)"
    by (simp add: filter_filter case_prod_unfold conj_commute)
  then have "subseq here all" unfolding here_def all_def by (simp only:) (intro subseq_map subseq_filter_left)
  then have w: "within_days ref n here \<le> within_days ref n all" for n by (rule within_days_subseq)
  have "subseq all more" unfolding all_def more_def by (intro subseq_map subseq_filter prefix_imp_subseq) simp
  then have w': "within_days ref n all \<le> within_days ref n more" for n by (rule within_days_subseq)
  have "forecast_demand_at_branch (recorded cs) isbn br ref = (calc_demand_metrics isbn here ref)\<lparr>dm_branch_id := Some br\<rparr>"
    "forecast_demand (recorded cs) isbn ref = calc_demand_metrics isbn all ref"
    "forecast_demand (recorded (cs @ [c])) isbn ref = calc_demand_metrics isbn more ref"
    by (simp_all only: forecast_demand_def forecast_demand_at_branch_def recorded_dates here_def all_def more_def)
  then show ?thesis using w metrics_mono [OF w w] metrics_mono(1) [OF w' w'] by simp
qed

end
