(* ===== verification/Outbox.thy ===== *)
theory Outbox
  imports Core_Types
begin

text \<open>
  The transactional outbox of \<^verbatim>\<open>libflow/storage/outbox.py\<close>: the in-memory repository, the relay that
  claims pending events and publishes them, and the in-memory event bus of
  \<^verbatim>\<open>libflow/distributed/event_bus.py\<close>. Events are records in a list; the calls that find an event by its
  id update the first match. The relay publishes through an action on an environment \<open>'s\<close> that may
  raise. Several relay workers, and crashes between a claim and its outcome, are modelled by a step
  relation over the same operations.
\<close>

section \<open>The event bus\<close>

type_synonym payload = "(string, json) dict"

text \<open>A handler acts on the environment; an exception it raises is logged and dropped.\<close>

record 's event_bus =
  eb_subscribers :: "(string, (payload \<Rightarrow> 's \<Rightarrow> (exn + unit) \<times> 's) list) dict"
  eb_history :: "(string \<times> payload) list"

definition new_event_bus :: "'s event_bus" where
  "new_event_bus = \<lparr>eb_subscribers = [], eb_history = []\<rparr>"

definition bus_subscribe :: "'s event_bus \<Rightarrow> string \<Rightarrow> (payload \<Rightarrow> 's \<Rightarrow> (exn + unit) \<times> 's) \<Rightarrow> 's event_bus" where
  "bus_subscribe bus topic handler =
     bus\<lparr>eb_subscribers := dset (eb_subscribers bus) topic (dget_default (eb_subscribers bus) topic [] @ [handler])\<rparr>"

definition bus_publish :: "'s event_bus \<Rightarrow> string \<Rightarrow> payload \<Rightarrow> 's \<Rightarrow> string \<times> 's event_bus \<times> 's" where
  "bus_publish bus topic payload s =
     (let handlers = dget_default (eb_subscribers bus) topic [];
          bus = bus\<lparr>eb_history := eb_history bus @ [(topic, payload)]\<rparr>;
          s = fold (\<lambda>handler s. snd (handler payload s)) handlers s
      in (''mem-'' @ show_nat (length (eb_history bus)), bus, s))"

section \<open>The repository\<close>

datatype outbox_status = OB_PENDING | OB_IN_FLIGHT | OB_PUBLISHED | OB_FAILED

record outbox_event =
  oe_event_id :: string
  oe_topic :: string
  oe_payload :: payload
  oe_status :: outbox_status
  oe_retry_count :: int
  oe_created_at :: timestamp
  oe_published_at :: "timestamp option"

type_synonym outbox = "outbox_event list"

definition save_event :: "timestamp \<Rightarrow> string \<Rightarrow> outbox \<Rightarrow> string \<Rightarrow> payload \<Rightarrow> outbox_event \<times> outbox" where
  "save_event now uuid12 events topic payload =
     (let record = \<lparr>oe_event_id = ''EVT-'' @ uuid12, oe_topic = topic, oe_payload = payload,
          oe_status = OB_PENDING, oe_retry_count = 0, oe_created_at = now, oe_published_at = None\<rparr>
      in (record, events @ [record]))"

text \<open>The first \<open>limit\<close> pending events; a claim marks exactly these in flight. The result holds copies.\<close>

fun claim_pending :: "nat \<Rightarrow> outbox \<Rightarrow> outbox" where
  "claim_pending n [] = []"
| "claim_pending n (e # es) =
     (if oe_status e = OB_PENDING
      then (case n of 0 \<Rightarrow> e # es | Suc m \<Rightarrow> e\<lparr>oe_status := OB_IN_FLIGHT\<rparr> # claim_pending m es)
      else e # claim_pending n es)"

definition fetch_pending :: "outbox \<Rightarrow> nat \<Rightarrow> bool \<Rightarrow> outbox_event list \<times> outbox" where
  "fetch_pending events limit claim =
     (let pending = take limit (filter (\<lambda>e. oe_status e = OB_PENDING) events)
      in if claim then (map (\<lambda>e. e\<lparr>oe_status := OB_IN_FLIGHT\<rparr>) pending, claim_pending limit events)
         else (pending, events))"

fun update_event :: "string \<Rightarrow> (outbox_event \<Rightarrow> outbox_event) \<Rightarrow> outbox \<Rightarrow> outbox" where
  "update_event event_id f [] = []"
| "update_event event_id f (e # es) =
     (if oe_event_id e = event_id then f e # es else e # update_event event_id f es)"

definition mark_published :: "timestamp \<Rightarrow> outbox \<Rightarrow> string \<Rightarrow> outbox" where
  "mark_published now events event_id =
     update_event event_id (\<lambda>e. e\<lparr>oe_status := OB_PUBLISHED, oe_published_at := Some now\<rparr>) events"

definition failed_event :: "outbox_event \<Rightarrow> outbox_event" where
  "failed_event e =
     (let e = e\<lparr>oe_retry_count := oe_retry_count e + 1\<rparr>
      in if oe_retry_count e \<ge> 5 then e\<lparr>oe_status := OB_FAILED\<rparr> else e\<lparr>oe_status := OB_PENDING\<rparr>)"

definition mark_failed :: "outbox \<Rightarrow> string \<Rightarrow> outbox" where
  "mark_failed events event_id = update_event event_id failed_event events"

section \<open>The relay\<close>

fun relay_loop ::
  "timestamp \<Rightarrow> (string \<Rightarrow> payload \<Rightarrow> 's \<Rightarrow> (exn + string) \<times> 's) \<Rightarrow> outbox_event list \<Rightarrow> outbox \<Rightarrow> 's \<Rightarrow> nat \<Rightarrow>
     nat \<times> outbox \<times> 's" where
  "relay_loop now publish [] events s count = (count, events, s)"
| "relay_loop now publish (evt # pending) events s count =
     (case publish (oe_topic evt) (oe_payload evt) s of
        (Inr _, s) \<Rightarrow> relay_loop now publish pending (mark_published now events (oe_event_id evt)) s (count + 1)
      | (Inl _, s) \<Rightarrow> relay_loop now publish pending (mark_failed events (oe_event_id evt)) s count)"

definition publish_pending_once ::
  "timestamp \<Rightarrow> (string \<Rightarrow> payload \<Rightarrow> 's \<Rightarrow> (exn + string) \<times> 's) \<Rightarrow> outbox \<Rightarrow> 's \<Rightarrow> nat \<times> outbox \<times> 's" where
  "publish_pending_once now publish events s =
     (case fetch_pending events 50 True of (pending, events) \<Rightarrow> relay_loop now publish pending events s 0)"

section \<open>Facts about the list of events\<close>

abbreviation event_ids :: "outbox \<Rightarrow> string list" where
  "event_ids events \<equiv> map oe_event_id events"

definition find_event :: "outbox \<Rightarrow> string \<Rightarrow> outbox_event option" where
  "find_event events i = find (\<lambda>e. oe_event_id e = i) events"

lemma find_event_Nil [simp]: "find_event [] i = None"
  by (simp add: find_event_def)

lemma find_event_Cons [simp]: "find_event (e # es) i = (if oe_event_id e = i then Some e else find_event es i)"
  by (simp add: find_event_def)

lemma find_event_append:
  "find_event (xs @ ys) i = (case find_event xs i of None \<Rightarrow> find_event ys i | Some e \<Rightarrow> Some e)"
  by (induction xs) auto

lemma find_event_in: "distinct (event_ids es) \<Longrightarrow> e \<in> set es \<longleftrightarrow> find_event es (oe_event_id e) = Some e"
  by (induction es) (auto simp: find_event_def find_Some_iff)

lemma find_event_id: "find_event es i = Some e \<Longrightarrow> oe_event_id e = i"
  by (induction es) (auto split: if_splits)

lemma find_event_None: "find_event es i = None \<longleftrightarrow> i \<notin> set (event_ids es)"
  by (induction es) auto

lemma update_event_ids:
  "(\<And>e. oe_event_id (f e) = oe_event_id e) \<Longrightarrow> event_ids (update_event i f es) = event_ids es"
  by (induction es) auto

lemma find_update_event:
  "(\<And>e. oe_event_id (f e) = oe_event_id e) \<Longrightarrow>
     find_event (update_event i f es) j = (if j = i then map_option f (find_event es i) else find_event es j)"
  by (induction es) auto

lemma failed_event_id [simp]: "oe_event_id (failed_event e) = oe_event_id e"
  by (simp add: failed_event_def Let_def)

lemma mark_ids [simp]:
  "event_ids (mark_published now es i) = event_ids es" "event_ids (mark_failed es i) = event_ids es"
  by (simp_all add: mark_published_def mark_failed_def update_event_ids)

lemma find_mark_published:
  "find_event (mark_published now es i) j =
     (if j = i then map_option (\<lambda>e. e\<lparr>oe_status := OB_PUBLISHED, oe_published_at := Some now\<rparr>) (find_event es i)
      else find_event es j)"
  by (simp add: mark_published_def find_update_event)

lemma find_mark_failed:
  "find_event (mark_failed es i) j = (if j = i then map_option failed_event (find_event es i) else find_event es j)"
  by (simp add: mark_failed_def find_update_event)

lemma claim_pending_ids [simp]: "event_ids (claim_pending n es) = event_ids es"
  by (induction n es rule: claim_pending.induct) (auto split: nat.splits)

definition claimed_ids :: "nat \<Rightarrow> outbox \<Rightarrow> string list" where
  "claimed_ids n es = event_ids (take n (filter (\<lambda>e. oe_status e = OB_PENDING) es))"

lemma claimed_ids_sub: "set (claimed_ids n es) \<subseteq> set (event_ids es)"
  unfolding claimed_ids_def by (auto dest!: in_set_takeD)

lemma find_claim_pending:
  assumes "distinct (event_ids es)"
  shows "find_event (claim_pending n es) i =
    (if i \<in> set (claimed_ids n es) then map_option (\<lambda>e. e\<lparr>oe_status := OB_IN_FLIGHT\<rparr>) (find_event es i) else find_event es i)"
  using assms
proof (induction n es rule: claim_pending.induct)
  case (2 n e es)
  have "oe_event_id e \<notin> set (claimed_ids m es)" for m using claimed_ids_sub [of m es] 2(3) by auto
  then show ?case using 2 by (cases n) (auto simp: claimed_ids_def)
qed (simp add: claimed_ids_def)

lemma claimed_distinct: "distinct (event_ids es) \<Longrightarrow> distinct (claimed_ids n es)"
  unfolding claimed_ids_def by (metis distinct_map_filter distinct_take take_map)

lemma claimed_pending:
  assumes "distinct (event_ids es)" and "i \<in> set (claimed_ids n es)"
  obtains e where "find_event es i = Some e" "oe_status e = OB_PENDING"
proof -
  from assms(2) obtain e where e: "e \<in> set es" "oe_status e = OB_PENDING" "oe_event_id e = i"
    unfolding claimed_ids_def by (auto dest!: in_set_takeD)
  then show ?thesis using that find_event_in [OF assms(1)] by blast
qed

section \<open>Concurrent relay workers and crashes\<close>

text \<open>
  \<open>rw_held\<close> are the events claimed by some worker whose outcome is still open, \<open>rw_delivered\<close> the ids
  handed to the bus, in order. A crash drops any of the held events; it may come right after the bus
  accepted an event and before the outbox recorded it.
\<close>

record relay_world =
  rw_outbox :: outbox
  rw_held :: "string list"
  rw_delivered :: "string list"

inductive relay_step :: "bool \<Rightarrow> relay_world \<Rightarrow> relay_world \<Rightarrow> bool" for crashes where
  save: "''EVT-'' @ uuid12 \<notin> set (event_ids (rw_outbox w)) \<Longrightarrow>
    relay_step crashes w (w\<lparr>rw_outbox := snd (save_event now uuid12 (rw_outbox w) topic payload)\<rparr>)"
| claim: "fetch_pending (rw_outbox w) limit True = (snap, events) \<Longrightarrow>
    relay_step crashes w (w\<lparr>rw_outbox := events, rw_held := rw_held w @ event_ids snap\<rparr>)"
| published: "i \<in> set (rw_held w) \<Longrightarrow>
    relay_step crashes w (w\<lparr>rw_outbox := mark_published now (rw_outbox w) i, rw_held := remove1 i (rw_held w),
      rw_delivered := rw_delivered w @ [i]\<rparr>)"
| failed: "i \<in> set (rw_held w) \<Longrightarrow>
    relay_step crashes w (w\<lparr>rw_outbox := mark_failed (rw_outbox w) i, rw_held := remove1 i (rw_held w)\<rparr>)"
| crash: "crashes \<Longrightarrow> relay_step crashes w (w\<lparr>rw_held := filter survives (rw_held w)\<rparr>)"
| crash_after_publish: "crashes \<Longrightarrow> i \<in> set (rw_held w) \<Longrightarrow>
    relay_step crashes w (w\<lparr>rw_held := filter survives (remove1 i (rw_held w)), rw_delivered := rw_delivered w @ [i]\<rparr>)"

inductive relay_reachable :: "bool \<Rightarrow> relay_world \<Rightarrow> relay_world \<Rightarrow> bool" for crashes init where
  init: "relay_reachable crashes init init"
| step: "relay_reachable crashes init w \<Longrightarrow> relay_step crashes w w' \<Longrightarrow> relay_reachable crashes init w'"

definition event_ok :: "bool \<Rightarrow> relay_world \<Rightarrow> string \<Rightarrow> outbox_event \<Rightarrow> bool" where
  "event_ok crashes w i e \<longleftrightarrow>
     0 \<le> oe_retry_count e \<and> oe_retry_count e \<le> 5 \<and>
     (case oe_status e of
        OB_PENDING \<Rightarrow> i \<notin> set (rw_held w) \<and> oe_retry_count e < 5 \<and> (\<not> crashes \<longrightarrow> i \<notin> set (rw_delivered w))
      | OB_IN_FLIGHT \<Rightarrow> oe_retry_count e < 5 \<and> (\<not> crashes \<longrightarrow> i \<in> set (rw_held w) \<and> i \<notin> set (rw_delivered w))
      | OB_PUBLISHED \<Rightarrow> i \<notin> set (rw_held w) \<and> i \<in> set (rw_delivered w)
      | OB_FAILED \<Rightarrow> i \<notin> set (rw_held w) \<and> oe_retry_count e = 5 \<and> (\<not> crashes \<longrightarrow> i \<notin> set (rw_delivered w)))"

definition relay_inv :: "bool \<Rightarrow> relay_world \<Rightarrow> bool" where
  "relay_inv crashes w \<longleftrightarrow>
     distinct (event_ids (rw_outbox w)) \<and> distinct (rw_held w) \<and>
     set (rw_held w) \<subseteq> set (event_ids (rw_outbox w)) \<and>
     set (rw_delivered w) \<subseteq> set (event_ids (rw_outbox w)) \<and>
     (\<not> crashes \<longrightarrow> distinct (rw_delivered w)) \<and>
     (\<forall>i e. find_event (rw_outbox w) i = Some e \<longrightarrow> event_ok crashes w i e)"

lemma relay_invI:
  assumes "distinct (event_ids (rw_outbox w))" "distinct (rw_held w)"
    "set (rw_held w) \<subseteq> set (event_ids (rw_outbox w))" "set (rw_delivered w) \<subseteq> set (event_ids (rw_outbox w))"
    "\<not> crashes \<Longrightarrow> distinct (rw_delivered w)"
    "\<And>i e. find_event (rw_outbox w) i = Some e \<Longrightarrow> event_ok crashes w i e"
  shows "relay_inv crashes w"
  using assms by (simp add: relay_inv_def)

lemma held_in_flight:
  assumes "relay_inv crashes w" "i \<in> set (rw_held w)"
  obtains e where "find_event (rw_outbox w) i = Some e" "oe_status e = OB_IN_FLIGHT" "event_ok crashes w i e"
proof -
  from assms obtain e where e: "find_event (rw_outbox w) i = Some e"
    unfolding relay_inv_def by (metis find_event_None not_Some_eq subsetD)
  then have "event_ok crashes w i e" using assms(1) by (simp add: relay_inv_def)
  then show ?thesis using that e assms(2) by (auto simp: event_ok_def split: outbox_status.splits)
qed

lemma step_save_inv:
  assumes "relay_inv crashes w" "''EVT-'' @ u \<notin> set (event_ids (rw_outbox w))"
  shows "relay_inv crashes (w\<lparr>rw_outbox := snd (save_event now u (rw_outbox w) topic payload)\<rparr>)"
proof (rule relay_invI, goal_cases)
  case (6 i e)
  have new: "''EVT-'' @ u \<notin> set (rw_held w)" "''EVT-'' @ u \<notin> set (rw_delivered w)"
    using assms by (auto simp: relay_inv_def)
  from 6 consider "find_event (rw_outbox w) i = Some e"
    | "i = ''EVT-'' @ u" "oe_status e = OB_PENDING" "oe_retry_count e = 0"
    by (auto simp: save_event_def Let_def find_event_append split: option.splits if_splits)
  then show ?case
  proof cases
    case 1
    then have "event_ok crashes w i e" using assms(1) by (simp add: relay_inv_def)
    then show ?thesis by (simp add: event_ok_def split: outbox_status.splits)
  qed (use new in \<open>simp add: event_ok_def\<close>)
qed (use assms in \<open>auto simp: relay_inv_def save_event_def Let_def\<close>)

lemma step_claim_inv:
  assumes "relay_inv crashes w" "fetch_pending (rw_outbox w) limit True = (snap, events)"
  shows "relay_inv crashes (w\<lparr>rw_outbox := events, rw_held := rw_held w @ event_ids snap\<rparr>)"
proof -
  have ids: "event_ids snap = claimed_ids limit (rw_outbox w)" and ev: "events = claim_pending limit (rw_outbox w)"
    using assms(2) by (auto simp: fetch_pending_def Let_def claimed_ids_def)
  have d: "distinct (event_ids (rw_outbox w))" using assms(1) by (simp add: relay_inv_def)
  have pend: "\<exists>e. find_event (rw_outbox w) i = Some e \<and> oe_status e = OB_PENDING" if "i \<in> set (claimed_ids limit (rw_outbox w))" for i
    by (rule claimed_pending [OF d that]) blast
  have disj: "i \<notin> set (rw_held w)" if "i \<in> set (claimed_ids limit (rw_outbox w))" for i
  proof
    assume "i \<in> set (rw_held w)"
    then obtain e where "find_event (rw_outbox w) i = Some e" "oe_status e = OB_IN_FLIGHT"
      by (rule held_in_flight [OF assms(1)])
    then show False using pend [OF that] by simp
  qed
  show ?thesis
  proof (rule relay_invI, goal_cases)
    case (6 i e)
    then obtain e0 where e0: "find_event (rw_outbox w) i = Some e0"
      "e = (if i \<in> set (claimed_ids limit (rw_outbox w)) then e0\<lparr>oe_status := OB_IN_FLIGHT\<rparr> else e0)"
      by (auto simp: ev find_claim_pending [OF d] split: if_splits)
    then have "event_ok crashes w i e0" using assms(1) by (simp add: relay_inv_def)
    then show ?case using e0 pend [of i] disj [of i]
      by (auto simp: event_ok_def ids split: outbox_status.splits if_splits)
  qed (use assms(1) disj claimed_ids_sub [of limit "rw_outbox w"] claimed_distinct [OF d] in
        \<open>auto simp: relay_inv_def ids ev\<close>)
qed

lemma step_outcome_inv:
  assumes "relay_inv crashes w" "i \<in> set (rw_held w)"
  shows "relay_inv crashes (w\<lparr>rw_outbox := mark_published now (rw_outbox w) i, rw_held := remove1 i (rw_held w),
      rw_delivered := rw_delivered w @ [i]\<rparr>)" (is "relay_inv _ ?p")
    and "relay_inv crashes (w\<lparr>rw_outbox := mark_failed (rw_outbox w) i, rw_held := remove1 i (rw_held w)\<rparr>)" (is "relay_inv _ ?f")
proof -
  have d: "distinct (rw_held w)" "i \<in> set (event_ids (rw_outbox w))" using assms by (auto simp: relay_inv_def)
  obtain e0 where e0: "find_event (rw_outbox w) i = Some e0" "oe_status e0 = OB_IN_FLIGHT" "event_ok crashes w i e0"
    by (rule held_in_flight [OF assms])
  have other: "event_ok crashes w j e" if "find_event (rw_outbox w) j = Some e" for j e
    using assms(1) that by (simp add: relay_inv_def)
  show "relay_inv crashes ?p"
  proof (rule relay_invI, goal_cases)
    case 5
    then show ?case using assms(1) e0 by (auto simp: relay_inv_def event_ok_def)
  next
    case (6 j e)
    then show ?case using e0 d other [of j]
      by (auto simp: find_mark_published event_ok_def split: if_splits outbox_status.splits)
  qed (use assms(1) d in \<open>auto simp: relay_inv_def dest: notin_set_remove1\<close>)
  show "relay_inv crashes ?f"
  proof (rule relay_invI, goal_cases)
    case (6 j e)
    then show ?case using e0 d other [of j]
      by (auto simp: find_mark_failed event_ok_def failed_event_def Let_def split: if_splits outbox_status.splits)
  qed (use assms(1) d in \<open>auto simp: relay_inv_def dest: notin_set_remove1\<close>)
qed

lemma step_crash_inv:
  assumes "relay_inv True w" "set ds \<subseteq> set (rw_held w)" "set hs \<subseteq> set (rw_held w)" "distinct hs"
  shows "relay_inv True (w\<lparr>rw_held := hs, rw_delivered := rw_delivered w @ ds\<rparr>)"
proof (rule relay_invI, goal_cases)
  case (6 i e)
  then have "event_ok True w i e" using assms(1) by (simp add: relay_inv_def)
  then show ?case using assms(2,3) by (auto simp: event_ok_def split: outbox_status.splits)
qed (use assms in \<open>auto simp: relay_inv_def\<close>)

lemma relay_step_inv: "relay_step crashes w w' \<Longrightarrow> relay_inv crashes w \<Longrightarrow> relay_inv crashes w'"
proof (induction rule: relay_step.induct)
  case (crash w survives)
  then show ?case using step_crash_inv [of w "[]" "filter survives (rw_held w)"] by (auto simp: relay_inv_def)
next
  case (crash_after_publish i w survives)
  then show ?case
    using step_crash_inv [of w "[i]" "filter survives (remove1 i (rw_held w))"]
    by (auto simp: relay_inv_def dest: notin_set_remove1)
qed (simp_all add: step_save_inv step_claim_inv step_outcome_inv)

definition new_relay_world :: relay_world where
  "new_relay_world = \<lparr>rw_outbox = [], rw_held = [], rw_delivered = []\<rparr>"

lemma relay_reachable_inv: "relay_reachable crashes new_relay_world w \<Longrightarrow> relay_inv crashes w"
proof (induction rule: relay_reachable.induct)
  case (step w w')
  show ?case by (rule relay_step_inv [OF step.hyps(2) step.IH])
qed (simp add: relay_inv_def new_relay_world_def)



lemma orphan_step:
  assumes "relay_step crashes w w'" "relay_inv crashes w"
    "find_event (rw_outbox w) i = Some e" "oe_status e = OB_IN_FLIGHT" "i \<notin> set (rw_held w)"
  shows "find_event (rw_outbox w') i = Some e \<and> i \<notin> set (rw_held w') \<and>
    filter (\<lambda>j. j = i) (rw_delivered w') = filter (\<lambda>j. j = i) (rw_delivered w)"
  using assms
proof (induction rule: relay_step.induct)
  case (save u w now topic payload)
  then show ?case by (auto simp: save_event_def Let_def find_event_append)
next
  case (claim w limit snap events)
  have d: "distinct (event_ids (rw_outbox w))" using claim by (simp add: relay_inv_def)
  have "event_ids snap = claimed_ids limit (rw_outbox w)" "events = claim_pending limit (rw_outbox w)"
    using claim by (auto simp: fetch_pending_def Let_def claimed_ids_def)
  moreover have "i \<notin> set (claimed_ids limit (rw_outbox w))"
    using claim.prems claimed_pending [OF d, of i limit] by auto
  ultimately show ?case using claim.prems by (simp add: find_claim_pending [OF d])
qed (auto simp: find_mark_published find_mark_failed dest: notin_set_remove1)


definition crashed_world :: relay_world where
  "crashed_world = \<lparr>rw_outbox = [\<lparr>oe_event_id = ''EVT-1'', oe_topic = ''t'', oe_payload = [], oe_status = OB_IN_FLIGHT,
     oe_retry_count = 0, oe_created_at = 0, oe_published_at = None\<rparr>], rw_held = [], rw_delivered = []\<rparr>"

lemma crashed_world_reachable: "relay_reachable True new_relay_world crashed_world"
proof -
  let ?e = "\<lparr>oe_event_id = ''EVT-1'', oe_topic = ''t'', oe_payload = [], oe_status = OB_PENDING,
     oe_retry_count = 0, oe_created_at = 0, oe_published_at = None\<rparr>"
  let ?w1 = "\<lparr>rw_outbox = [?e], rw_held = [], rw_delivered = []\<rparr>"
  let ?w2 = "\<lparr>rw_outbox = [?e\<lparr>oe_status := OB_IN_FLIGHT\<rparr>], rw_held = [''EVT-1''], rw_delivered = []\<rparr>"
  have "relay_step True new_relay_world ?w1"
    using relay_step.save [of "''1''" new_relay_world True 0 "''t''" "[]"]
    by (simp add: new_relay_world_def save_event_def Let_def)
  moreover have "relay_step True ?w1 ?w2"
    using relay_step.claim [of ?w1 50 "[?e\<lparr>oe_status := OB_IN_FLIGHT\<rparr>]" "[?e\<lparr>oe_status := OB_IN_FLIGHT\<rparr>]" True]
    by (simp add: fetch_pending_def eval_nat_numeral)
  moreover have "relay_step True ?w2 crashed_world"
    using relay_step.crash [of True ?w2 "\<lambda>_. False"] by (simp add: crashed_world_def)
  ultimately show ?thesis by (meson relay_reachable.init relay_reachable.step)
qed


section \<open>Rounds of the relay\<close>

lemma mark_published_claimed:
  "(case find_event es i of None \<Rightarrow> None | Some e \<Rightarrow> Some (failed_event (e\<lparr>oe_status := st\<rparr>))) =
     map_option failed_event (find_event es i)"
  by (simp add: failed_event_def Let_def split: option.splits)

lemma relay_loop_ok:
  assumes "\<And>t p s. publish t p s = (Inr (m t p s), g t p s)" and "distinct (event_ids ps)"
  shows "fst (relay_loop now publish ps es s n) = n + length ps \<and>
    snd (snd (relay_loop now publish ps es s n)) = fold (\<lambda>e. g (oe_topic e) (oe_payload e)) ps s \<and>
    find_event (fst (snd (relay_loop now publish ps es s n))) i =
      (if i \<in> set (event_ids ps)
       then map_option (\<lambda>e. e\<lparr>oe_status := OB_PUBLISHED, oe_published_at := Some now\<rparr>) (find_event es i)
       else find_event es i)"
  using assms(2)
proof (induction ps arbitrary: es s n)
  case (Cons p ps)
  then show ?case by (auto simp: assms(1) find_mark_published)
qed simp

lemma relay_loop_fail:
  assumes "\<And>t p s. publish t p s = (Inl (m t p s), g t p s)" and "distinct (event_ids ps)"
  shows "fst (relay_loop now publish ps es s n) = n \<and>
    event_ids (fst (snd (relay_loop now publish ps es s n))) = event_ids es \<and>
    find_event (fst (snd (relay_loop now publish ps es s n))) i =
      (if i \<in> set (event_ids ps) then map_option failed_event (find_event es i) else find_event es i)"
  using assms(2)
proof (induction ps arbitrary: es s n)
  case (Cons p ps)
  then show ?case by (auto simp: assms(1) find_mark_failed)
qed simp

lemma claimed_all:
  assumes "distinct (event_ids es)" "length es \<le> n"
  shows "i \<in> set (claimed_ids n es) \<longleftrightarrow> (\<exists>e. find_event es i = Some e \<and> oe_status e = OB_PENDING)"
proof -
  have "length (filter (\<lambda>e. oe_status e = OB_PENDING) es) \<le> n"
    using assms(2) length_filter_le order_trans by blast
  then have "claimed_ids n es = event_ids (filter (\<lambda>e. oe_status e = OB_PENDING) es)"
    by (simp add: claimed_ids_def)
  then have "i \<in> set (claimed_ids n es) \<longleftrightarrow> (\<exists>e \<in> set es. oe_status e = OB_PENDING \<and> oe_event_id e = i)"
    by auto
  then show ?thesis using find_event_in [OF assms(1)] find_event_id [of es i] by metis
qed

text \<open>
  C31: one round of the relay with a bus that accepts events publishes the oldest fifty pending events,
  in the order in which they were saved, records each of them as published, leaves every other event
  alone and reports how many it published.
\<close>

theorem relay_round_publishes:
  assumes "\<And>t p s. publish t p s = (Inr (m t p s), g t p s)" and "distinct (event_ids es)"
  shows "fst (publish_pending_once now publish es s) = min 50 (length (filter (\<lambda>e. oe_status e = OB_PENDING) es)) \<and>
    snd (snd (publish_pending_once now publish es s)) =
      fold (\<lambda>e. g (oe_topic e) (oe_payload e)) (take 50 (filter (\<lambda>e. oe_status e = OB_PENDING) es)) s \<and>
    find_event (fst (snd (publish_pending_once now publish es s))) i =
      (if i \<in> set (claimed_ids 50 es)
       then map_option (\<lambda>e. e\<lparr>oe_status := OB_PUBLISHED, oe_published_at := Some now\<rparr>) (find_event es i)
       else find_event es i)"
proof -
  let ?ps = "map (\<lambda>e. e\<lparr>oe_status := OB_IN_FLIGHT\<rparr>) (take 50 (filter (\<lambda>e. oe_status e = OB_PENDING) es))"
  have ids: "event_ids ?ps = claimed_ids 50 es" by (simp add: claimed_ids_def)
  have run: "publish_pending_once now publish es s = relay_loop now publish ?ps (claim_pending 50 es) s 0"
    by (simp add: publish_pending_once_def fetch_pending_def Let_def)
  have "distinct (event_ids ?ps)" using claimed_distinct [OF assms(2), of 50] by (simp only: ids)
  note loop = relay_loop_ok [where publish = publish and m = m and g = g and now = now and es = "claim_pending 50 es" and s = s and n = 0 and i = i, OF assms(1) this]
  have "(\<lambda>e. e\<lparr>oe_status := OB_PUBLISHED, oe_published_at := Some now\<rparr>) \<circ> (\<lambda>e. e\<lparr>oe_status := OB_IN_FLIGHT\<rparr>) =
    (\<lambda>e::outbox_event. e\<lparr>oe_status := OB_PUBLISHED, oe_published_at := Some now\<rparr>)" by (rule ext) simp
  then show ?thesis using loop unfolding run ids
    by (simp add: find_claim_pending [OF assms(2)] option.map_comp fold_map comp_def min.commute)
qed

theorem relay_round_publishes_witness:
  "snd (snd (publish_pending_once 9 (\<lambda>t p s. (Inr ''mem-1'', s @ [t])) [\<lparr>oe_event_id = ''EVT-1'', oe_topic = ''copy.issued'',
      oe_payload = [], oe_status = OB_PENDING, oe_retry_count = 0, oe_created_at = 0, oe_published_at = None\<rparr>] [])) =
     [''copy.issued'']"
  using relay_round_publishes [of "\<lambda>t p s. (Inr ''mem-1'', s @ [t])" "\<lambda>_ _ _. ''mem-1''" "\<lambda>t p s. s @ [t]"
      "[\<lparr>oe_event_id = ''EVT-1'', oe_topic = ''copy.issued'',
        oe_payload = [], oe_status = OB_PENDING, oe_retry_count = 0, oe_created_at = 0, oe_published_at = None\<rparr>]" 9 "[]"]
  by (simp add: eval_nat_numeral)

definition failing_rounds ::
  "timestamp \<Rightarrow> (string \<Rightarrow> payload \<Rightarrow> 's \<Rightarrow> (exn + string) \<times> 's) \<Rightarrow> 's \<Rightarrow> nat \<Rightarrow> outbox \<Rightarrow> outbox" where
  "failing_rounds now publish s n es = ((\<lambda>es. fst (snd (publish_pending_once now publish es s))) ^^ n) es"

lemma failing_round:
  assumes "\<And>t p s. publish t p s = (Inl (m t p s), g t p s)" "distinct (event_ids es)" "length es \<le> 50"
  shows "event_ids (fst (snd (publish_pending_once now publish es s))) = event_ids es \<and>
    find_event (fst (snd (publish_pending_once now publish es s))) i =
      map_option (\<lambda>e. if oe_status e = OB_PENDING then failed_event e else e) (find_event es i)"
proof -
  let ?ps = "map (\<lambda>e. e\<lparr>oe_status := OB_IN_FLIGHT\<rparr>) (take 50 (filter (\<lambda>e. oe_status e = OB_PENDING) es))"
  have ids: "event_ids ?ps = claimed_ids 50 es" by (simp add: claimed_ids_def)
  have run: "publish_pending_once now publish es s = relay_loop now publish ?ps (claim_pending 50 es) s 0"
    by (simp add: publish_pending_once_def fetch_pending_def Let_def)
  have "distinct (event_ids ?ps)" using claimed_distinct [OF assms(2), of 50] by (simp only: ids)
  note loop = relay_loop_fail [where publish = publish and m = m and g = g and now = now and es = "claim_pending 50 es" and s = s and n = 0 and i = i, OF assms(1) this]
  have f: "failed_event (e\<lparr>oe_status := x\<rparr>) = failed_event e" for e x by (simp add: failed_event_def Let_def)
  show ?thesis using loop claimed_all [OF assms(2,3), of i] unfolding run ids
    by (cases "find_event es i") (auto simp: find_claim_pending [OF assms(2)] f)
qed



end
