(* ===== verification/Lru_Cache.thy ===== *)
theory Lru_Cache
  imports Core_Types
begin

text \<open>
  The cache of \<^verbatim>\<open>libflow/storage/cache.py\<close>: an ordered dictionary used as an LRU queue, the least
  recently used key first, with an expiry time per entry and hit and miss counters. The time of a
  call (\<open>time.time()\<close>) is an argument; the lock that serialises the calls is not modelled, since every
  operation is one critical section. A cached value is an option because \<open>None\<close> can be stored.
\<close>

record 'v cache_entry =
  ce_key :: string
  ce_value :: "'v option"
  ce_expires_at :: "py_float option"

record 'v lru =
  lc_capacity :: int
  lc_cache :: "(string, 'v cache_entry) dict"
  lc_hits :: int
  lc_misses :: int

definition new_lru :: "int \<Rightarrow> 'v lru" where
  "new_lru capacity = \<lparr>lc_capacity = capacity, lc_cache = [], lc_hits = 0, lc_misses = 0\<rparr>"

definition new_cache_entry :: "py_float \<Rightarrow> string \<Rightarrow> 'v option \<Rightarrow> py_float option \<Rightarrow> 'v cache_entry" where
  "new_cache_entry now key value ttl_seconds =
     \<lparr>ce_key = key, ce_value = value,
      ce_expires_at = (case ttl_seconds of None \<Rightarrow> None | Some t \<Rightarrow> if t = 0 then None else Some (now + t))\<rparr>"

definition is_expired :: "py_float \<Rightarrow> 'v cache_entry \<Rightarrow> bool" where
  "is_expired now e = (case ce_expires_at e of None \<Rightarrow> False | Some t \<Rightarrow> now > t)"

definition move_to_end :: "('k, 'v) dict \<Rightarrow> 'k \<Rightarrow> ('k, 'v) dict" where
  "move_to_end d k = (case dget d k of None \<Rightarrow> d | Some v \<Rightarrow> dpop d k @ [(k, v)])"

definition cache_get :: "py_float \<Rightarrow> 'v lru \<Rightarrow> string \<Rightarrow> 'v option \<times> 'v lru" where
  "cache_get now c key =
     (case dget (lc_cache c) key of
        None \<Rightarrow> (None, c\<lparr>lc_cache := dpop (lc_cache c) key, lc_misses := lc_misses c + 1\<rparr>)
      | Some entry \<Rightarrow>
          if is_expired now entry
          then (None, c\<lparr>lc_cache := dpop (lc_cache c) key, lc_misses := lc_misses c + 1\<rparr>)
          else (ce_value entry, c\<lparr>lc_cache := move_to_end (lc_cache c) key, lc_hits := lc_hits c + 1\<rparr>))"

text \<open>\<open>popitem\<close> on an empty dictionary raises, which a capacity below one reaches.\<close>

definition cache_set :: "py_float \<Rightarrow> 'v lru \<Rightarrow> string \<Rightarrow> 'v option \<Rightarrow> py_float option \<Rightarrow> (exn + unit) \<times> 'v lru" where
  "cache_set now c key value ttl_seconds =
     (let entry = new_cache_entry now key value ttl_seconds in
      if key \<in> set (dkeys (lc_cache c))
      then (Inr (), c\<lparr>lc_cache := dset (dpop (lc_cache c) key) key entry\<rparr>)
      else if int (length (lc_cache c)) \<ge> lc_capacity c
      then (case lc_cache c of
              [] \<Rightarrow> (Inl (KeyError ''dictionary is empty''), c)
            | _ # rest \<Rightarrow> (Inr (), c\<lparr>lc_cache := dset rest key entry\<rparr>))
      else (Inr (), c\<lparr>lc_cache := dset (lc_cache c) key entry\<rparr>))"

definition cache_invalidate :: "'v lru \<Rightarrow> string \<Rightarrow> bool \<times> 'v lru" where
  "cache_invalidate c key = (key \<in> set (dkeys (lc_cache c)), c\<lparr>lc_cache := dpop (lc_cache c) key\<rparr>)"

definition cache_invalidate_prefix :: "'v lru \<Rightarrow> string \<Rightarrow> nat \<times> 'v lru" where
  "cache_invalidate_prefix c p =
     (let ks = filter (\<lambda>k. startswith k p) (dkeys (lc_cache c))
      in (length ks, c\<lparr>lc_cache := foldl dpop (lc_cache c) ks\<rparr>))"

definition get_or_compute ::
  "py_float \<Rightarrow> 'v lru \<Rightarrow> string \<Rightarrow> 'v option \<Rightarrow> py_float option \<Rightarrow> (exn + 'v option) \<times> 'v lru" where
  "get_or_compute now c key computed ttl_seconds =
     (case cache_get now c key of
        (Some v, c') \<Rightarrow> (Inr (Some v), c')
      | (None, c') \<Rightarrow>
          (case computed of
             None \<Rightarrow> (Inr None, c')
           | Some v \<Rightarrow>
               (case cache_set now c' key (Some v) ttl_seconds of
                  (Inl e, c'') \<Rightarrow> (Inl e, c'')
                | (Inr _, c'') \<Rightarrow> (Inr (Some v), c''))))"

definition cache_stats :: "'v lru \<Rightarrow> (string, json) dict" where
  "cache_stats c =
     (let total = lc_hits c + lc_misses c;
          hit_ratio = (if total > 0 then of_int (lc_hits c) / of_int total else 0)
      in [(''backend'', JStr ''in_memory''), (''size'', JInt (int (length (lc_cache c)))),
          (''capacity'', JInt (lc_capacity c)), (''hits'', JInt (lc_hits c)), (''misses'', JInt (lc_misses c)),
          (''hit_ratio_pct'', JFloat (py_round (hit_ratio * 100) 2))])"

section \<open>Runs of the cache\<close>

datatype 'v cache_op =
    CGet string | CSet string "'v option" "py_float option" | CInvalidate string
  | CPrefix string | CCompute string "'v option" "py_float option"

fun cache_step :: "'v lru \<Rightarrow> py_float \<times> 'v cache_op \<Rightarrow> bool \<times> 'v lru" where
  "cache_step c (now, CGet k) = (True, snd (cache_get now c k))"
| "cache_step c (now, CSet k v ttl) = (let r = cache_set now c k v ttl in (is_ok (fst r), snd r))"
| "cache_step c (now, CInvalidate k) = (True, snd (cache_invalidate c k))"
| "cache_step c (now, CPrefix p) = (True, snd (cache_invalidate_prefix c p))"
| "cache_step c (now, CCompute k v ttl) = (let r = get_or_compute now c k v ttl in (is_ok (fst r), snd r))"

fun cache_run :: "'v lru \<Rightarrow> (py_float \<times> 'v cache_op) list \<Rightarrow> bool \<times> 'v lru" where
  "cache_run c [] = (True, c)"
| "cache_run c (x # xs) = (let r = cache_step c x; s = cache_run (snd r) xs in (fst r \<and> fst s, snd s))"

definition is_lookup :: "'v cache_op \<Rightarrow> bool" where
  "is_lookup x = (case x of CGet _ \<Rightarrow> True | CCompute _ _ _ \<Rightarrow> True | _ \<Rightarrow> False)"

definition cache_inv :: "'v lru \<Rightarrow> bool" where
  "cache_inv c \<longleftrightarrow> 1 \<le> lc_capacity c \<and> dict_wf (lc_cache c) \<and> int (length (lc_cache c)) \<le> lc_capacity c \<and>
     (\<forall>(k, e) \<in> set (lc_cache c). ce_key e = k)"

lemma cache_inv_new: "1 \<le> capacity \<Longrightarrow> cache_inv (new_lru capacity)"
  by (simp add: cache_inv_def new_lru_def)

lemma set_dpop: "set (dpop d k) \<subseteq> set d" "length (dpop d k) \<le> length d"
  by (auto simp: dpop_def)

lemma set_foldl_dpop: "set (foldl dpop d ks) \<subseteq> set d \<and> length (foldl dpop d ks) \<le> length d \<and>
    (dict_wf d \<longrightarrow> dict_wf (foldl dpop d ks))"
proof (induction ks arbitrary: d)
  case (Cons k ks)
  then show ?case using Cons.IH [of "dpop d k"] set_dpop [of d k] by (auto dest: order_trans)
qed simp

lemma move_to_end_props:
  assumes "dict_wf d"
  shows "dict_wf (move_to_end d k)" "length (move_to_end d k) = length d" "set (move_to_end d k) = set d"
    "dget (move_to_end d k) = dget d"
proof -
  consider "dget d k = None" | v where "dget d k = Some v" by fastforce
  then have *: "dict_wf (move_to_end d k) \<and> length (move_to_end d k) = length d \<and> set (move_to_end d k) = set d"
  proof cases
    case (2 v)
    then have "(k, v) \<in> set d" using dget_in_set [OF assms] by simp
    then have "k \<in> set (dkeys d)" "length d > 0" by force+
    moreover have "set (dpop d k) = set d - {(k, v)}"
      using assms 2 by (auto simp: dpop_def dget_in_set)
    ultimately show ?thesis using assms 2 \<open>(k, v) \<in> set d\<close>
      by (auto simp: move_to_end_def dict_wf_def dkeys_dpop length_dpop simp del: set_map)
  qed (simp add: move_to_end_def assms)
  then show "dict_wf (move_to_end d k)" "length (move_to_end d k) = length d" "set (move_to_end d k) = set d" by auto
  show "dget (move_to_end d k) = dget d"
    using * assms by (metis dict_wf_def map_of_inject_set)
qed

lemma cache_get_inv: "cache_inv c \<Longrightarrow> cache_inv (snd (cache_get now c k))"
  using set_dpop [of "lc_cache c" k]
  by (fastforce simp: cache_inv_def cache_get_def move_to_end_props split: option.splits)

lemma cache_set_inv:
  assumes "cache_inv c"
  shows "fst (cache_set now c k v ttl) = Inr ()" "cache_inv (snd (cache_set now c k v ttl))"
proof -
  let ?e = "new_cache_entry now k v ttl"
  have e: "ce_key ?e = k" by (simp add: new_cache_entry_def)
  have put: "\<forall>(k', e) \<in> set (dset d k ?e). ce_key e = k'" if "\<forall>(k', e) \<in> set d. ce_key e = k'" for d
    using that e by (induction d k ?e rule: dset.induct) auto
  have wf: "dict_wf (lc_cache c)" and len: "int (length (lc_cache c)) \<le> lc_capacity c" "1 \<le> lc_capacity c"
    and keyed: "\<forall>(k', e) \<in> set (lc_cache c). ce_key e = k'"
    using assms by (auto simp: cache_inv_def)
  consider (present) "k \<in> set (dkeys (lc_cache c))"
    | (full) "k \<notin> set (dkeys (lc_cache c))" "int (length (lc_cache c)) \<ge> lc_capacity c"
    | (room) "k \<notin> set (dkeys (lc_cache c))" "int (length (lc_cache c)) < lc_capacity c" by linarith
  then have "fst (cache_set now c k v ttl) = Inr () \<and> cache_inv (snd (cache_set now c k v ttl))"
  proof cases
    case present
    then have "lc_cache c \<noteq> []" by auto
    with present show ?thesis
      using wf len keyed put [of "dpop (lc_cache c) k"] set_dpop [of "lc_cache c" k]
      by (auto simp: cache_set_def Let_def cache_inv_def length_dset length_dpop dkeys_dpop simp del: set_map)
  next
    case full
    then obtain p rest where d: "lc_cache c = p # rest" using len by (cases "lc_cache c") auto
    then have "dict_wf rest" "k \<notin> set (dkeys rest)" using wf full by (auto simp: dict_wf_def)
    with full d show ?thesis using len keyed put [of rest]
      by (auto simp: cache_set_def Let_def cache_inv_def length_dset simp del: set_map)
  next
    case room
    then show ?thesis using wf len keyed put [of "lc_cache c"]
      by (auto simp: cache_set_def Let_def cache_inv_def length_dset simp del: set_map)
  qed
  then show "fst (cache_set now c k v ttl) = Inr ()" "cache_inv (snd (cache_set now c k v ttl))" by auto
qed

lemma get_or_compute_state:
  "snd (get_or_compute now c k v ttl) =
     (if fst (cache_get now c k) = None \<and> v \<noteq> None
      then snd (cache_set now (snd (cache_get now c k)) k v ttl) else snd (cache_get now c k))"
  by (auto simp: get_or_compute_def split: option.splits prod.splits sum.splits)

lemma get_or_compute_inv:
  assumes "cache_inv c"
  shows "is_ok (fst (get_or_compute now c k v ttl))" "cache_inv (snd (get_or_compute now c k v ttl))"
proof -
  obtain r c1 where g: "cache_get now c k = (r, c1)" by fastforce
  then have inv: "cache_inv c1" using cache_get_inv [OF assms, of now k] by simp
  show "cache_inv (snd (get_or_compute now c k v ttl))"
    unfolding get_or_compute_state using g inv by (simp add: cache_set_inv)
  have "fst (cache_set now c1 k w ttl) = Inr ()" for w using inv by (simp add: cache_set_inv)
  then show "is_ok (fst (get_or_compute now c k v ttl))"
    using g by (auto simp: get_or_compute_def split: option.splits prod.splits sum.splits) (metis Inr_not_Inl fst_conv)
qed

lemma cache_step_inv: "cache_inv c \<Longrightarrow> fst (cache_step c x) \<and> cache_inv (snd (cache_step c x))"
proof (induction c x rule: cache_step.induct)
  case (3 c now k)
  then show ?case using set_dpop [of "lc_cache c" k]
    by (fastforce simp: cache_invalidate_def cache_inv_def)
next
  case (4 c now p)
  let ?ks = "filter (\<lambda>k. startswith k p) (dkeys (lc_cache c))"
  from 4 show ?case using set_foldl_dpop [of "lc_cache c" ?ks]
    by (auto simp: cache_invalidate_prefix_def Let_def cache_inv_def)
qed (simp_all add: cache_get_inv cache_set_inv get_or_compute_inv Let_def)

lemma cache_run_inv: "cache_inv c \<Longrightarrow> fst (cache_run c xs) \<and> cache_inv (snd (cache_run c xs))"
  by (induction xs arbitrary: c) (auto simp: Let_def cache_step_inv)

lemma cache_step_capacity: "lc_capacity (snd (cache_step c x)) = lc_capacity c"
  by (induction c x rule: cache_step.induct)
     (auto simp: cache_get_def cache_set_def cache_invalidate_def cache_invalidate_prefix_def get_or_compute_def
        Let_def split: option.splits prod.splits sum.splits list.splits if_splits)

lemma cache_set_counters:
  "lc_hits (snd (cache_set now c k v ttl)) = lc_hits c" "lc_misses (snd (cache_set now c k v ttl)) = lc_misses c"
  by (simp_all add: cache_set_def Let_def split: list.splits)

lemma cache_get_counters:
  "lc_hits (snd (cache_get now c k)) + lc_misses (snd (cache_get now c k)) = lc_hits c + lc_misses c + 1"
  by (simp add: cache_get_def split: option.splits)

lemma get_or_compute_counters:
  "lc_hits (snd (get_or_compute now c k v ttl)) + lc_misses (snd (get_or_compute now c k v ttl)) = lc_hits c + lc_misses c + 1"
  by (simp add: get_or_compute_state cache_set_counters cache_get_counters)

lemma cache_step_counters:
  "lc_hits (snd (cache_step c x)) + lc_misses (snd (cache_step c x)) =
     lc_hits c + lc_misses c + (if is_lookup (snd x) then 1 else 0)"
proof (induction c x rule: cache_step.induct)
  case (2 c now k v ttl)
  then show ?case by (simp add: cache_set_counters Let_def is_lookup_def)
qed (simp_all add: cache_get_counters get_or_compute_counters cache_invalidate_def
      cache_invalidate_prefix_def Let_def is_lookup_def)

lemma cache_run_counters:
  "lc_hits (snd (cache_run c xs)) + lc_misses (snd (cache_run c xs)) =
     lc_hits c + lc_misses c + int (length (filter (is_lookup \<circ> snd) xs))
   \<and> lc_capacity (snd (cache_run c xs)) = lc_capacity c"
  by (induction xs arbitrary: c) (auto simp: Let_def cache_step_counters cache_step_capacity)

text \<open>
  Whatever calls are made on a fresh cache of capacity at least one, at whatever times, none of
  them raises, the cache never holds more entries than its capacity, no key occurs twice, and every
  lookup is counted exactly once, as a hit or as a miss.
\<close>

theorem cache_bounded:
  assumes "1 \<le> capacity"
  shows "fst (cache_run (new_lru capacity) xs) \<and>
    int (length (lc_cache (snd (cache_run (new_lru capacity) xs)))) \<le> capacity \<and>
    dict_wf (lc_cache (snd (cache_run (new_lru capacity) xs))) \<and>
    lc_hits (snd (cache_run (new_lru capacity) xs)) + lc_misses (snd (cache_run (new_lru capacity) xs)) =
      int (length (filter (is_lookup \<circ> snd) xs))"
proof -
  let ?c = "new_lru capacity :: 'a lru"
  have "fst (cache_run ?c xs) \<and> cache_inv (snd (cache_run ?c xs))"
    by (rule cache_run_inv [OF cache_inv_new [OF assms]])
  then show ?thesis using cache_run_counters [of ?c xs] by (simp add: cache_inv_def new_lru_def)
qed

theorem cache_bounded_witness:
  "length (lc_cache (snd (cache_run (new_lru 2)
     [(0, CSet ''a'' (Some 1) None), (0, CSet ''b'' (Some (2::int)) None), (1, CGet ''a''), (1, CSet ''c'' (Some 3) None)]))) \<le> 2"
  using cache_bounded [of 2 "[(0, CSet ''a'' (Some 1) None), (0, CSet ''b'' (Some (2::int)) None), (1, CGet ''a''), (1, CSet ''c'' (Some 3) None)]"]
  by simp

text \<open>
  A read after a write returns the written value until the entry expires (an entry with no
  time to live, or a time to live of zero, never does); a write loses at most one other key, the
  least recently used one, and only when the cache is full.
\<close>

theorem cache_read_your_write:
  assumes "cache_inv c"
  shows "fst (cache_get now' (snd (cache_set now c k v ttl)) k) =
      (case ttl of None \<Rightarrow> v | Some t \<Rightarrow> if t \<noteq> 0 \<and> now' > now + t then None else v) \<and>
    (k' \<noteq> k \<longrightarrow> dget (lc_cache (snd (cache_set now c k v ttl))) k' =
      (if k \<notin> set (dkeys (lc_cache c)) \<and> int (length (lc_cache c)) = lc_capacity c \<and> k' = hd (dkeys (lc_cache c))
       then None else dget (lc_cache c) k'))"
proof -
  have "dget (lc_cache (snd (cache_set now c k v ttl))) k = Some (new_cache_entry now k v ttl)"
    using cache_set_inv(1) [OF assms, of now k v ttl]
    by (auto simp: cache_set_def Let_def split: list.splits if_splits)
  then have 1: "fst (cache_get now' (snd (cache_set now c k v ttl)) k) =
      (case ttl of None \<Rightarrow> v | Some t \<Rightarrow> if t \<noteq> 0 \<and> now' > now + t then None else v)"
    by (simp add: cache_get_def is_expired_def new_cache_entry_def split: option.splits)
  have 2: "dget (lc_cache (snd (cache_set now c k v ttl))) k' =
      (if k \<notin> set (dkeys (lc_cache c)) \<and> int (length (lc_cache c)) = lc_capacity c \<and> k' = hd (dkeys (lc_cache c))
       then None else dget (lc_cache c) k')" if "k' \<noteq> k"
  proof (cases "lc_cache c")
    case Nil
    then show ?thesis using assms that by (auto simp: cache_inv_def cache_set_def Let_def)
  next
    case (Cons p rest)
    then have "fst p \<notin> set (dkeys rest)" "int (length (lc_cache c)) \<le> lc_capacity c"
      using assms by (auto simp: cache_inv_def dict_wf_def)
    then have "dget rest (fst p) = None" by (simp add: dget_None)
    then show ?thesis using Cons that \<open>int (length (lc_cache c)) \<le> lc_capacity c\<close>
      by (cases p) (auto simp: cache_set_def Let_def simp del: set_map)
  qed
  from 1 2 show ?thesis by blast
qed

theorem cache_read_your_write_witness:
  "fst (cache_get 5 (snd (cache_set 3 (new_lru 1) ''k'' (Some (7::int)) (Some 300))) ''k'') = Some 7"
  using cache_read_your_write [OF cache_inv_new, of 1 5 3 "''k''" "Some (7::int)" "Some 300" "''l''"] by simp

section \<open>Eviction order\<close>

text \<open>
  The specification of an LRU policy, over keys only: the cache holds the last \<open>n\<close> distinct keys that
  were used, ordered by their last use. \<open>remdups\<close> keeps the last occurrence of each key.
\<close>

definition take_last :: "nat \<Rightarrow> 'a list \<Rightarrow> 'a list" where
  "take_last n xs = drop (length xs - n) xs"

definition lru_touch :: "nat \<Rightarrow> 'a list \<Rightarrow> 'a \<Rightarrow> 'a list" where
  "lru_touch n ks k =
     (if k \<in> set ks then filter (\<lambda>x. x \<noteq> k) ks else if length ks \<ge> n then tl ks else ks) @ [k]"

lemma remdups_snoc: "remdups (xs @ [k]) = filter (\<lambda>x. x \<noteq> k) (remdups xs) @ [k]"
  by (induction xs) auto

lemma take_last_append: "length ys \<le> n \<Longrightarrow> take_last n (xs @ ys) = take_last (n - length ys) xs @ ys"
  by (simp add: take_last_def)

lemma take_last_split: "xs = take (length xs - n) xs @ take_last n xs"
  by (simp add: take_last_def)

lemma take_last_tl:
  assumes "length xs \<ge> Suc n"
  shows "tl (take_last (Suc n) xs) = take_last n xs"
proof -
  have "length xs - n = Suc (length xs - Suc n)" using assms by simp
  then show ?thesis unfolding take_last_def by (metis drop_Suc tl_drop)
qed

lemma take_last_short: "length xs \<le> n \<Longrightarrow> take_last n xs = xs"
  by (simp add: take_last_def)

lemma lru_touch_recent:
  assumes "distinct L" and "1 \<le> n"
  shows "lru_touch n (take_last n L) k = take_last n (filter (\<lambda>x. x \<noteq> k) L @ [k])"
proof -
  define P where "P = take (length L - n) L"
  define C where "C = take_last n L"
  have L: "L = P @ C" by (simp add: P_def C_def take_last_split)
  have lenC: "length C \<le> n" by (simp add: C_def take_last_def)
  have full: "length C = n" if "P \<noteq> []" using that by (auto simp: P_def C_def take_last_def)
  have C': "take_last n (P @ C) = C" by (simp add: C_def [symmetric] L [symmetric])
  have goal: "take_last n (filter (\<lambda>x. x \<noteq> k) L @ [k]) = take_last (n - 1) (filter (\<lambda>x. x \<noteq> k) L) @ [k]"
    using take_last_append [of "[k]" n] assms(2) by simp
  consider (hit) "k \<in> set C" | (old) "k \<in> set P" "k \<notin> set C" | (new) "k \<notin> set L" by (auto simp: L)
  then show ?thesis
  proof cases
    case hit
    then have P: "filter (\<lambda>x. x \<noteq> k) P = P" using assms(1) by (auto simp: L filter_id_conv)
    have "distinct C" using assms(1) by (simp add: L)
    then have len: "length (filter (\<lambda>x. x \<noteq> k) C) = length C - 1"
      using hit by (metis (mono_tags, lifting) distinct_remove1_removeAll length_remove1 removeAll_filter_not_eq filter_cong)
    have "take_last (n - 1) (P @ filter (\<lambda>x. x \<noteq> k) C) = filter (\<lambda>x. x \<noteq> k) C"
      using full len lenC by (cases "P = []") (simp_all add: take_last_def)
    then show ?thesis using hit goal by (simp add: lru_touch_def L P C')
  next
    case old
    then have C: "filter (\<lambda>x. x \<noteq> k) C = C" by (auto simp: filter_id_conv)
    have n: "length C = n" using full old by fastforce
    with C have "take_last (n - 1) (filter (\<lambda>x. x \<noteq> k) P @ C) = tl C"
      using assms(2) by (cases n) (simp_all add: take_last_def drop_Suc)
    then show ?thesis using old goal n by (simp add: lru_touch_def L C C')
  next
    case new
    then have F: "filter (\<lambda>x. x \<noteq> k) L = L" by (auto simp: filter_id_conv)
    have "take_last (n - 1) L = (if length C \<ge> n then tl C else C)"
    proof (cases "length C \<ge> n")
      case True
      then have "length L \<ge> n" by (simp add: L)
      then show ?thesis using True assms(2) take_last_tl [of "n - 1" L] by (simp add: C_def)
    next
      case False
      then have "P = []" using full by auto
      then show ?thesis using False by (simp add: L take_last_short)
    qed
    then show ?thesis using new goal unfolding F by (simp add: lru_touch_def L C')
  qed
qed

definition permanent :: "'v lru \<Rightarrow> bool" where
  "permanent c \<longleftrightarrow> (\<forall>e \<in> snd ` set (lc_cache c). ce_expires_at e = None \<and> ce_value e \<noteq> None)"

definition use_key :: "py_float \<Rightarrow> (string \<Rightarrow> 'v) \<Rightarrow> 'v lru \<Rightarrow> string \<Rightarrow> 'v lru" where
  "use_key now f c k = snd (get_or_compute now c k (Some (f k)) None)"

lemma use_key_refines:
  assumes "cache_inv c" "permanent c"
  shows "dkeys (lc_cache (use_key now f c k)) = lru_touch (nat (lc_capacity c)) (dkeys (lc_cache c)) k"
    and "permanent (use_key now f c k)"
proof -
  let ?d = "lc_cache c"
  have "dkeys (lc_cache (use_key now f c k)) = lru_touch (nat (lc_capacity c)) (dkeys ?d) k \<and> permanent (use_key now f c k)"
  proof (cases "dget ?d k")
    case None
    then have fresh: "k \<notin> set (dkeys ?d)" by (simp add: dget_None)
    then have pop: "dpop ?d k = ?d" by (force simp: dpop_def filter_id_conv)
    have st: "use_key now f c k = snd (cache_set now (c\<lparr>lc_misses := lc_misses c + 1\<rparr>) k (Some (f k)) None)"
      using None pop by (simp add: use_key_def get_or_compute_state cache_get_def)
    have e: "permanent (c\<lparr>lc_misses := m, lc_cache := d @ [(k, new_cache_entry now k (Some (f k)) None)]\<rparr>)"
      if "set d \<subseteq> set (lc_cache c)" for d m using that assms(2) by (auto simp: permanent_def new_cache_entry_def)
    show ?thesis
    proof (cases "int (length ?d) \<ge> lc_capacity c")
      case True
      then obtain p rest where d: "?d = p # rest" using assms(1) by (cases ?d) (auto simp: cache_inv_def)
      then have "dset rest k x = rest @ [(k, x)]" for x using fresh by (intro dset_fresh) auto
      then show ?thesis using st True fresh d e [of rest, unfolded d, OF set_subset_Cons] by (simp add: cache_set_def Let_def lru_touch_def nat_le_iff)
    next
      case False
      then show ?thesis using st fresh e [of ?d] dset_fresh [OF fresh]
        by (auto simp: cache_set_def Let_def lru_touch_def nat_le_iff)
    qed
  next
    case (Some entry)
    then have "(k, entry) \<in> set ?d" using assms(1) by (simp add: cache_inv_def dget_in_set)
    then have live: "ce_expires_at entry = None" "ce_value entry \<noteq> None" "k \<in> set (dkeys ?d)"
      using assms(2) by (force simp: permanent_def)+
    then have "use_key now f c k = c\<lparr>lc_cache := move_to_end ?d k, lc_hits := lc_hits c + 1\<rparr>"
      using Some by (auto simp: use_key_def get_or_compute_state cache_get_def is_expired_def)
    then show ?thesis using Some live assms set_dpop(1) [of ?d k]
      by (auto simp: lru_touch_def move_to_end_def dkeys_dpop permanent_def simp del: set_map)
  qed
  then show "dkeys (lc_cache (use_key now f c k)) = lru_touch (nat (lc_capacity c)) (dkeys ?d) k"
    "permanent (use_key now f c k)" by auto
qed

lemma use_key_capacity: "lc_capacity (use_key now f c k) = lc_capacity c"
  using cache_step_capacity [of c "(now, CCompute k (Some (f k)) None)"] by (simp add: use_key_def Let_def)

lemma use_keys:
  assumes "1 \<le> capacity"
  shows "cache_inv (foldl (use_key now f) (new_lru capacity) ks) \<and> permanent (foldl (use_key now f) (new_lru capacity) ks) \<and>
    lc_capacity (foldl (use_key now f) (new_lru capacity) ks) = capacity \<and>
    dkeys (lc_cache (foldl (use_key now f) (new_lru capacity) ks)) = take_last (nat capacity) (remdups ks)"
proof (induction ks rule: rev_induct)
  case Nil
  then show ?case using cache_inv_new [OF assms] by (simp add: permanent_def new_lru_def take_last_def)
next
  case (snoc k ks)
  let ?c = "foldl (use_key now f) (new_lru capacity) ks"
  have "1 \<le> nat capacity" using assms by linarith
  then have "lru_touch (nat capacity) (dkeys (lc_cache ?c)) k = take_last (nat capacity) (remdups (ks @ [k]))"
    using snoc lru_touch_recent [of "remdups ks" "nat capacity" k] by (simp only: remdups_snoc distinct_remdups)
  moreover have "cache_inv (use_key now f ?c k)"
    using snoc unfolding use_key_def [of now f ?c] by (intro get_or_compute_inv) blast
  ultimately show ?case using snoc use_key_refines [of ?c now f k] by (simp add: use_key_capacity)
qed



end
