(* ===== verification/Heapq.thy ===== *)
theory Heapq
  imports Prelude "HOL-Library.Multiset"
begin

text \<open>
  The binary heap of Python's standard module \<open>heapq\<close>, which the smart allocation queue
  (\<^verbatim>\<open>libflow/dsa/priority_queue.py\<close>) and the rebalancing engine (\<^verbatim>\<open>libflow/ai/rebalancer.py\<close>)
  use on a plain list. Both compare their elements through a key, so the functions take the key; the
  list manipulations are those of the library, because elements with equal keys come out in an
  order that depends on them. The locale \<open>priority_queue\<close> states what the two clients rely on.
\<close>

section \<open>The library functions\<close>

abbreviation parent :: "nat \<Rightarrow> nat" where
  "parent i \<equiv> (i - 1) div 2"

fun siftdown :: "('a \<Rightarrow> 'k::linorder) \<Rightarrow> 'a list \<Rightarrow> 'a \<Rightarrow> nat \<Rightarrow> nat \<Rightarrow> 'a list" where
  "siftdown key h newitem startpos pos =
     (if pos > startpos
      then (if key newitem < key (h ! parent pos)
            then siftdown key (h[pos := h ! parent pos]) newitem startpos (parent pos)
            else h[pos := newitem])
      else h[pos := newitem])"

definition smaller_child :: "('a \<Rightarrow> 'k::linorder) \<Rightarrow> 'a list \<Rightarrow> nat \<Rightarrow> nat" where
  "smaller_child key h pos =
     (let childpos = 2 * pos + 1; rightpos = childpos + 1
      in if rightpos < length h \<and> \<not> key (h ! childpos) < key (h ! rightpos) then rightpos else childpos)"

function siftup_hole :: "('a \<Rightarrow> 'k::linorder) \<Rightarrow> 'a list \<Rightarrow> nat \<Rightarrow> 'a list \<times> nat" where
  "siftup_hole key h pos =
     (if 2 * pos + 1 < length h
      then siftup_hole key (h[pos := h ! smaller_child key h pos]) (smaller_child key h pos)
      else (h, pos))"
  by pat_completeness auto
termination
  by (relation "measure (\<lambda>(key, h, pos). length h - pos)") (auto simp: smaller_child_def Let_def)

definition siftup :: "('a \<Rightarrow> 'k::linorder) \<Rightarrow> 'a list \<Rightarrow> nat \<Rightarrow> 'a list" where
  "siftup key h pos =
     (let newitem = h ! pos; (h', pos') = siftup_hole key h pos in siftdown key h' newitem pos pos')"

definition heappush :: "('a \<Rightarrow> 'k::linorder) \<Rightarrow> 'a list \<Rightarrow> 'a \<Rightarrow> 'a list" where
  "heappush key h item = siftdown key (h @ [item]) item 0 (length h)"

definition heappop :: "('a \<Rightarrow> 'k::linorder) \<Rightarrow> 'a list \<Rightarrow> ('a \<times> 'a list) option" where
  "heappop key h =
     (if h = [] then None
      else let lastelt = last h; h' = butlast h
           in if h' \<noteq> [] then Some (h' ! 0, siftup key (h'[0 := lastelt]) 0) else Some (lastelt, []))"

declare siftdown.simps [simp del]
declare siftup_hole.simps [simp del]

section \<open>The heap order\<close>

definition is_heap :: "('a \<Rightarrow> 'k::linorder) \<Rightarrow> 'a list \<Rightarrow> bool" where
  "is_heap key h \<longleftrightarrow> (\<forall>i < length h. 0 < i \<longrightarrow> key (h ! parent i) \<le> key (h ! i))"

text \<open>
  The order while one position is a hole: every edge that does not touch the hole is ordered, and
  the parent of the hole is below the children of the hole.
\<close>

definition hole_ordered :: "('a \<Rightarrow> 'k::linorder) \<Rightarrow> 'a list \<Rightarrow> nat \<Rightarrow> bool" where
  "hole_ordered key h pos \<longleftrightarrow>
     (\<forall>i < length h. 0 < i \<longrightarrow> i \<noteq> pos \<longrightarrow> parent i \<noteq> pos \<longrightarrow> key (h ! parent i) \<le> key (h ! i)) \<and>
     (\<forall>i < length h. 0 < i \<longrightarrow> parent i = pos \<longrightarrow> 0 < pos \<longrightarrow> key (h ! parent pos) \<le> key (h ! i))"

definition above_children :: "('a \<Rightarrow> 'k::linorder) \<Rightarrow> 'a list \<Rightarrow> nat \<Rightarrow> 'a \<Rightarrow> bool" where
  "above_children key h pos x \<longleftrightarrow> (\<forall>i < length h. 0 < i \<longrightarrow> parent i = pos \<longrightarrow> key x \<le> key (h ! i))"

lemma parent_less: "0 < i \<Longrightarrow> parent i < i"
  by simp

lemma hole_filled:
  assumes "hole_ordered key h pos" and "above_children key h pos x"
    and "0 < pos \<Longrightarrow> key (h ! parent pos) \<le> key x" and "pos < length h"
  shows "is_heap key (h[pos := x])"
  unfolding is_heap_def
proof (intro allI impI)
  fix i assume i: "i < length (h[pos := x])" "0 < i"
  consider "i = pos" | "i \<noteq> pos" "parent i = pos" | "i \<noteq> pos" "parent i \<noteq> pos" by blast
  then show "key (h[pos := x] ! parent i) \<le> key (h[pos := x] ! i)"
  proof cases
    case 1
    then show ?thesis using assms i parent_less [of pos] by (auto simp: nth_list_update)
  next
    case 2
    then show ?thesis using assms i by (auto simp: above_children_def nth_list_update)
  next
    case 3
    then show ?thesis using assms i by (auto simp: hole_ordered_def nth_list_update)
  qed
qed

lemma hole_moves_up:
  assumes ord: "hole_ordered key h pos" and abv: "above_children key h pos x"
    and pos: "pos < length h" "0 < pos" and lt: "key x < key (h ! parent pos)"
  shows "hole_ordered key (h[pos := h ! parent pos]) (parent pos) \<and>
         above_children key (h[pos := h ! parent pos]) (parent pos) x"
proof -
  let ?p = "parent pos"
  let ?h = "h[pos := h ! ?p]"
  have p: "?p < pos" using pos by simp
  have edge: "key (h ! parent i) \<le> key (h ! i)"
    if "i < length h" "0 < i" "i \<noteq> pos" "parent i \<noteq> pos" for i
    using ord that by (simp add: hole_ordered_def)
  have skip: "key (h ! ?p) \<le> key (h ! i)" if "i < length h" "0 < i" "parent i = pos" for i
    using ord that pos by (simp add: hole_ordered_def)
  have "above_children key ?h ?p x"
    unfolding above_children_def
  proof (intro allI impI)
    fix i assume i: "i < length ?h" "0 < i" "parent i = ?p"
    show "key x \<le> key (?h ! i)"
      using i lt edge [of i] pos p by (cases "i = pos") (auto simp: nth_list_update)
  qed
  moreover have "hole_ordered key ?h ?p"
    unfolding hole_ordered_def
  proof (intro conjI allI impI)
    fix i assume i: "i < length ?h" "0 < i" "i \<noteq> ?p" "parent i \<noteq> ?p"
    then show "key (?h ! parent i) \<le> key (?h ! i)"
      using edge [of i] skip [of i] pos by (cases "parent i = pos") (auto simp: nth_list_update)
  next
    fix i assume i: "i < length ?h" "0 < i" "parent i = ?p" "0 < ?p"
    have ppos: "parent ?p < pos" using p parent_less [OF i(4)] by (rule less_trans [rotated])
    then have pp: "key (h ! parent ?p) \<le> key (h ! ?p)" using edge [of ?p] i p pos by simp
    show "key (?h ! parent ?p) \<le> key (?h ! i)"
    proof (cases "i = pos")
      case True
      then show ?thesis using pp i p pos by (simp add: nth_list_update)
    next
      case False
      then have "key (h ! ?p) \<le> key (h ! i)" using edge [of i] i p by auto
      with pp have "key (h ! parent ?p) \<le> key (h ! i)" by (rule order_trans)
      then show ?thesis using False i pos ppos by (simp add: nth_list_update)
    qed
  qed
  ultimately show ?thesis by simp
qed

lemma siftdown_heap:
  "hole_ordered key h pos \<Longrightarrow> above_children key h pos x \<Longrightarrow> pos < length h \<Longrightarrow>
     is_heap key (siftdown key h x 0 pos)"
proof (induction pos arbitrary: h rule: less_induct)
  case (less pos)
  show ?case
  proof (cases "0 < pos \<and> key x < key (h ! parent pos)")
    case True
    then show ?thesis
      using less.IH [of "parent pos"] less.prems hole_moves_up [of key h pos x] parent_less [of pos]
      by (subst siftdown.simps) auto
  next
    case False
    then show ?thesis
      using hole_filled [OF less.prems(1,2)] less.prems(3) by (subst siftdown.simps) auto
  qed
qed

lemma length_siftdown [simp]: "length (siftdown key h x s pos) = length h"
proof (induction key h x s pos rule: siftdown.induct)
  case (1 key h newitem startpos pos)
  then show ?case by (subst siftdown.simps) simp
qed

lemma mset_hole:
  assumes "i < length h" "j < length h" "i \<noteq> j"
  shows "mset (h[i := h ! j, j := x]) = mset (h[i := x])"
proof -
  have "h[i := h ! j, j := x] = (h[i := x])[i := h[i := x] ! j, j := h[i := x] ! i]"
    using assms by (simp add: list_update_swap)
  also have "mset \<dots> = mset (h[i := x])"
    by (rule mset_swap) (use assms in simp_all)
  finally show ?thesis .
qed

lemma mset_siftdown: "pos < length h \<Longrightarrow> mset (siftdown key h x s pos) = mset (h[pos := x])"
proof (induction key h x s pos rule: siftdown.induct)
  case (1 key h x s pos)
  show ?case
  proof (cases "s < pos \<and> key x < key (h ! parent pos)")
    case True
    then have "mset (siftdown key h x s pos) = mset (h[pos := h ! parent pos, parent pos := x])"
      using "1.IH" "1.prems" by (subst siftdown.simps) simp
    then show ?thesis using mset_hole [of pos h "parent pos" x] True "1.prems" parent_less [of pos] by auto
  next
    case False
    then show ?thesis by (subst siftdown.simps) auto
  qed
qed

subsection \<open>Moving the hole to a leaf\<close>

lemma smaller_child_props:
  fixes key :: "'a \<Rightarrow> 'k::linorder"
  assumes "2 * pos + 1 < length h"
  defines "c \<equiv> smaller_child key h pos"
  shows "c < length h" "pos < c" "parent c = pos" "0 < c"
    and "\<And>i. i < length h \<Longrightarrow> 0 < i \<Longrightarrow> parent i = pos \<Longrightarrow> key (h ! c) \<le> key (h ! i)"
proof -
  have c: "c = 2 * pos + 1 \<or> c = 2 * pos + 2 \<and> 2 * pos + 2 < length h"
    by (auto simp: c_def smaller_child_def Let_def)
  then show "c < length h" "pos < c" "parent c = pos" "0 < c" using assms by auto
  fix i assume i: "i < length h" "0 < i" "parent i = pos"
  then have "i = 2 * pos + 1 \<or> i = 2 * pos + 2" by auto
  then show "key (h ! c) \<le> key (h ! i)"
    using i by (auto simp: c_def smaller_child_def Let_def)
qed

lemma hole_moves_down:
  fixes key :: "'a \<Rightarrow> 'k::linorder"
  assumes ord: "hole_ordered key h pos" and child: "2 * pos + 1 < length h"
  defines "c \<equiv> smaller_child key h pos"
  shows "hole_ordered key (h[pos := h ! c]) c"
proof -
  note c = smaller_child_props [OF child, where key = key, folded c_def]
  let ?h = "h[pos := h ! c]"
  have edge: "key (h ! parent i) \<le> key (h ! i)"
    if "i < length h" "0 < i" "i \<noteq> pos" "parent i \<noteq> pos" for i
    using ord that by (simp add: hole_ordered_def)
  have skip: "key (h ! parent pos) \<le> key (h ! i)" if "i < length h" "0 < i" "parent i = pos" "0 < pos" for i
    using ord that by (simp add: hole_ordered_def)
  show ?thesis
    unfolding hole_ordered_def
  proof (intro conjI allI impI)
    fix i assume i: "i < length ?h" "0 < i" "i \<noteq> c" "parent i \<noteq> c"
    consider "i = pos" | "i \<noteq> pos" "parent i = pos" | "i \<noteq> pos" "parent i \<noteq> pos" by blast
    then show "key (?h ! parent i) \<le> key (?h ! i)"
    proof cases
      case 1
      then show ?thesis using skip [of c] c i parent_less [of pos] by (auto simp: nth_list_update)
    next
      case 2
      then show ?thesis using c(5) [of i] i by (auto simp: nth_list_update)
    next
      case 3
      then show ?thesis using edge [of i] i by (auto simp: nth_list_update)
    qed
  next
    fix i assume i: "i < length ?h" "0 < i" "parent i = c" "0 < c"
    then have "i \<noteq> pos" "c < i" using c(2) parent_less [of i] by auto
    then show "key (?h ! parent c) \<le> key (?h ! i)"
      using c edge [of i] i by (auto simp: nth_list_update)
  qed
qed

lemma siftup_hole_props:
  "hole_ordered key h pos \<Longrightarrow> pos < length h \<Longrightarrow> siftup_hole key h pos = (h', pos') \<Longrightarrow>
     length h' = length h \<and> pos' < length h' \<and> hole_ordered key h' pos' \<and> \<not> 2 * pos' + 1 < length h' \<and>
     mset (h'[pos' := x]) = mset (h[pos := x])"
proof (induction key h pos rule: siftup_hole.induct)
  case (1 key h pos)
  let ?c = "smaller_child key h pos"
  show ?case
  proof (cases "2 * pos + 1 < length h")
    case True
    note c = smaller_child_props [OF True, where key = key]
    have "siftup_hole key (h[pos := h ! ?c]) ?c = (h', pos')"
      using "1.prems"(3) True by (subst (asm) siftup_hole.simps) simp
    then show ?thesis
      using "1.IH" [OF True hole_moves_down [OF "1.prems"(1) True]] c mset_hole [of pos h ?c x] True by auto
  next
    case False
    then have "siftup_hole key h pos = (h, pos)" by (subst siftup_hole.simps) simp
    then show ?thesis using "1.prems" False by simp
  qed
qed

lemma leaf_above_children: "\<not> 2 * pos + 1 < length h \<Longrightarrow> above_children key h pos x"
  unfolding above_children_def
proof (intro allI impI)
  fix i assume "\<not> 2 * pos + 1 < length h" "i < length h" "0 < i" "parent i = pos"
  then show "key x \<le> key (h ! i)" by presburger
qed

lemma siftup_root:
  assumes "hole_ordered key h 0" and "h \<noteq> []"
  shows "is_heap key (siftup key h 0) \<and> mset (siftup key h 0) = mset h \<and> length (siftup key h 0) = length h"
proof -
  obtain h' p where e: "siftup_hole key h 0 = (h', p)" by fastforce
  from siftup_hole_props [OF assms(1) _ e, of "h ! 0"] assms(2)
  have h': "length h' = length h" "p < length h'" "hole_ordered key h' p" "\<not> 2 * p + 1 < length h'"
      "mset (h'[p := h ! 0]) = mset h" by auto
  have s: "siftup key h 0 = siftdown key h' (h ! 0) 0 p" by (simp add: siftup_def e)
  show ?thesis
    unfolding s using h' siftdown_heap [OF h'(3) leaf_above_children [OF h'(4)] h'(2)]
    by (simp add: mset_siftdown)
qed

section \<open>Push and pop\<close>

lemma heap_hole_root: "is_heap key h \<Longrightarrow> hole_ordered key h 0"
  by (auto simp: is_heap_def hole_ordered_def)

lemma heap_hole_root_update: "is_heap key h \<Longrightarrow> hole_ordered key (h[0 := x]) 0"
  by (auto simp: is_heap_def hole_ordered_def nth_list_update)

lemma heap_butlast: "is_heap key h \<Longrightarrow> is_heap key (butlast h)"
  by (auto simp: is_heap_def nth_butlast)

lemma heap_root_least: "is_heap key h \<Longrightarrow> i < length h \<Longrightarrow> key (h ! 0) \<le> key (h ! i)"
proof (induction i rule: less_induct)
  case (less i)
  show ?case
  proof (cases "i = 0")
    case False
    then have "key (h ! 0) \<le> key (h ! parent i)"
      using less.IH [of "parent i"] less.prems parent_less [of i] by auto
    also have "\<dots> \<le> key (h ! i)" using less.prems False by (simp add: is_heap_def)
    finally show ?thesis .
  qed simp
qed

lemma heappush_heap:
  assumes "is_heap key h"
  shows "is_heap key (heappush key h x) \<and> mset (heappush key h x) = add_mset x (mset h)"
proof
  have "(length h - Suc 0) div 2 \<noteq> length h" if "h \<noteq> []"
    using parent_less [of "length h"] that by auto
  then have "hole_ordered key (h @ [x]) (length h)"
    using assms by (auto simp: is_heap_def hole_ordered_def nth_append less_Suc_eq)
  moreover have "above_children key (h @ [x]) (length h) x"
    by (rule leaf_above_children) simp
  ultimately show "is_heap key (heappush key h x)"
    unfolding heappush_def by (rule siftdown_heap) simp
  show "mset (heappush key h x) = add_mset x (mset h)"
    by (simp add: heappush_def mset_siftdown)
qed

lemma heappop_None [simp]: "heappop key h = None \<longleftrightarrow> h = []"
  by (simp add: heappop_def Let_def)

lemma heappop_Some:
  assumes "is_heap key h" and "heappop key h = Some (x, h')"
  shows "mset h = add_mset x (mset h') \<and> is_heap key h' \<and> (\<forall>y \<in># mset h. key x \<le> key y) \<and> x = h ! 0"
proof -
  have ne: "h \<noteq> []" using assms(2) by (auto simp: heappop_def)
  have x: "x = h ! 0"
    using assms(2) ne by (cases h rule: rev_cases; cases "butlast h")
      (auto simp: heappop_def Let_def nth_append)
  have least: "\<forall>y \<in># mset h. key x \<le> key y"
    using heap_root_least [OF assms(1)] x by (auto simp: in_set_conv_nth)
  show ?thesis
  proof (cases "butlast h = []")
    case True
    then have "h = [last h]" using ne append_butlast_last_id by fastforce
    then show ?thesis using assms True ne least x by (auto simp: heappop_def is_heap_def)
  next
    case False
    let ?g = "(butlast h)[0 := last h]"
    have h': "h' = siftup key ?g 0" and x0: "x = butlast h ! 0"
      using assms(2) ne False by (auto simp: heappop_def Let_def)
    have g: "hole_ordered key ?g 0" by (rule heap_hole_root_update [OF heap_butlast [OF assms(1)]])
    have "?g \<noteq> []" using False by simp
    from siftup_root [OF g this] h' have hp: "is_heap key h'" "mset h' = mset ?g" by auto
    have "mset h = add_mset (last h) (mset (butlast h))"
      using ne by (cases h rule: rev_cases) simp_all
    moreover have "add_mset x (mset ?g) = add_mset (last h) (mset (butlast h))"
      using False x0 by (cases "butlast h") (auto simp: add_mset_commute)
    ultimately show ?thesis using hp least x by simp
  qed
qed

lemma length_heappop: "heappop key h = Some (x, h') \<Longrightarrow> length h' < length h"
proof -
  assume a: "heappop key h = Some (x, h')"
  have "length (fst (siftup_hole key g p)) = length g" for g and p
  proof (induction key g p rule: siftup_hole.induct)
    case (1 key g p)
    then show ?case by (subst siftup_hole.simps) simp
  qed
  then have "length (siftup key g p) = length g" for g :: "'a list" and p
    by (simp add: siftup_def split: prod.splits) (metis fst_conv)
  then show ?thesis using a
    by (auto simp: heappop_def Let_def split: if_splits)
qed

text \<open>The loop \<open>while heap: heappop(heap)\<close>.\<close>

function heap_drain :: "('a \<Rightarrow> 'k::linorder) \<Rightarrow> 'a list \<Rightarrow> 'a list" where
  "heap_drain key h = (case heappop key h of None \<Rightarrow> [] | Some (x, h') \<Rightarrow> x # heap_drain key h')"
  by pat_completeness auto
termination
  by (relation "measure (\<lambda>(key, h). length h)") (auto dest: length_heappop)

declare heap_drain.simps [simp del]

section \<open>The interface of a priority queue\<close>

locale priority_queue =
  fixes emp :: "'q" and push :: "'q \<Rightarrow> 'a \<Rightarrow> 'q" and pop :: "'q \<Rightarrow> ('a \<times> 'q) option"
    and elems :: "'q \<Rightarrow> 'a multiset" and key :: "'a \<Rightarrow> 'k::linorder" and inv :: "'q \<Rightarrow> bool"
  assumes elems_emp: "elems emp = {#}"
    and elems_push: "inv q \<Longrightarrow> elems (push q x) = add_mset x (elems q)"
    and pop_None: "inv q \<Longrightarrow> pop q = None \<longleftrightarrow> elems q = {#}"
    and pop_elems: "inv q \<Longrightarrow> pop q = Some (x, q') \<Longrightarrow> elems q = add_mset x (elems q')"
    and pop_least: "inv q \<Longrightarrow> pop q = Some (x, q') \<Longrightarrow> y \<in># elems q \<Longrightarrow> key x \<le> key y"
    and inv_emp: "inv emp"
    and inv_push: "inv q \<Longrightarrow> inv (push q x)"
    and inv_pop: "inv q \<Longrightarrow> pop q = Some (x, q') \<Longrightarrow> inv q'"
begin

lemma pop_ordered:
  "inv q \<Longrightarrow> pop q = Some (x, q') \<Longrightarrow> pop q' = Some (y, q'') \<Longrightarrow> key x \<le> key y"
  using pop_elems [of q x q'] pop_elems [of q' y q''] pop_least [of q x q' y] inv_pop [of q x q'] by simp

lemma pop_nonempty: "inv q \<Longrightarrow> elems q \<noteq> {#} \<Longrightarrow> \<exists>x q'. pop q = Some (x, q')"
  using pop_None by (cases "pop q") auto

lemma push_all:
  "inv q \<Longrightarrow> inv (foldl push q xs) \<and> elems (foldl push q xs) = elems q + mset xs"
proof (induction xs arbitrary: q)
  case (Cons x xs)
  then show ?case using Cons.IH [of "push q x"] by (simp add: inv_push elems_push)
qed simp

lemma pop_unique_least:
  assumes "inv q" "pop q = Some (x, q')" "z \<in># elems q" "\<And>y. y \<in># elems q \<Longrightarrow> y \<noteq> z \<Longrightarrow> key z < key y"
  shows "x = z"
proof (rule ccontr)
  assume "x \<noteq> z"
  moreover have "x \<in># elems q" using pop_elems [OF assms(1,2)] by simp
  ultimately have "key z < key x" using assms(4) by blast
  moreover have "key x \<le> key z" by (rule pop_least [OF assms(1,2,3)])
  ultimately show False by simp
qed

end

interpretation heap: priority_queue "[]" "heappush key" "heappop key" mset key "is_heap key"
  for key :: "'a \<Rightarrow> 'k::linorder"
proof (unfold_locales, goal_cases)
  case (2 q x) then show ?case by (simp add: heappush_heap)
next
  case (4 q x q') then show ?case using heappop_Some [OF 4] by simp
next
  case (5 q x q' y) then show ?case using heappop_Some [OF 5(1,2)] by blast
next
  case (7 q x) then show ?case by (simp add: heappush_heap)
next
  case (8 q x q') then show ?case using heappop_Some [OF 8] by simp
qed (simp_all add: is_heap_def)

lemma heap_drain_props:
  assumes "is_heap key h"
  shows "mset (heap_drain key h) = mset h \<and> sorted (map key (heap_drain key h))"
  using assms
proof (induction key h rule: heap_drain.induct)
  case (1 key h)
  show ?case
  proof (cases "heappop key h")
    case None
    then have "heap_drain key h = []" by (subst heap_drain.simps) (simp only: option.case)
    then show ?thesis using None by simp
  next
    case (Some p)
    obtain x h' where p: "p = (x, h')" by fastforce
    note pop = heappop_Some [OF "1.prems" Some [unfolded p]]
    have IH: "mset (heap_drain key h') = mset h'" "sorted (map key (heap_drain key h'))"
      using "1.IH" [OF Some p [symmetric]] pop by auto
    have "\<forall>y \<in> set (heap_drain key h'). key x \<le> key y"
      using pop IH(1) by (metis in_multiset_in_set insertI2 set_mset_add_mset_insert)
    moreover have "heap_drain key h = x # heap_drain key h'"
      using Some p by (subst heap_drain.simps) simp
    ultimately show ?thesis using IH pop by simp
  qed
qed

text \<open>
  The heap the program keeps in a list is a priority queue. From a list in heap order, draining
  it with repeated pops stops, returns every element exactly once, and returns them in
  non-decreasing order of their keys; pushing keeps the order and adds exactly the new element.
\<close>

theorem heap_drain_sorted:
  assumes "is_heap key h"
  shows "mset (heap_drain key h) = mset h \<and> sorted (map key (heap_drain key h)) \<and>
    is_heap key (heappush key h x) \<and> mset (heappush key h x) = add_mset x (mset h)"
  using heap_drain_props [OF assms] heappush_heap [OF assms] by blast

theorem heap_drain_sorted_witness:
  "mset (heap_drain id [1, 5, 2, 7::int]) = {#1, 5, 2, 7#} \<and> sorted (map id (heap_drain id [1, 5, 2, 7::int]))"
proof -
  have "is_heap id [1, 5, 2, 7::int]"
    by (auto simp: is_heap_def less_Suc_eq numeral_eq_Suc)
  from heap_drain_sorted [OF this] show ?thesis by simp
qed

end
