(* ===== verification/Smart_Allocation.thy ===== *)
theory Smart_Allocation
  imports Users Heapq "HOL-Library.Product_Lexorder"
begin

text \<open>
  The smart allocation queue of \<^verbatim>\<open>libflow/dsa/priority_queue.py\<close>: requests for a title, kept in a
  heap ordered by the negated priority score and then by arrival number. The clock is the argument
  \<open>today\<close>; request identifiers and timestamps are handed in by the caller.
\<close>

section \<open>Requests and the queue\<close>

record borrow_request =
  rq_priority :: py_float
  rq_entry_id :: int
  rq_request_id :: string
  rq_user_id :: string
  rq_user_name :: string
  rq_isbn :: string
  rq_branch_id :: string
  rq_timestamp :: timestamp
  rq_actual_priority :: py_float
  rq_role :: string

record allocation_queue =
  aq_isbn :: string
  aq_heap :: "borrow_request list"
  aq_entry_counter :: int

definition new_queue :: "string \<Rightarrow> allocation_queue" where
  "new_queue isbn = \<lparr>aq_isbn = isbn, aq_heap = [], aq_entry_counter = 0\<rparr>"

text \<open>The generated comparison of the data class: the fields not marked \<open>compare=False\<close>, in order.\<close>

definition rq_key :: "borrow_request \<Rightarrow> py_float \<times> int" where
  "rq_key r = (rq_priority r, rq_entry_id r)"

section \<open>Priority score\<close>

definition exam_urgency :: "int \<Rightarrow> py_float" where
  "exam_urgency days_until_exam =
     (if days_until_exam \<le> 1 then 1
      else if days_until_exam \<le> 3 then 9/10
      else if days_until_exam \<le> 7 then 3/4
      else if days_until_exam \<le> 14 then 1/2
      else if days_until_exam \<le> 30 then 3/10
      else 1/10)"

definition completed_borrows :: "user \<Rightarrow> nat" where
  "completed_borrows u = length (filter (\<lambda>b. be_returned_at b \<noteq> None) (us_history u))"

definition calculate_priority :: "date \<Rightarrow> user \<Rightarrow> py_float" where
  "calculate_priority today u =
     (let (academic_score, urgency) =
        (case us_details u of
           Student year _ exam \<Rightarrow>
             (min 1 (max (1/4) (of_int year / 4)),
              (case exam of None \<Rightarrow> 1/5 | Some d \<Rightarrow> exam_urgency (d - today)))
         | _ \<Rightarrow> (9/10, 1/2));
        history_score = min 1 (of_nat (completed_borrows u) / 10);
        priority = 4/10 * urgency + 3/10 * academic_score + 3/10 * history_score
      in py_round priority 4)"

section \<open>Queue operations\<close>

definition enqueue ::
  "date \<Rightarrow> timestamp \<Rightarrow> allocation_queue \<Rightarrow> string \<Rightarrow> user \<Rightarrow> string \<Rightarrow> py_float option \<Rightarrow>
     borrow_request \<times> allocation_queue" where
  "enqueue today now q request_id u branch_id custom_priority =
     (let priority = (case custom_priority of None \<Rightarrow> calculate_priority today u | Some p \<Rightarrow> p);
          counter = aq_entry_counter q + 1;
          req = \<lparr>rq_priority = - priority, rq_entry_id = counter, rq_request_id = request_id,
                 rq_user_id = us_user_id u, rq_user_name = us_name u, rq_isbn = aq_isbn q,
                 rq_branch_id = branch_id, rq_timestamp = now, rq_actual_priority = priority,
                 rq_role = role_value (get_role u)\<rparr>
      in (req, q\<lparr>aq_entry_counter := counter, aq_heap := heappush rq_key (aq_heap q) req\<rparr>))"

definition pop_highest_priority :: "allocation_queue \<Rightarrow> borrow_request option \<times> allocation_queue" where
  "pop_highest_priority q =
     (case heappop rq_key (aq_heap q) of
        None \<Rightarrow> (None, q)
      | Some (req, h) \<Rightarrow> (Some req, q\<lparr>aq_heap := h\<rparr>))"

definition peek :: "allocation_queue \<Rightarrow> borrow_request option" where
  "peek q = (case aq_heap q of [] \<Rightarrow> None | r # _ \<Rightarrow> Some r)"

definition queue_size :: "allocation_queue \<Rightarrow> nat" where
  "queue_size q = length (aq_heap q)"

definition queue_to_list :: "allocation_queue \<Rightarrow> (string, json) dict list" where
  "queue_to_list q =
     map (\<lambda>r. [(''request_id'', JStr (rq_request_id r)), (''user_id'', JStr (rq_user_id r)),
               (''user_name'', JStr (rq_user_name r)), (''priority'', JFloat (py_round (- rq_priority r) 4)),
               (''branch_id'', JStr (rq_branch_id r)), (''timestamp'', JInt (rq_timestamp r))])
       (sort_key rq_key (aq_heap q))"

section \<open>The invariant of the queue\<close>

definition queue_inv :: "allocation_queue \<Rightarrow> bool" where
  "queue_inv q \<longleftrightarrow>
     is_heap rq_key (aq_heap q) \<and> distinct (map rq_entry_id (aq_heap q)) \<and>
     (\<forall>r \<in> set (aq_heap q). rq_entry_id r \<le> aq_entry_counter q \<and> rq_priority r = - rq_actual_priority r \<and>
        rq_isbn r = aq_isbn q)"

lemma new_queue_inv [simp]: "queue_inv (new_queue isbn)"
  by (simp add: queue_inv_def new_queue_def is_heap_def)

lemma distinct_map_mset: "distinct (map f xs) \<longleftrightarrow> distinct (map f ys)" if "mset xs = mset ys"
  using that by (metis mset_eq_imp_distinct_iff mset_map)

lemma enqueue_inv:
  assumes "queue_inv q"
  shows "queue_inv (snd (enqueue today now q i u br cp)) \<and>
     mset (aq_heap (snd (enqueue today now q i u br cp))) =
       add_mset (fst (enqueue today now q i u br cp)) (mset (aq_heap q))"
proof -
  obtain req q' where e: "enqueue today now q i u br cp = (req, q')" by fastforce
  then have q': "aq_heap q' = heappush rq_key (aq_heap q) req" "aq_entry_counter q' = aq_entry_counter q + 1"
      "aq_isbn q' = aq_isbn q"
    and req: "rq_entry_id req = aq_entry_counter q + 1" "rq_priority req = - rq_actual_priority req"
      "rq_isbn req = aq_isbn q"
    by (auto simp: enqueue_def Let_def)
  note hp = heappush_heap [of rq_key "aq_heap q" req]
  have m: "mset (aq_heap q') = mset (req # aq_heap q)" and h: "is_heap rq_key (aq_heap q')"
    using assms hp q' by (simp_all add: queue_inv_def)
  have "distinct (map rq_entry_id (req # aq_heap q))"
    using assms req by (force simp: queue_inv_def)
  then have d: "distinct (map rq_entry_id (aq_heap q'))" using distinct_map_mset [OF m] by blast
  have "set (aq_heap q') = insert req (set (aq_heap q))" using mset_eq_setD [OF m] by simp
  then show ?thesis using e assms q' req h d m by (force simp: queue_inv_def)
qed

lemma pop_inv:
  assumes "queue_inv q" and "pop_highest_priority q = (Some r, q')"
  shows "queue_inv q' \<and> mset (aq_heap q) = add_mset r (mset (aq_heap q')) \<and>
     (\<forall>x \<in> set (aq_heap q). rq_key r \<le> rq_key x)"
proof -
  have p: "heappop rq_key (aq_heap q) = Some (r, aq_heap q')"
    "aq_entry_counter q' = aq_entry_counter q" "aq_isbn q' = aq_isbn q"
    using assms(2) by (auto simp: pop_highest_priority_def split: option.splits)
  have hq: "is_heap rq_key (aq_heap q)" using assms(1) by (simp add: queue_inv_def)
  note pop = heappop_Some [OF hq p(1)]
  then have m: "mset (aq_heap q) = mset (r # aq_heap q')" by simp
  have s: "set (aq_heap q) = insert r (set (aq_heap q'))" using mset_eq_setD [OF m] by simp
  have "distinct (map rq_entry_id (aq_heap q'))"
    using assms(1) distinct_map_mset [OF m, of rq_entry_id] by (simp add: queue_inv_def)
  then show ?thesis using pop s p assms(1) by (auto simp: queue_inv_def)
qed

inductive queue_reachable :: "string \<Rightarrow> allocation_queue \<Rightarrow> bool" for isbn where
  q_new: "queue_reachable isbn (new_queue isbn)"
| q_enqueue: "queue_reachable isbn q \<Longrightarrow> queue_reachable isbn (snd (enqueue today now q i u br cp))"
| q_pop: "queue_reachable isbn q \<Longrightarrow> queue_reachable isbn (snd (pop_highest_priority q))"

lemma pop_None_frame: "pop_highest_priority q = (None, q') \<Longrightarrow> q' = q"
  by (auto simp: pop_highest_priority_def split: option.splits)

lemma reachable_queue_inv: "queue_reachable isbn q \<Longrightarrow> queue_inv q"
proof (induction rule: queue_reachable.induct)
  case (q_pop q)
  obtain o' q' where p: "pop_highest_priority q = (o', q')" by fastforce
  then show ?case using q_pop.IH pop_inv pop_None_frame by (cases o') fastforce+
qed (simp_all add: enqueue_inv)

text \<open>
  C20: in every queue the program can build, a pop serves the request with the highest priority
  score, and among equal scores the one that arrived first; it removes exactly that request, and it
  returns nothing only when the queue is empty.
\<close>

theorem pop_serves_highest_then_fifo:
  assumes "queue_reachable isbn q"
  shows "case pop_highest_priority q of
       (None, q') \<Rightarrow> aq_heap q = [] \<and> q' = q
     | (Some r, q') \<Rightarrow>
         mset (aq_heap q) = add_mset r (mset (aq_heap q')) \<and>
         (\<forall>x \<in> set (aq_heap q'). rq_actual_priority x < rq_actual_priority r \<or>
            rq_actual_priority x = rq_actual_priority r \<and> rq_entry_id r < rq_entry_id x)"
proof -
  have inv: "queue_inv q" by (rule reachable_queue_inv [OF assms])
  obtain o' q' where p: "pop_highest_priority q = (o', q')" by fastforce
  show ?thesis
  proof (cases o')
    case None
    then show ?thesis using p by (auto simp: pop_highest_priority_def split: option.splits)
  next
    case (Some r)
    note pop = pop_inv [OF inv p [unfolded Some]]
    then have s: "set (aq_heap q) = insert r (set (aq_heap q'))" and d: "distinct (map rq_entry_id (r # aq_heap q'))"
      using inv distinct_map_mset [of "aq_heap q" "r # aq_heap q'" rq_entry_id] mset_eq_setD [of "aq_heap q" "r # aq_heap q'"]
      by (auto simp: queue_inv_def)
    have "rq_actual_priority x < rq_actual_priority r \<or>
          rq_actual_priority x = rq_actual_priority r \<and> rq_entry_id r < rq_entry_id x"
      if "x \<in> set (aq_heap q')" for x
    proof -
      have "rq_key r \<le> rq_key x" using pop s that by blast
      moreover have "rq_entry_id r \<noteq> rq_entry_id x" using d that by auto
      moreover have "rq_priority x = - rq_actual_priority x" "rq_priority r = - rq_actual_priority r"
        using inv s that by (auto simp: queue_inv_def)
      ultimately show ?thesis by (auto simp: rq_key_def)
    qed
    then show ?thesis using p Some pop by simp
  qed
qed

theorem pop_serves_highest_then_fifo_witness:
  "\<exists>q. queue_reachable ''I'' q \<and> queue_size q = 1 \<and>
       (\<exists>r q'. pop_highest_priority q = (Some r, q') \<and> rq_user_id r = ''F'' \<and> aq_heap q' = [])"
proof -
  let ?u = "new_faculty ''F'' ''Dr'' ''f@u'' (Some ''CS'') ''h'' ''B''"
  let ?q = "snd (enqueue 0 0 (new_queue ''I'') ''R1'' ?u ''B'' None)"
  have r: "queue_reachable ''I'' ?q" by (rule q_enqueue [OF q_new])
  have h: "length (aq_heap ?q) = 1" "rq_user_id (aq_heap ?q ! 0) = ''F''"
    by (simp_all add: enqueue_def Let_def new_queue_def heappush_def siftdown.simps new_faculty_def new_user_def)
  from pop_serves_highest_then_fifo [OF r] h show ?thesis
    using r by (intro exI [of _ ?q])
      (auto simp: queue_size_def pop_highest_priority_def heappop_def Let_def length_Suc_conv split: option.splits)
qed

text \<open>
  The listing of a queue shows the requests in exactly the order in which repeated pops would
  serve them, although it sorts a copy instead of consuming the heap.
\<close>

theorem listing_is_service_order:
  assumes "queue_reachable isbn q"
  shows "sort_key rq_key (aq_heap q) = heap_drain rq_key (aq_heap q)"
proof (rule sort_key_inj_key_eq [symmetric, THEN sym])
  have inv: "queue_inv q" by (rule reachable_queue_inv [OF assms])
  have "is_heap rq_key (aq_heap q)" using inv by (simp add: queue_inv_def)
  from heap_drain_props [OF this]
  show "mset (aq_heap q) = mset (heap_drain rq_key (aq_heap q))" "sorted (map rq_key (heap_drain rq_key (aq_heap q)))"
    by auto
  have "inj_on rq_entry_id (set (aq_heap q))" using inv by (simp add: queue_inv_def distinct_map)
  then show "inj_on rq_key (set (aq_heap q))" by (auto simp: inj_on_def rq_key_def)
qed

theorem listing_is_service_order_witness:
  "\<exists>q. queue_size q = 2 \<and> sort_key rq_key (aq_heap q) = heap_drain rq_key (aq_heap q)"
proof -
  let ?u = "new_faculty ''F'' ''Dr'' ''f@u'' (Some ''CS'') ''h'' ''B''"
  let ?q1 = "snd (enqueue 0 0 (new_queue ''I'') ''R1'' ?u ''B'' None)"
  let ?q2 = "snd (enqueue 0 0 ?q1 ''R2'' ?u ''B'' (Some 1))"
  have "queue_reachable ''I'' ?q2" by (rule q_enqueue [OF q_enqueue [OF q_new]])
  moreover have "queue_size ?q2 = 2" by (simp add: queue_size_def enqueue_def Let_def new_queue_def heappush_def)
  ultimately show ?thesis using listing_is_service_order by blast
qed

lemma exam_urgency_bounds: "1/10 \<le> exam_urgency k" "exam_urgency k \<le> 1"
  by (simp_all add: exam_urgency_def)

lemma calculate_priority_score:
  obtains a b c where "calculate_priority today u = py_round (4/10 * a + 3/10 * b + 3/10 * c) 4"
    "1/10 \<le> a" "a \<le> 1" "1/4 \<le> b" "b \<le> 1" "0 \<le> c" "c \<le> 1"
proof -
  define c where "c = min (1::rat) (of_nat (completed_borrows u) / 10)"
  have c: "0 \<le> c" "c \<le> 1" by (simp_all add: c_def)
  show ?thesis
  proof (cases "us_details u")
    case (Student y m e)
    let ?a = "case e of None \<Rightarrow> 1/5 | Some d \<Rightarrow> exam_urgency (d - today)"
    show ?thesis
      by (rule that [of ?a "min 1 (max (1/4) (of_int y / 4))" c])
         (use c exam_urgency_bounds in \<open>auto simp: calculate_priority_def Let_def Student c_def split: option.splits\<close>)
  qed (rule that [of "1/2" "9/10" c]; use c in \<open>simp add: calculate_priority_def Let_def c_def\<close>)+
qed

text \<open>
  Every computed score lies between 0.115 and 1, whatever the user and the date.
\<close>

theorem priority_bounds: "23/200 \<le> calculate_priority today u \<and> calculate_priority today u \<le> 1"
proof -
  obtain a b c where p: "calculate_priority today u = py_round (4/10 * a + 3/10 * b + 3/10 * c) 4"
    and "1/10 \<le> a" "a \<le> 1" "1/4 \<le> b" "b \<le> 1" "0 \<le> c" "c \<le> 1"
    by (rule calculate_priority_score)
  then have "23/200 \<le> 4/10 * a + 3/10 * b + 3/10 * c" "4/10 * a + 3/10 * b + 3/10 * c \<le> 1"
    by (simp_all add: field_simps)
  from this [THEN py_round_mono, of 4] have "py_round (23/200) 4 \<le> calculate_priority today u"
    "calculate_priority today u \<le> py_round 1 4" by (simp_all add: p)
  moreover have "py_round (23/200) 4 = 23/200" by (simp add: py_round_def round_half_even_def)
  moreover have "py_round 1 4 = 1" using py_round_of_int [of 1 4] by simp
  ultimately show ?thesis by simp
qed

text \<open>
  Moving a student's exam closer, a longer record of completed loans and a later academic year
  never lower the score.
\<close>

theorem priority_monotone:
  assumes "us_details u = Student y m (Some d)" and "us_details v = Student y' m' (Some d')"
    and "y \<le> y'" and "d' \<le> d" and "completed_borrows u \<le> completed_borrows v"
  shows "calculate_priority today u \<le> calculate_priority today v"
proof -
  have urg: "exam_urgency (d - today) \<le> exam_urgency (d' - today)"
    using assms(4) by (simp add: exam_urgency_def)
  have acad: "min 1 (max (1/4) (of_int y / 4)) \<le> min (1::rat) (max (1/4) (of_int y' / 4))"
    using assms(3) by (intro min.mono max.mono order_refl) (simp add: divide_right_mono)
  have hist: "min 1 (of_nat (completed_borrows u) / 10) \<le> min (1::rat) (of_nat (completed_borrows v) / 10)"
    using assms(5) by (intro min.mono order_refl) (simp add: divide_right_mono)
  show ?thesis
    unfolding calculate_priority_def Let_def assms(1,2)
    using urg acad hist by (auto intro!: py_round_mono add_mono mult_left_mono)
qed

theorem priority_monotone_witness:
  "calculate_priority 0 (new_student ''S1'' ''A'' ''a@u'' 1 ''CS'' (Some 25) ''h'' ''B'' 4) \<le>
   calculate_priority 0 (new_student ''S2'' ''B'' ''b@u'' 4 ''CS'' (Some 3) ''h'' ''B'' 4)"
  by (rule priority_monotone [of _ 1 "''CS''" 25 _ 4 "''CS''" 3])
     (simp_all add: new_student_def new_user_def completed_borrows_def)

end
