(* ===== verification/Notifications.thy ===== *)
theory Notifications
  imports Core_Types
begin

text \<open>
  The observer pattern of \<^verbatim>\<open>libflow/patterns/observer_notification.py\<close> and the audit log of
  \<^verbatim>\<open>libflow/patterns/singleton_logger.py\<close>. Observers are objects with an identity (the dispatcher
  tests membership before it subscribes one), so the dispatcher holds references into a heap of
  observers.
\<close>

section \<open>Events and channels\<close>

record notification_event =
  ne_event_type :: string
  ne_recipient_id :: string
  ne_message :: string
  ne_payload :: "(string, json) dict"
  ne_timestamp :: timestamp

definition event_to_dict :: "notification_event \<Rightarrow> (string, json) dict" where
  "event_to_dict e =
     [(''event_type'', JStr (ne_event_type e)), (''recipient_id'', JStr (ne_recipient_id e)),
      (''message'', JStr (ne_message e)), (''payload'', JObj (ne_payload e)),
      (''timestamp'', JInt (ne_timestamp e))]"

definition is_alpha :: "char \<Rightarrow> bool" where
  "is_alpha c \<longleftrightarrow> upper_char c \<noteq> c \<or> lower_char c \<noteq> c"

fun title_from :: "bool \<Rightarrow> string \<Rightarrow> string" where
  "title_from in_word [] = []"
| "title_from in_word (c # cs) =
     (if in_word then lower_char c else upper_char c) # title_from (is_alpha c) cs"

definition py_title :: "string \<Rightarrow> string" where
  "py_title s = title_from False s"

definition email_subject :: "string \<Rightarrow> string" where
  "email_subject event_type =
     ''[LibraFlow] '' @ py_title (map (\<lambda>c. if c = CHR ''_'' then CHR '' '' else c) event_type)"

datatype observer =
    EmailNotificationService (sent_emails: "(string, json) dict list")
  | SmsNotificationService (sent_sms: "(string, json) dict list")
  | InAppNotificationService (user_inbox: "(string, (string, json) dict list) dict")

fun get_channel :: "observer \<Rightarrow> notification_channel" where
  "get_channel (EmailNotificationService _) = EMAIL"
| "get_channel (SmsNotificationService _) = SMS"
| "get_channel (InAppNotificationService _) = IN_APP"

fun on_notify :: "notification_event \<Rightarrow> observer \<Rightarrow> observer" where
  "on_notify e (EmailNotificationService sent) =
     EmailNotificationService (sent @
       [[(''channel'', JStr ''EMAIL''), (''to'', JStr (ne_recipient_id e)),
         (''subject'', JStr (email_subject (ne_event_type e))), (''body'', JStr (ne_message e)),
         (''timestamp'', JInt (ne_timestamp e))]])"
| "on_notify e (SmsNotificationService sent) =
     SmsNotificationService (sent @
       [[(''channel'', JStr ''SMS''),
         (''phone'', dget_default (ne_payload e) ''phone'' (JStr (ne_recipient_id e))),
         (''text'', JStr (take 160 (ne_message e))), (''timestamp'', JInt (ne_timestamp e))]])"
| "on_notify e (InAppNotificationService inbox) =
     InAppNotificationService
       (dset inbox (ne_recipient_id e) (dget_default inbox (ne_recipient_id e) [] @ [event_to_dict e]))"

definition get_user_notifications :: "observer \<Rightarrow> string \<Rightarrow> (string, json) dict list" where
  "get_user_notifications o' user_id = dget_default (user_inbox o') user_id []"

section \<open>The dispatcher\<close>

type_synonym observer_ref = nat

record dispatcher =
  dp_observers :: "observer_ref list"
  dp_heap :: "observer_ref \<Rightarrow> observer option"

definition subscribe :: "dispatcher \<Rightarrow> observer_ref \<Rightarrow> dispatcher" where
  "subscribe d r = (if r \<notin> set (dp_observers d) then d\<lparr>dp_observers := dp_observers d @ [r]\<rparr> else d)"

definition unsubscribe :: "dispatcher \<Rightarrow> observer_ref \<Rightarrow> dispatcher" where
  "unsubscribe d r = (if r \<in> set (dp_observers d) then d\<lparr>dp_observers := remove1 r (dp_observers d)\<rparr> else d)"

definition notify_ref :: "notification_event \<Rightarrow> observer_ref \<Rightarrow> (observer_ref \<Rightarrow> observer option) \<Rightarrow> observer_ref \<Rightarrow> observer option" where
  "notify_ref e r h = h(r := map_option (on_notify e) (h r))"

definition dispatch :: "dispatcher \<Rightarrow> notification_event \<Rightarrow> dispatcher" where
  "dispatch d e = d\<lparr>dp_heap := fold (notify_ref e) (dp_observers d) (dp_heap d)\<rparr>"

text \<open>The wiring of the container: one email, one SMS and one in-app service, subscribed in this order.\<close>

definition container_dispatcher :: dispatcher where
  "container_dispatcher =
     (let h = [0 \<mapsto> EmailNotificationService [], 1 \<mapsto> SmsNotificationService [], 2 \<mapsto> InAppNotificationService []]
      in subscribe (subscribe (subscribe \<lparr>dp_observers = [], dp_heap = h\<rparr> 0) 1) 2)"

lemma notify_fold:
  "distinct rs \<Longrightarrow> fold (notify_ref e) rs h r = (if r \<in> set rs then map_option (on_notify e) (h r) else h r)"
  by (induction rs arbitrary: h) (auto simp: notify_ref_def)

lemma dispatch_observers [simp]: "dp_observers (dispatch d e) = dp_observers d"
  by (simp add: dispatch_def)

section \<open>The audit log\<close>

record log_entry =
  le_timestamp :: timestamp
  le_actor_id :: string
  le_action :: string
  le_resource_id :: string
  le_details :: "(string, json) dict"
  le_ip_address :: string

definition log_event ::
  "timestamp \<Rightarrow> log_entry list \<Rightarrow> string \<Rightarrow> string \<Rightarrow> string \<Rightarrow> (string, json) dict \<Rightarrow> log_entry list" where
  "log_event now logs actor_id action resource_id details =
     logs @ [\<lparr>le_timestamp = now, le_actor_id = actor_id, le_action = action, le_resource_id = resource_id,
              le_details = details, le_ip_address = ''127.0.0.1''\<rparr>]"

text \<open>The slice \<open>logs[-limit:]\<close>: the last entries for a positive limit, all entries for \<open>-0\<close>, and
  all but the first entries for a negative limit.\<close>

definition last_slice :: "int \<Rightarrow> 'a list \<Rightarrow> 'a list" where
  "last_slice limit xs =
     (if limit > 0 then drop (length xs - nat limit) xs else drop (nat (- limit)) xs)"

definition get_logs :: "log_entry list \<Rightarrow> int \<Rightarrow> string option \<Rightarrow> log_entry list" where
  "get_logs logs limit action_filter =
     last_slice limit (if truthy action_filter then filter (\<lambda>e. Some (le_action e) = action_filter) logs else logs)"

definition clear_logs :: "log_entry list \<Rightarrow> log_entry list" where
  "clear_logs logs = []"

section \<open>Delivery\<close>

inductive dispatcher_reachable :: "dispatcher \<Rightarrow> bool" where
  d_init: "dp_observers d = [] \<Longrightarrow> dispatcher_reachable d"
| d_subscribe: "dispatcher_reachable d \<Longrightarrow> dispatcher_reachable (subscribe d r)"
| d_unsubscribe: "dispatcher_reachable d \<Longrightarrow> dispatcher_reachable (unsubscribe d r)"
| d_dispatch: "dispatcher_reachable d \<Longrightarrow> dispatcher_reachable (dispatch d e)"

lemma reachable_distinct: "dispatcher_reachable d \<Longrightarrow> distinct (dp_observers d)"
  by (induction rule: dispatcher_reachable.induct) (auto simp: subscribe_def unsubscribe_def)

lemma container_dispatcher_reachable: "dispatcher_reachable container_dispatcher"
  unfolding container_dispatcher_def Let_def
  by (intro d_subscribe d_init) simp

text \<open>
  Whatever subscriptions and removals came before (subscribing twice included), a dispatch
  notifies every subscribed observer exactly once and no other observer, and it changes no
  subscription.
\<close>

theorem dispatch_exactly_once:
  assumes "dispatcher_reachable d"
  shows "dp_heap (dispatch d e) r =
       (if r \<in> set (dp_observers d) then map_option (on_notify e) (dp_heap d r) else dp_heap d r) \<and>
     dp_observers (dispatch (subscribe d s) e) = dp_observers (subscribe d s) \<and>
     distinct (dp_observers (subscribe d s))"
  using reachable_distinct [OF assms] reachable_distinct [OF d_subscribe [OF assms]]
  by (simp add: dispatch_def notify_fold)

theorem dispatch_exactly_once_witness:
  "length (sent_emails (the (dp_heap (dispatch (subscribe container_dispatcher 0)
      \<lparr>ne_event_type = ''BOOK_ISSUED'', ne_recipient_id = ''U1'', ne_message = ''m'', ne_payload = [], ne_timestamp = 0\<rparr>) 0))) = 1"
proof -
  have "dispatcher_reachable (subscribe container_dispatcher 0)"
    by (rule d_subscribe [OF container_dispatcher_reachable])
  from dispatch_exactly_once [OF this, of _ 0] show ?thesis
    by (simp add: subscribe_def container_dispatcher_def Let_def)
qed

end
