(* ===== verification/Reservation_Queue.thy ===== *)
theory Reservation_Queue
  imports Notifications
begin

text \<open>
  The waiting queues of \<^verbatim>\<open>libflow/patterns/reservation_queue.py\<close>. A \<open>ReservationEntry\<close> is shared by
  the queue of its title and by the dictionary of all reservations, and assigning a copy mutates it,
  so both hold references into a heap of entries. \<open>strftime\<close> stands for the formatting of the pickup
  deadline in the notification text.
\<close>

record reservation_entry =
  re_reservation_id :: string
  re_isbn :: string
  re_user_id :: string
  re_priority_score :: py_float
  re_status :: reservation_status
  re_created_at :: timestamp
  re_assigned_copy_id :: "string option"
  re_expires_at :: "timestamp option"

type_synonym res_ref = nat

record reservation_mgr =
  rm_heap :: "res_ref \<Rightarrow> reservation_entry option"
  rm_next :: res_ref
  rm_queues :: "(string, res_ref list) dict"
  rm_reservations :: "(string, res_ref) dict"

definition new_reservation_mgr :: reservation_mgr where
  "new_reservation_mgr = \<lparr>rm_heap = Map.empty, rm_next = 0, rm_queues = [], rm_reservations = []\<rparr>"

definition reservation_to_dict :: "reservation_entry \<Rightarrow> (string, json) dict" where
  "reservation_to_dict e =
     [(''reservation_id'', JStr (re_reservation_id e)), (''isbn'', JStr (re_isbn e)),
      (''user_id'', JStr (re_user_id e)), (''status'', JStr (reservation_status_value (re_status e))),
      (''assigned_copy_id'', json_opt JStr (re_assigned_copy_id e)),
      (''created_at'', JInt (re_created_at e)), (''expires_at'', json_opt JInt (re_expires_at e))]"

definition live_for :: "reservation_mgr \<Rightarrow> string \<Rightarrow> res_ref \<Rightarrow> bool" where
  "live_for rm user_id r =
     (case rm_heap rm r of None \<Rightarrow> False
      | Some e \<Rightarrow> re_user_id e = user_id \<and> (re_status e = RES_PENDING \<or> re_status e = READY_FOR_PICKUP))"

definition reserve_book ::
  "timestamp \<Rightarrow> string \<Rightarrow> reservation_mgr \<Rightarrow> string \<Rightarrow> string \<Rightarrow> py_float \<Rightarrow> res_ref \<times> reservation_mgr" where
  "reserve_book now uuid8 rm isbn user_id priority_score =
     (let queue = dget_default (rm_queues rm) isbn []; queues = dset (rm_queues rm) isbn queue
      in case find (live_for rm user_id) queue of
           Some r \<Rightarrow> (r, rm\<lparr>rm_queues := queues\<rparr>)
         | None \<Rightarrow>
             let res_id = ''RES-'' @ uuid8; r = rm_next rm;
                 entry = \<lparr>re_reservation_id = res_id, re_isbn = isbn, re_user_id = user_id,
                   re_priority_score = priority_score, re_status = RES_PENDING, re_created_at = now,
                   re_assigned_copy_id = None, re_expires_at = None\<rparr>
             in (r, rm\<lparr>rm_heap := (rm_heap rm)(r := Some entry), rm_next := r + 1,
                       rm_queues := dset queues isbn (queue @ [r]),
                       rm_reservations := dset (rm_reservations rm) res_id r\<rparr>))"

definition ready_message :: "(timestamp \<Rightarrow> string) \<Rightarrow> string \<Rightarrow> string \<Rightarrow> timestamp \<Rightarrow> string" where
  "ready_message strftime isbn copy_id expires =
     ''Good news! Book '' @ isbn @ '' (Copy: '' @ copy_id @ '') is now ready for pickup until '' @
     strftime expires @ ''.''"

fun pop_pending :: "(res_ref \<Rightarrow> reservation_entry option) \<Rightarrow> res_ref list \<Rightarrow> res_ref option \<times> res_ref list" where
  "pop_pending h [] = (None, [])"
| "pop_pending h (r # rs) =
     (case h r of
        Some e \<Rightarrow> if re_status e = RES_PENDING then (Some r, rs) else pop_pending h rs
      | None \<Rightarrow> pop_pending h rs)"

definition handle_copy_returned ::
  "(timestamp \<Rightarrow> string) \<Rightarrow> timestamp \<Rightarrow> reservation_mgr \<Rightarrow> dispatcher option \<Rightarrow> string \<Rightarrow> string \<Rightarrow> int \<Rightarrow>
     reservation_entry option \<times> reservation_mgr \<times> dispatcher option" where
  "handle_copy_returned strftime now rm disp isbn copy_id pickup_window_hours =
     (case dget (rm_queues rm) isbn of
        None \<Rightarrow> (None, rm, disp)
      | Some queue \<Rightarrow>
          (case pop_pending (rm_heap rm) queue of
             (None, rest) \<Rightarrow> (None, rm\<lparr>rm_queues := dset (rm_queues rm) isbn rest\<rparr>, disp)
           | (Some r, rest) \<Rightarrow>
               let expires = now + pickup_window_hours * 3600;
                   entry = (the (rm_heap rm r))\<lparr>re_status := READY_FOR_PICKUP,
                     re_assigned_copy_id := Some copy_id, re_expires_at := Some expires\<rparr>;
                   event = \<lparr>ne_event_type = ''BOOK_RESERVED_AVAILABLE'', ne_recipient_id = re_user_id entry,
                     ne_message = ready_message strftime isbn copy_id expires,
                     ne_payload = [(''isbn'', JStr isbn), (''copy_id'', JStr copy_id),
                       (''reservation_id'', JStr (re_reservation_id entry))],
                     ne_timestamp = now\<rparr>
               in (Some entry,
                   rm\<lparr>rm_heap := (rm_heap rm)(r := Some entry), rm_queues := dset (rm_queues rm) isbn rest\<rparr>,
                   map_option (\<lambda>d. dispatch d event) disp)))"

definition get_waiting_count :: "reservation_mgr \<Rightarrow> string \<Rightarrow> nat" where
  "get_waiting_count rm isbn =
     length (filter (\<lambda>r. map_option re_status (rm_heap rm r) = Some RES_PENDING)
       (dget_default (rm_queues rm) isbn []))"

section \<open>The waiting list as the library promises it\<close>

text \<open>
  What a return desk relies on: a waiting list per title, in order of arrival, in which a user
  stands at most once; a returned copy goes to the head of the list.
\<close>

locale waiting_lists =
  fixes waiting :: "'s \<Rightarrow> string \<Rightarrow> string list" and join :: "'s \<Rightarrow> string \<Rightarrow> string \<Rightarrow> 's"
    and serve :: "'s \<Rightarrow> string \<Rightarrow> string option \<times> 's" and inv :: "'s \<Rightarrow> bool"
  assumes join_waiting: "inv s \<Longrightarrow> waiting (join s isbn u) isbn' =
      (if isbn' = isbn \<and> u \<notin> set (waiting s isbn) then waiting s isbn @ [u] else waiting s isbn')"
    and serve_waiting: "inv s \<Longrightarrow> waiting (snd (serve s isbn)) isbn' =
      (if isbn' = isbn then tl (waiting s isbn) else waiting s isbn')"
    and serve_head: "inv s \<Longrightarrow> fst (serve s isbn) =
      (case waiting s isbn of [] \<Rightarrow> None | u # _ \<Rightarrow> Some u)"
    and inv_join: "inv s \<Longrightarrow> inv (join s isbn u)"
    and inv_serve: "inv s \<Longrightarrow> inv (snd (serve s isbn))"
begin

lemma join_distinct:
  "inv s \<Longrightarrow> distinct (waiting s isbn') \<Longrightarrow> distinct (waiting (join s isbn u) isbn')"
  by (cases "isbn' = isbn") (simp_all add: join_waiting)

lemma join_idem: "inv s \<Longrightarrow> waiting (join (join s isbn u) isbn u) = waiting (join s isbn u)"
  by (rule ext) (auto simp: join_waiting inv_join)

lemma join_all_order:
  "inv s \<Longrightarrow> distinct us \<Longrightarrow> set us \<inter> set (waiting s isbn) = {} \<Longrightarrow>
     waiting (foldl (\<lambda>s u. join s isbn u) s us) isbn = waiting s isbn @ us"
proof (induction us arbitrary: s)
  case (Cons u us)
  then show ?case using Cons.IH [of "join s isbn u"] by (auto simp: join_waiting inv_join)
qed simp

lemma serve_n:
  "inv s \<Longrightarrow> n \<le> length (waiting s isbn) \<Longrightarrow>
     inv (((\<lambda>s. snd (serve s isbn)) ^^ n) s) \<and>
     waiting (((\<lambda>s. snd (serve s isbn)) ^^ n) s) isbn = drop n (waiting s isbn)"
proof (induction n)
  case (Suc n)
  then show ?case by (simp add: inv_serve serve_waiting drop_Suc tl_drop)
qed simp

lemma nth_served:
  "inv s \<Longrightarrow> n < length (waiting s isbn) \<Longrightarrow>
     fst (serve (((\<lambda>s. snd (serve s isbn)) ^^ n) s) isbn) = Some (waiting s isbn ! n)"
  using serve_n [of s n isbn] by (simp add: serve_head Cons_nth_drop_Suc [symmetric])

end

definition queue_of :: "reservation_mgr \<Rightarrow> string \<Rightarrow> res_ref list" where
  "queue_of rm isbn = dget_default (rm_queues rm) isbn []"

definition wait_list :: "reservation_mgr \<Rightarrow> string \<Rightarrow> string list" where
  "wait_list rm isbn = map (\<lambda>r. re_user_id (the (rm_heap rm r))) (queue_of rm isbn)"

definition res_inv :: "reservation_mgr \<Rightarrow> bool" where
  "res_inv rm \<longleftrightarrow>
     (\<forall>isbn. \<forall>r \<in> set (queue_of rm isbn). r < rm_next rm \<and>
        (\<exists>e. rm_heap rm r = Some e \<and> re_status e = RES_PENDING \<and> re_isbn e = isbn)) \<and>
     (\<forall>isbn. distinct (queue_of rm isbn) \<and> distinct (wait_list rm isbn))"

definition joined :: "timestamp \<Rightarrow> string \<Rightarrow> py_float \<Rightarrow> reservation_mgr \<Rightarrow> string \<Rightarrow> string \<Rightarrow> reservation_mgr" where
  "joined now uuid8 score rm isbn u = snd (reserve_book now uuid8 rm isbn u score)"

definition served ::
  "(timestamp \<Rightarrow> string) \<Rightarrow> timestamp \<Rightarrow> string \<Rightarrow> int \<Rightarrow> reservation_mgr \<Rightarrow> string \<Rightarrow> string option \<times> reservation_mgr" where
  "served strftime now copy_id hours rm isbn =
     (let result = handle_copy_returned strftime now rm None isbn copy_id hours
      in (map_option re_user_id (fst result), fst (snd result)))"

lemma new_reservation_mgr_inv [simp]: "res_inv new_reservation_mgr"
  by (simp add: res_inv_def new_reservation_mgr_def queue_of_def wait_list_def dget_default_def)

lemma queue_of_dset [simp]:
  "queue_of (rm\<lparr>rm_queues := dset (rm_queues rm) isbn q\<rparr>) i = (if i = isbn then q else queue_of rm i)"
  "queue_of (rm\<lparr>rm_heap := h\<rparr>) i = queue_of rm i" "queue_of (rm\<lparr>rm_next := n\<rparr>) i = queue_of rm i"
  "queue_of (rm\<lparr>rm_reservations := d\<rparr>) i = queue_of rm i"
  by (simp_all add: queue_of_def dget_default_def)

lemma live_in_queue:
  assumes "res_inv rm" and "r \<in> set (queue_of rm isbn)"
  shows "live_for rm u r \<longleftrightarrow> re_user_id (the (rm_heap rm r)) = u"
  using assms by (fastforce simp: res_inv_def live_for_def)

lemma find_live_None:
  assumes "res_inv rm"
  shows "find (live_for rm u) (queue_of rm isbn) = None \<longleftrightarrow> u \<notin> set (wait_list rm isbn)"
  unfolding find_None_iff wait_list_def using live_in_queue [OF assms] by (auto simp: image_iff)

lemma pop_pending_head:
  assumes "res_inv rm"
  shows "pop_pending (rm_heap rm) (queue_of rm isbn) =
     (case queue_of rm isbn of [] \<Rightarrow> (None, []) | r # rs \<Rightarrow> (Some r, rs))"
proof (cases "queue_of rm isbn")
  case (Cons r rs)
  then obtain e where "rm_heap rm r = Some e" "re_status e = RES_PENDING"
    using assms by (auto simp: res_inv_def dest!: spec [of _ isbn])
  then show ?thesis using Cons by simp
qed simp

text \<open>The two shapes of \<open>reserve_book\<close> under the invariant.\<close>

lemma reserve_known:
  assumes "res_inv rm" and "u \<in> set (wait_list rm isbn)"
  obtains r where "r \<in> set (queue_of rm isbn)" "re_user_id (the (rm_heap rm r)) = u"
    "reserve_book now uid rm isbn u p = (r, rm\<lparr>rm_queues := dset (rm_queues rm) isbn (queue_of rm isbn)\<rparr>)"
proof -
  obtain r where f: "find (live_for rm u) (queue_of rm isbn) = Some r"
    using find_live_None [OF assms(1)] assms(2) by fastforce
  then have r: "r \<in> set (queue_of rm isbn)" "live_for rm u r"
    by (auto simp: find_Some_iff)
  show ?thesis
    by (rule that [OF r(1)])
       (use f r live_in_queue [OF assms(1) r(1)] in \<open>simp_all add: reserve_book_def Let_def queue_of_def\<close>)
qed

lemma reserve_new:
  assumes "res_inv rm" and "u \<notin> set (wait_list rm isbn)"
  shows "fst (reserve_book now uid rm isbn u p) = rm_next rm"
    and "rm_heap (snd (reserve_book now uid rm isbn u p)) = (rm_heap rm)(rm_next rm := Some
         \<lparr>re_reservation_id = ''RES-'' @ uid, re_isbn = isbn, re_user_id = u, re_priority_score = p,
          re_status = RES_PENDING, re_created_at = now, re_assigned_copy_id = None, re_expires_at = None\<rparr>)"
    and "rm_next (snd (reserve_book now uid rm isbn u p)) = rm_next rm + 1"
    and "queue_of (snd (reserve_book now uid rm isbn u p)) i =
       (if i = isbn then queue_of rm isbn @ [rm_next rm] else queue_of rm i)"
  using find_live_None [OF assms(1), of u isbn] assms(2)
  by (simp_all add: reserve_book_def Let_def queue_of_def dget_default_def)

lemma dset_dset [simp]: "dset (dset d k v) k w = dset d k w"
  by (induction d k v rule: dset.induct) auto

lemma dset_same: "dget d k = Some v \<Longrightarrow> dset d k v = d"
  by (induction d k v rule: dset.induct) (auto split: if_splits)

lemma fresh_ref: "res_inv rm \<Longrightarrow> r \<in> set (queue_of rm isbn) \<Longrightarrow> r \<noteq> rm_next rm"
  by (fastforce simp: res_inv_def)

lemma reserve_wait_list:
  assumes "res_inv rm"
  shows "wait_list (snd (reserve_book now uid rm isbn u p)) i =
     (if i = isbn \<and> u \<notin> set (wait_list rm isbn) then wait_list rm isbn @ [u] else wait_list rm i)"
proof (cases "u \<in> set (wait_list rm isbn)")
  case True
  then show ?thesis
    by (rule reserve_known [OF assms, where now = now and uid = uid and p = p]) (use True in \<open>simp add: wait_list_def\<close>)
next
  case False
  then show ?thesis
    using fresh_ref [OF assms] by (auto simp: wait_list_def reserve_new [OF assms False])
qed

lemma res_inv_cong:
  assumes "rm_heap a = rm_heap b" "rm_next a = rm_next b" "\<And>i. queue_of a i = queue_of b i"
  shows "res_inv a = res_inv b"
  by (simp add: res_inv_def wait_list_def assms)

lemma reserve_inv:
  assumes "res_inv rm"
  shows "res_inv (snd (reserve_book now uid rm isbn u p))"
proof (cases "u \<in> set (wait_list rm isbn)")
  case True
  obtain r where "reserve_book now uid rm isbn u p =
      (r, rm\<lparr>rm_queues := dset (rm_queues rm) isbn (queue_of rm isbn)\<rparr>)"
    by (rule reserve_known [OF assms True, where now = now and uid = uid and p = p])
  then show ?thesis using assms by (subst res_inv_cong [of _ rm]) auto
next
  case False
  let ?rm' = "snd (reserve_book now uid rm isbn u p)"
  note new = reserve_new [OF assms False, where now = now and uid = uid and p = p]
  have w: "distinct (wait_list ?rm' i)" for i
    using assms False by (auto simp: reserve_wait_list res_inv_def)
  have q: "distinct (queue_of ?rm' i)" for i
    using assms fresh_ref [OF assms] by (auto simp: new res_inv_def)
  have "r < rm_next ?rm' \<and> (\<exists>e. rm_heap ?rm' r = Some e \<and> re_status e = RES_PENDING \<and> re_isbn e = i)"
    if "r \<in> set (queue_of ?rm' i)" for r i
  proof (cases "r = rm_next rm")
    case True
    then have "i = isbn" using that fresh_ref [OF assms] by (auto simp: new split: if_splits)
    then show ?thesis using True by (simp add: new)
  next
    case False
    then have "r \<in> set (queue_of rm i)" using that by (auto simp: new split: if_splits)
    then show ?thesis using False assms by (auto simp: new res_inv_def less_Suc_eq)
  qed
  then show ?thesis unfolding res_inv_def using w q by blast
qed

text \<open>A returned copy under the invariant.\<close>

definition ready_entry :: "timestamp \<Rightarrow> int \<Rightarrow> string \<Rightarrow> reservation_entry \<Rightarrow> reservation_entry" where
  "ready_entry now hours copy_id e =
     e\<lparr>re_status := READY_FOR_PICKUP, re_assigned_copy_id := Some copy_id,
       re_expires_at := Some (now + hours * 3600)\<rparr>"

lemma handle_none:
  assumes "res_inv rm" and "queue_of rm isbn = []"
  shows "handle_copy_returned ft now rm disp isbn copy_id hours = (None, rm, disp)"
  using assms(2)
  by (auto simp: handle_copy_returned_def queue_of_def dget_default_def dset_same split: option.splits)

lemma handle_some:
  assumes "res_inv rm" and "queue_of rm isbn = r # rs"
  obtains e where "rm_heap rm r = Some e" "re_status e = RES_PENDING" "re_isbn e = isbn"
    "fst (handle_copy_returned ft now rm disp isbn copy_id hours) = Some (ready_entry now hours copy_id e)"
    "fst (snd (handle_copy_returned ft now rm disp isbn copy_id hours)) =
       rm\<lparr>rm_heap := (rm_heap rm)(r := Some (ready_entry now hours copy_id e)),
         rm_queues := dset (rm_queues rm) isbn rs\<rparr>"
proof -
  from assms obtain e where e: "rm_heap rm r = Some e" "re_status e = RES_PENDING" "re_isbn e = isbn"
    unfolding res_inv_def by (metis list.set_intros(1))
  have "dget (rm_queues rm) isbn = Some (r # rs)"
    using assms(2) by (auto simp: queue_of_def dget_default_def split: option.splits)
  with e show ?thesis
    by (intro that [OF e]) (simp_all add: handle_copy_returned_def Let_def ready_entry_def)
qed

lemma handle_wait_list:
  assumes "res_inv rm"
  shows "wait_list (fst (snd (handle_copy_returned ft now rm disp isbn copy_id hours))) i =
     (if i = isbn then tl (wait_list rm isbn) else wait_list rm i)"
proof (cases "queue_of rm isbn")
  case Nil
  then show ?thesis using handle_none [OF assms Nil] by (auto simp: wait_list_def)
next
  case (Cons r rs)
  obtain e where e: "rm_heap rm r = Some e" "re_status e = RES_PENDING" "re_isbn e = isbn"
    and h: "fst (snd (handle_copy_returned ft now rm disp isbn copy_id hours)) =
       rm\<lparr>rm_heap := (rm_heap rm)(r := Some (ready_entry now hours copy_id e)),
         rm_queues := dset (rm_queues rm) isbn rs\<rparr>"
    by (rule handle_some [OF assms Cons])
  let ?rm' = "fst (snd (handle_copy_returned ft now rm disp isbn copy_id hours))"
  have rs: "r \<notin> set rs" using assms Cons unfolding res_inv_def by (metis distinct.simps(2))
  have other: "r \<notin> set (queue_of rm i)" if "i \<noteq> isbn"
    using assms e that by (fastforce simp: res_inv_def)
  have q: "queue_of ?rm' i = (if i = isbn then rs else queue_of rm i)"
    by (simp add: h queue_of_def dget_default_def)
  have "rm_heap ?rm' x = rm_heap rm x" if "x \<noteq> r" for x using that by (simp add: h)
  moreover have "r \<notin> set (queue_of ?rm' i)" using rs other by (simp add: q)
  ultimately have "wait_list ?rm' i = map (\<lambda>r. re_user_id (the (rm_heap rm r))) (queue_of ?rm' i)"
    unfolding wait_list_def by (intro map_cong refl) metis
  then show ?thesis using Cons by (simp add: q wait_list_def)
qed

lemma handle_inv:
  assumes "res_inv rm"
  shows "res_inv (fst (snd (handle_copy_returned ft now rm disp isbn copy_id hours)))"
proof (cases "queue_of rm isbn")
  case Nil
  then show ?thesis using handle_none [OF assms Nil] assms by simp
next
  case (Cons r rs)
  obtain e where e: "rm_heap rm r = Some e" "re_isbn e = isbn"
    and h: "fst (snd (handle_copy_returned ft now rm disp isbn copy_id hours)) =
       rm\<lparr>rm_heap := (rm_heap rm)(r := Some (ready_entry now hours copy_id e)),
         rm_queues := dset (rm_queues rm) isbn rs\<rparr>" (is "?rm' = _")
    by (rule handle_some [OF assms Cons])
  have d: "distinct (queue_of rm i)" "distinct (wait_list rm i)" for i using assms by (auto simp: res_inv_def)
  have w: "distinct (wait_list ?rm' i)" for i
    using d by (simp add: handle_wait_list [OF assms] distinct_tl)
  have q': "queue_of ?rm' i = (if i = isbn then rs else queue_of rm i)" for i
    by (simp add: h queue_of_def dget_default_def)
  have "r \<notin> set (queue_of rm i)" if "i \<noteq> isbn" for i
    using assms e that by (fastforce simp: res_inv_def)
  then have notin: "r \<notin> set (queue_of ?rm' i)" for i
    using d [of isbn] Cons by (simp add: q')
  have sub: "set (queue_of ?rm' i) \<subseteq> set (queue_of rm i)" for i using Cons by (auto simp: q')
  have "distinct (queue_of ?rm' i)" for i using d [of i] Cons by (auto simp: q')
  moreover have "rm_next ?rm' = rm_next rm" "\<And>x. x \<noteq> r \<Longrightarrow> rm_heap ?rm' x = rm_heap rm x" by (simp_all add: h)
  ultimately show ?thesis
    unfolding res_inv_def using w notin sub assms [unfolded res_inv_def] by (metis subsetD)
qed

lemma handle_result:
  assumes "res_inv rm"
  shows "map_option re_user_id (fst (handle_copy_returned ft now rm disp isbn copy_id hours)) =
     (case wait_list rm isbn of [] \<Rightarrow> None | u # _ \<Rightarrow> Some u)"
proof (cases "queue_of rm isbn")
  case Nil
  then show ?thesis using handle_none [OF assms Nil] by (simp add: wait_list_def)
next
  case (Cons r rs)
  obtain e where "rm_heap rm r = Some e"
    "fst (handle_copy_returned ft now rm disp isbn copy_id hours) = Some (ready_entry now hours copy_id e)"
    by (rule handle_some [OF assms Cons])
  then show ?thesis using Cons by (simp add: wait_list_def ready_entry_def)
qed

interpretation desk: waiting_lists wait_list "joined now uid p" "served ft now' copy_id hours" res_inv
  for now uid p ft now' copy_id hours
proof (unfold_locales, goal_cases)
  case 1 then show ?case by (simp add: joined_def reserve_wait_list)
next
  case (2 s isbn isbn') then show ?case
    using handle_wait_list [of s ft now' None isbn copy_id hours isbn']
    by (simp add: served_def Let_def)
next
  case (3 s isbn) then show ?case
    using handle_result [of s ft now' None isbn copy_id hours]
    by (simp add: served_def Let_def)
next
  case 4 then show ?case by (simp add: joined_def reserve_inv)
next
  case (5 s isbn) then show ?case
    using handle_inv [of s ft now' None isbn copy_id hours] by (simp add: served_def Let_def)
qed

lemma waiting_count: "res_inv rm \<Longrightarrow> get_waiting_count rm isbn = length (wait_list rm isbn)"
proof -
  assume "res_inv rm"
  then have "filter (\<lambda>r. map_option re_status (rm_heap rm r) = Some RES_PENDING) (queue_of rm isbn) = queue_of rm isbn"
    by (intro filter_True) (fastforce simp: res_inv_def)
  then show ?thesis by (simp add: get_waiting_count_def wait_list_def queue_of_def)
qed



text \<open>
  C35: a user whose reservation is ready for pickup is not recognised as already holding one: the
  assigned entry has left the queue, so reserving the title again creates a second, pending
  reservation, although \<open>reserve_book\<close> tests for the ready status as well.
\<close>

theorem ready_reservation_not_recognised:
  assumes "res_inv rm" and "wait_list rm isbn = u # us"
    and "handle_copy_returned ft now rm disp isbn copy_id hours = (Some e, rm', disp')"
  shows "re_user_id e = u \<and> re_status e = READY_FOR_PICKUP \<and>
     fst (reserve_book now' uid rm' isbn u p) = rm_next rm' \<and>
     wait_list (snd (reserve_book now' uid rm' isbn u p)) isbn = us @ [u]"
proof -
  have inv': "res_inv rm'" using handle_inv [OF assms(1), of ft now disp isbn copy_id hours] assms(3) by simp
  have w': "wait_list rm' isbn = us"
    using handle_wait_list [OF assms(1), of ft now disp isbn copy_id hours isbn] assms(2,3) by simp
  have "distinct (u # us)" using assms(1,2) unfolding res_inv_def by metis
  then have "u \<notin> set (wait_list rm' isbn)" using w' by simp
  then have "fst (reserve_book now' uid rm' isbn u p) = rm_next rm'"
    "wait_list (snd (reserve_book now' uid rm' isbn u p)) isbn = us @ [u]"
    using reserve_new [OF inv'] reserve_wait_list [OF inv'] w' by auto
  moreover have "re_user_id e = u"
    using handle_result [OF assms(1), of ft now disp isbn copy_id hours] assms(2,3) by simp
  moreover have "re_status e = READY_FOR_PICKUP"
  proof -
    obtain r rs where q: "queue_of rm isbn = r # rs" using assms(2) by (auto simp: wait_list_def)
    show ?thesis
      by (rule handle_some [OF assms(1) q, of ft now disp copy_id hours])
         (use assms(3) in \<open>simp add: ready_entry_def\<close>)
  qed
  ultimately show ?thesis by blast
qed

theorem ready_reservation_not_recognised_witness:
  "\<exists>rm rm' e. handle_copy_returned (\<lambda>_. []) 9 rm None ''I'' ''C1'' 48 = (Some e, rm', None) \<and>
     re_status e = READY_FOR_PICKUP \<and>
     wait_list (snd (reserve_book 10 ''0B'' rm' ''I'' ''U1'' 0)) ''I'' = [''U1'']"
proof -
  let ?rm = "joined 7 ''0A'' 0 new_reservation_mgr ''I'' ''U1''"
  have inv: "res_inv ?rm" by (simp add: joined_def reserve_inv)
  have w: "wait_list ?rm ''I'' = [''U1'']"
    by (simp add: joined_def reserve_wait_list)
       (simp add: wait_list_def queue_of_def new_reservation_mgr_def dget_default_def)
  have d: "snd (snd (handle_copy_returned (\<lambda>_. []) 9 ?rm None ''I'' ''C1'' 48)) = None"
    by (simp add: handle_copy_returned_def Let_def split: option.splits prod.splits)
  obtain o' rm' where h: "handle_copy_returned (\<lambda>_. []) 9 ?rm None ''I'' ''C1'' 48 = (o', rm', None)"
    using d by (metis prod.collapse)
  have "map_option re_user_id o' = Some ''U1''"
    using handle_result [OF inv, of "\<lambda>_. []" 9 None "''I''" "''C1''" 48] w h by simp
  then obtain e where e: "o' = Some e" by auto
  show ?thesis
    using ready_reservation_not_recognised [OF inv w h [unfolded e], of 10 "''0B''" 0] h e by auto
qed

end
