(* ===== verification/Fines.thy ===== *)
theory Fines
  imports Core_Types
begin

text \<open>
  The fine strategies of \<^verbatim>\<open>libflow/patterns/strategy_fine.py\<close>. The metadata dictionaries hold the two
  book values and the one user value the strategies read, each with a default when it is missing.
\<close>

record fine_book_meta =
  fb_pending_reservations_count :: "int option"
  fb_rating :: "py_float option"

record fine_user_meta =
  fu_past_late_returns_count :: "int option"

datatype fine_strategy =
    StandardFixedFineStrategy py_float
  | DynamicDemandFineStrategy py_float
  | TieredRiskFineStrategy py_float

definition or_default :: "'a option \<Rightarrow> 'a \<Rightarrow> 'a" where
  "or_default x d = (case x of None \<Rightarrow> d | Some v \<Rightarrow> v)"

definition standard_fine :: "py_float \<Rightarrow> int \<Rightarrow> py_float" where
  "standard_fine daily_rate overdue_days =
     (if overdue_days \<le> 0 then 0 else py_round (of_int overdue_days * daily_rate) 2)"

definition demand_multiplier :: "int \<Rightarrow> py_float" where
  "demand_multiplier pending_reservations = 1 + min 2 (of_int pending_reservations * (1/4))"

definition popularity_multiplier :: "py_float \<Rightarrow> py_float" where
  "popularity_multiplier rating = 1 + max 0 ((rating - 3) * (1/10))"

definition history_penalty :: "int \<Rightarrow> py_float" where
  "history_penalty past_late_returns = 1 + min (3/2) (of_int past_late_returns * (1/10))"

definition dynamic_fine :: "py_float \<Rightarrow> int \<Rightarrow> fine_book_meta \<Rightarrow> fine_user_meta \<Rightarrow> py_float" where
  "dynamic_fine base_rate overdue_days book_metadata user_metadata =
     (if overdue_days \<le> 0 then 0
      else
        let total_daily_rate = base_rate
              * demand_multiplier (or_default (fb_pending_reservations_count book_metadata) 0)
              * popularity_multiplier (or_default (fb_rating book_metadata) 4)
              * history_penalty (or_default (fu_past_late_returns_count user_metadata) 0)
        in py_round (of_int overdue_days * total_daily_rate) 2)"

definition tiered_total :: "py_float \<Rightarrow> int \<Rightarrow> py_float" where
  "tiered_total base_rate overdue_days =
     (let fine = of_int (min 3 overdue_days) * base_rate;
          fine = (if overdue_days > 3 then fine + of_int (min 7 (overdue_days - 3)) * (base_rate * (3/2)) else fine)
      in if overdue_days > 10 then fine + of_int (overdue_days - 10) * (base_rate * (5/2)) else fine)"

definition tiered_fine :: "py_float \<Rightarrow> int \<Rightarrow> py_float" where
  "tiered_fine base_rate overdue_days =
     (if overdue_days \<le> 0 then 0 else py_round (tiered_total base_rate overdue_days) 2)"

fun calculate_fine :: "fine_strategy \<Rightarrow> int \<Rightarrow> fine_book_meta \<Rightarrow> fine_user_meta \<Rightarrow> py_float" where
  "calculate_fine (StandardFixedFineStrategy r) d b u = standard_fine r d"
| "calculate_fine (DynamicDemandFineStrategy r) d b u = dynamic_fine r d b u"
| "calculate_fine (TieredRiskFineStrategy r) d b u = tiered_fine r d"

fun strategy_rate :: "fine_strategy \<Rightarrow> py_float" where
  "strategy_rate (StandardFixedFineStrategy r) = r"
| "strategy_rate (DynamicDemandFineStrategy r) = r"
| "strategy_rate (TieredRiskFineStrategy r) = r"

section \<open>Bounds of the factors\<close>

lemma demand_multiplier_bounds: "0 \<le> n \<Longrightarrow> 1 \<le> demand_multiplier n \<and> demand_multiplier n \<le> 3"
  by (auto simp: demand_multiplier_def)

lemma popularity_multiplier_bounds: "x \<le> 5 \<Longrightarrow> 1 \<le> popularity_multiplier x \<and> popularity_multiplier x \<le> 6/5"
  by (auto simp: popularity_multiplier_def max_def)

lemma history_penalty_bounds: "0 \<le> n \<Longrightarrow> 1 \<le> history_penalty n \<and> history_penalty n \<le> 5/2"
  by (auto simp: history_penalty_def)

lemma multiplier_mono:
  "m \<le> n \<Longrightarrow> demand_multiplier m \<le> demand_multiplier n"
  "x \<le> y \<Longrightarrow> popularity_multiplier x \<le> popularity_multiplier y"
  "m \<le> n \<Longrightarrow> history_penalty m \<le> history_penalty n"
  by (auto simp: demand_multiplier_def popularity_multiplier_def history_penalty_def max_def min_def)

text \<open>The rate of each overdue day in the tiered strategy.\<close>

definition tier_rate :: "py_float \<Rightarrow> int \<Rightarrow> py_float" where
  "tier_rate base_rate day = (if day \<le> 3 then base_rate else if day \<le> 10 then base_rate * (3/2) else base_rate * (5/2))"

lemma tiered_total_step:
  assumes "0 \<le> d"
  shows "tiered_total r (d + 1) = tiered_total r d + tier_rate r (d + 1)"
proof -
  consider "d < 3" | "d = 3" | "3 < d" "d < 10" | "d = 10" | "10 < d" by linarith
  then show ?thesis
    by cases (simp_all add: tiered_total_def tier_rate_def Let_def min_def field_simps)
qed

lemma tiered_total_sum: "tiered_total r (int n) = (\<Sum>k = 1..n. tier_rate r (int k))"
proof (induction n)
  case (Suc n)
  then show ?case using tiered_total_step [of "int n" r] by (simp add: add.commute)
qed (simp add: tiered_total_def)

lemma tiered_total_mono:
  assumes "0 \<le> r" "0 \<le> c" "c \<le> d"
  shows "tiered_total r c \<le> tiered_total r d"
  using assms(3)
proof (induction d rule: int_ge_induct)
  case (step d)
  have "0 \<le> tier_rate r (d + 1)" using assms(1) by (simp add: tier_rate_def)
  then show ?case using tiered_total_step [of d r] step assms(2) by linarith
qed simp

text \<open>
  The tiered fine is the sum of the rates of the single overdue days, each day charged at the base
  rate, one and a half times or two and a half times it by its tier, rounded to cents once at the end.
\<close>

theorem tiered_fine_per_day:
  "calculate_fine (TieredRiskFineStrategy r) (int n) b u = py_round (\<Sum>k = 1..n. tier_rate r (int k)) 2"
  using tiered_total_sum [of r n] by (cases "n = 0") (simp_all add: tiered_fine_def)

lemma daily_rate_pos:
  assumes "0 \<le> r" "0 \<le> p" "0 \<le> l"
  shows "0 \<le> r * demand_multiplier p * popularity_multiplier x * history_penalty l"
proof -
  have "0 \<le> demand_multiplier p" "0 \<le> history_penalty l" "0 \<le> popularity_multiplier x"
    using demand_multiplier_bounds [OF assms(2)] history_penalty_bounds [OF assms(3)]
    by (auto simp: popularity_multiplier_def)
  then show ?thesis using assms(1) by simp
qed

text \<open>
  Under every strategy with a non-negative rate, a book that is not overdue costs nothing, a fine is
  never negative, and it never shrinks when the book is kept longer.
\<close>

theorem fine_monotone_in_days:
  assumes "0 \<le> strategy_rate st" "c \<le> d"
    and "0 \<le> or_default (fb_pending_reservations_count b) 0" "0 \<le> or_default (fu_past_late_returns_count u) 0"
  shows "calculate_fine st c b u \<le> calculate_fine st d b u \<and> 0 \<le> calculate_fine st c b u \<and>
    (c \<le> 0 \<longrightarrow> calculate_fine st c b u = 0)"
proof -
  have le: "py_round (of_int c * x) 2 \<le> py_round (of_int d * x) 2" if "0 \<le> x" for x :: rat
    using assms(2) that by (intro py_round_mono mult_right_mono) auto
  have pos: "0 \<le> py_round (of_int e * x) 2" if "0 \<le> x" "0 < e" for x :: rat and e :: int
    using that by (intro py_round_nonneg) simp
  show ?thesis
  proof (cases st)
    case (StandardFixedFineStrategy r)
    then show ?thesis using assms(1,2) le pos by (auto simp: standard_fine_def)
  next
    case (DynamicDemandFineStrategy r)
    let ?x = "r * demand_multiplier (or_default (fb_pending_reservations_count b) 0) *
      popularity_multiplier (or_default (fb_rating b) 4) * history_penalty (or_default (fu_past_late_returns_count u) 0)"
    have x: "0 \<le> ?x" using assms DynamicDemandFineStrategy by (intro daily_rate_pos) auto
    have f: "calculate_fine st e b u = (if e \<le> 0 then 0 else py_round (of_int e * ?x) 2)" for e
      using DynamicDemandFineStrategy by (simp add: dynamic_fine_def Let_def)
    show ?thesis using le [OF x] pos [OF x] assms(2) by (auto simp: f)
  next
    case (TieredRiskFineStrategy r)
    have "0 \<le> tiered_total r e" if "0 < e" for e
      using tiered_total_mono [of r 0 e] TieredRiskFineStrategy assms(1) that by (simp add: tiered_total_def)
    moreover have "tiered_total r c \<le> tiered_total r d" if "0 < c"
      using tiered_total_mono [of r c d] TieredRiskFineStrategy assms(1,2) that by simp
    ultimately show ?thesis using TieredRiskFineStrategy assms(1,2)
      by (auto simp: tiered_fine_def intro!: py_round_mono py_round_nonneg)
  qed
qed

theorem fine_monotone_in_days_witness:
  "calculate_fine (TieredRiskFineStrategy 10) 3 \<lparr>fb_pending_reservations_count = None, fb_rating = None\<rparr> \<lparr>fu_past_late_returns_count = None\<rparr>
     \<le> calculate_fine (TieredRiskFineStrategy 10) 12 \<lparr>fb_pending_reservations_count = None, fb_rating = None\<rparr> \<lparr>fu_past_late_returns_count = None\<rparr>"
  using fine_monotone_in_days [of "TieredRiskFineStrategy 10" 3 12 "\<lparr>fb_pending_reservations_count = None, fb_rating = None\<rparr>" "\<lparr>fu_past_late_returns_count = None\<rparr>"]
  by (simp add: or_default_def)

text \<open>
  The dynamic strategy surcharges within fixed limits. With a rating of at most five and counts that
  are not negative, the fine is at least the fixed daily fine of the same base rate and at most nine times
  the unrounded amount (plus half a cent of rounding), and it grows with the number of waiting
  reservations, with the rating and with the borrower's late returns.
\<close>

theorem dynamic_fine_bounds:
  assumes "0 \<le> r" "0 \<le> p" "p \<le> p'" "x \<le> x'" "x' \<le> 5" "0 \<le> l" "l \<le> l'"
  shows "standard_fine r d \<le> dynamic_fine r d \<lparr>fb_pending_reservations_count = Some p, fb_rating = Some x\<rparr> \<lparr>fu_past_late_returns_count = Some l\<rparr> \<and>
    dynamic_fine r d \<lparr>fb_pending_reservations_count = Some p, fb_rating = Some x\<rparr> \<lparr>fu_past_late_returns_count = Some l\<rparr> \<le>
      dynamic_fine r d \<lparr>fb_pending_reservations_count = Some p', fb_rating = Some x'\<rparr> \<lparr>fu_past_late_returns_count = Some l'\<rparr> \<and>
    dynamic_fine r d \<lparr>fb_pending_reservations_count = Some p', fb_rating = Some x'\<rparr> \<lparr>fu_past_late_returns_count = Some l'\<rparr> \<le>
      9 * (of_int (max 0 d) * r) + 1/200"
proof (cases "d \<le> 0")
  case True
  then show ?thesis using assms by (simp add: standard_fine_def dynamic_fine_def)
next
  case False
  let ?m = "\<lambda>p x l. demand_multiplier p * popularity_multiplier x * history_penalty l"
  let ?a = "of_int d * (r * ?m p x l)" and ?b = "of_int d * (r * ?m p' x' l')"
  have dm: "1 \<le> demand_multiplier p" "demand_multiplier p \<le> demand_multiplier p'" "demand_multiplier p' \<le> 3"
    using demand_multiplier_bounds [of p] demand_multiplier_bounds [of p'] multiplier_mono(1) [of p p'] assms by auto
  have pm: "1 \<le> popularity_multiplier x" "popularity_multiplier x \<le> popularity_multiplier x'" "popularity_multiplier x' \<le> 6/5"
    using popularity_multiplier_bounds [of x] popularity_multiplier_bounds [of x'] multiplier_mono(2) [of x x'] assms by auto
  have hm: "1 \<le> history_penalty l" "history_penalty l \<le> history_penalty l'" "history_penalty l' \<le> 5/2"
    using history_penalty_bounds [of l] history_penalty_bounds [of l'] multiplier_mono(3) [of l l'] assms by auto
  have "1 * 1 * 1 \<le> ?m p x l" by (intro mult_mono) (use dm pm hm in auto)
  then have low: "of_int d * r \<le> ?a" using False assms(1) by (intro mult_left_mono) (auto simp: mult_le_cancel_left1)
  have mid: "?a \<le> ?b" using False assms(1) dm pm hm by (intro mult_left_mono mult_mono) auto
  have "?m p' x' l' \<le> 3 * (6/5) * (5/2)" by (intro mult_mono) (use dm pm hm in auto)
  then have "r * ?m p' x' l' \<le> r * 9" using assms(1) by (intro mult_left_mono) auto
  then have "?b \<le> of_int d * (r * 9)" by (rule mult_left_mono) (use False in auto)
  moreover have "py_round ?b 2 \<le> ?b + 1/200" using py_round_upper [of ?b 2] by simp
  ultimately have high: "py_round ?b 2 \<le> 9 * (of_int (max 0 d) * r) + 1/200" using False by (simp add: max_def mult.commute mult.left_commute)
  have eq: "dynamic_fine r d \<lparr>fb_pending_reservations_count = Some a, fb_rating = Some b\<rparr> \<lparr>fu_past_late_returns_count = Some c\<rparr> =
      py_round (of_int d * (r * ?m a b c)) 2" for a b c
    using False by (simp add: dynamic_fine_def or_default_def mult.assoc)
  show ?thesis using py_round_mono [OF low, of 2] py_round_mono [OF mid, of 2] high False
    by (simp add: eq standard_fine_def)
qed

theorem dynamic_fine_bounds_witness:
  "dynamic_fine 10 5 \<lparr>fb_pending_reservations_count = Some 2, fb_rating = Some 4\<rparr> \<lparr>fu_past_late_returns_count = Some 1\<rparr>
     \<le> 9 * (of_int (max 0 5) * 10) + 1/200"
  using dynamic_fine_bounds [of 10 2 2 4 4 1 1 5] by linarith

end
