(* ===== verification/Payments.thy ===== *)
theory Payments
  imports Core_Types
begin

text \<open>
  The payment strategies of \<^verbatim>\<open>libflow/patterns/strategy_payment.py\<close>. A result is the dictionary the
  strategy returns. The fresh identifiers (\<open>uuid4\<close>) and the time are arguments, and \<open>show_float\<close> is
  Python's formatting of a float in the text of an error. The wallet strategy debits the dictionary of
  wallet balances it shares with the billing service.
\<close>

type_synonym pay_result = "(string, json) dict"
type_synonym wallets = "(string, py_float) dict"

record pay_env =
  pe_uuid :: string
  pe_hex10 :: string
  pe_now :: timestamp
  pe_show_float :: "py_float \<Rightarrow> string"

datatype payment_strategy = UpiPaymentStrategy | CardPaymentStrategy | WalletPaymentStrategy

definition payment_status_value :: "payment_status \<Rightarrow> string" where
  "payment_status_value s = (case s of PAY_PENDING \<Rightarrow> ''PENDING'' | PAY_COMPLETED \<Rightarrow> ''COMPLETED''
     | PAY_FAILED \<Rightarrow> ''FAILED'' | REFUNDED \<Rightarrow> ''REFUNDED'')"

definition meta_str :: "(string, string) dict \<Rightarrow> string \<Rightarrow> string \<Rightarrow> string" where
  "meta_str metadata k d = dget_default metadata k d"

definition upi_payment :: "pay_env \<Rightarrow> py_float \<Rightarrow> string \<Rightarrow> (string, string) dict \<Rightarrow> pay_result" where
  "upi_payment env amount payer_id metadata =
     (let vpa = meta_str metadata ''vpa'' (payer_id @ ''@upi'') in
      if CHR ''@'' \<notin> set vpa
      then [(''transaction_id'', JStr (pe_uuid env)), (''status'', JStr (payment_status_value PAY_FAILED)),
            (''amount'', JFloat amount), (''error'', JStr ''Invalid UPI VPA address format.'')]
      else [(''transaction_id'', JStr (''UPI-'' @ pe_hex10 env)), (''method'', JStr (payment_method_value UPI)),
            (''status'', JStr (payment_status_value PAY_COMPLETED)), (''amount'', JFloat amount),
            (''payer_id'', JStr payer_id), (''vpa'', JStr vpa), (''timestamp'', JInt (pe_now env))])"

definition card_payment :: "pay_env \<Rightarrow> py_float \<Rightarrow> string \<Rightarrow> (string, string) dict \<Rightarrow> pay_result" where
  "card_payment env amount payer_id metadata =
     (let card_last4 = meta_str metadata ''card_last4'' ''4242''; expiry = meta_str metadata ''expiry'' ''12/28'' in
      if length card_last4 \<noteq> 4
      then [(''transaction_id'', JStr (pe_uuid env)), (''status'', JStr (payment_status_value PAY_FAILED)),
            (''amount'', JFloat amount), (''error'', JStr ''Invalid card details provided.'')]
      else [(''transaction_id'', JStr (''CARD-'' @ pe_hex10 env)), (''method'', JStr (payment_method_value CREDIT_CARD)),
            (''status'', JStr (payment_status_value PAY_COMPLETED)), (''amount'', JFloat amount),
            (''payer_id'', JStr payer_id), (''card_last4'', JStr card_last4), (''expiry'', JStr expiry),
            (''timestamp'', JInt (pe_now env))])"

definition wallet_payment :: "pay_env \<Rightarrow> py_float \<Rightarrow> string \<Rightarrow> wallets \<Rightarrow> pay_result \<times> wallets" where
  "wallet_payment env amount payer_id ws =
     (let current_balance = dget_default ws payer_id 0 in
      if current_balance < amount
      then ([(''transaction_id'', JStr (pe_uuid env)), (''status'', JStr (payment_status_value PAY_FAILED)),
             (''amount'', JFloat amount), (''payer_id'', JStr payer_id),
             (''error'', JStr (''Insufficient wallet balance. Available: '' @ pe_show_float env current_balance @
                '', Required: '' @ pe_show_float env amount))], ws)
      else let remaining = py_round (current_balance - amount) 2; ws = dset ws payer_id remaining in
        ([(''transaction_id'', JStr (''WLT-'' @ pe_hex10 env)), (''method'', JStr (payment_method_value WALLET)),
          (''status'', JStr (payment_status_value PAY_COMPLETED)), (''amount'', JFloat amount),
          (''payer_id'', JStr payer_id), (''remaining_balance'', JFloat remaining), (''timestamp'', JInt (pe_now env))], ws))"

fun process_payment ::
  "payment_strategy \<Rightarrow> pay_env \<Rightarrow> py_float \<Rightarrow> string \<Rightarrow> (string, string) dict \<Rightarrow> wallets \<Rightarrow> pay_result \<times> wallets" where
  "process_payment UpiPaymentStrategy env amount payer_id metadata ws = (upi_payment env amount payer_id metadata, ws)"
| "process_payment CardPaymentStrategy env amount payer_id metadata ws = (card_payment env amount payer_id metadata, ws)"
| "process_payment WalletPaymentStrategy env amount payer_id metadata ws = wallet_payment env amount payer_id ws"

definition execute_payment ::
  "payment_strategy \<Rightarrow> pay_env \<Rightarrow> py_float \<Rightarrow> string \<Rightarrow> (string, string) dict option \<Rightarrow> wallets \<Rightarrow> (exn + pay_result) \<times> wallets" where
  "execute_payment strategy env amount payer_id metadata ws =
     (if amount \<le> 0 then (Inl (ValueError ''Payment amount must be greater than 0.''), ws)
      else case process_payment strategy env amount payer_id (case metadata of None \<Rightarrow> [] | Some m \<Rightarrow> m) ws of
        (r, ws) \<Rightarrow> (Inr r, ws))"

definition completed :: "pay_result \<Rightarrow> bool" where
  "completed r \<longleftrightarrow> dget r ''status'' = Some (JStr ''COMPLETED'')"

lemma status_values [simp]: "payment_status_value PAY_COMPLETED = ''COMPLETED''" "payment_status_value PAY_FAILED = ''FAILED''"
  by (simp_all add: payment_status_value_def)

lemma process_wallets:
  "snd (process_payment st env amount payer m ws) =
     (if st = WalletPaymentStrategy \<and> completed (fst (process_payment st env amount payer m ws))
      then dset ws payer (py_round (dget_default ws payer 0 - amount) 2) else ws)"
  by (cases st) (auto simp: wallet_payment_def completed_def Let_def)

lemma wallet_completed:
  "completed (fst (process_payment WalletPaymentStrategy env amount payer m ws)) \<longleftrightarrow> amount \<le> dget_default ws payer 0"
  by (auto simp: wallet_payment_def completed_def Let_def)

text \<open>
  A wallet is never overdrawn and only its owner's is debited. Whatever the payment method, a payment
  changes the wallets only when it is a completed wallet payment; it then takes the amount (to the cent)
  from the payer's balance, which covered it and stays non-negative, and leaves every other wallet alone.
  An amount that is not positive is refused before any strategy runs.
\<close>

theorem wallet_never_overdrawn:
  assumes "0 < amount"
  shows "(case execute_payment st env amount payer metadata ws of
      (Inl e, ws') \<Rightarrow> False
    | (Inr r, ws') \<Rightarrow>
        (if st = WalletPaymentStrategy \<and> completed r
         then amount \<le> dget_default ws payer 0 \<and> 0 \<le> dget_default ws' payer 0 \<and>
           \<bar>dget_default ws' payer 0 - (dget_default ws payer 0 - amount)\<bar> \<le> 1/200
         else ws' = ws) \<and>
        (\<forall>u. u \<noteq> payer \<longrightarrow> dget ws' u = dget ws u) \<and>
        (st = WalletPaymentStrategy \<longrightarrow> completed r = (amount \<le> dget_default ws payer 0))) \<and>
    execute_payment st env (- amount) payer metadata ws = (Inl (ValueError ''Payment amount must be greater than 0.''), ws)"
proof -
  let ?m = "case metadata of None \<Rightarrow> [] | Some m \<Rightarrow> m"
  obtain r ws' where p: "process_payment st env amount payer ?m ws = (r, ws')" by fastforce
  have e: "execute_payment st env amount payer metadata ws = (Inr r, ws')"
    using assms p by (simp add: execute_payment_def)
  have w: "ws' = (if st = WalletPaymentStrategy \<and> completed r then dset ws payer (py_round (dget_default ws payer 0 - amount) 2) else ws)"
    using process_wallets [of st env amount payer ?m ws] p by simp
  have c: "st = WalletPaymentStrategy \<Longrightarrow> completed r = (amount \<le> dget_default ws payer 0)"
    using wallet_completed [of env amount payer ?m ws] p by auto
  show ?thesis using assms e w c py_round_error [of "dget_default ws payer 0 - amount" 2]
      py_round_nonneg [of "dget_default ws payer 0 - amount" 2]
    by (auto simp: dget_default_def execute_payment_def)
qed

theorem wallet_never_overdrawn_witness:
  "\<exists>r ws'. execute_payment WalletPaymentStrategy \<lparr>pe_uuid = ''u'', pe_hex10 = ''h'', pe_now = 0, pe_show_float = \<lambda>_. []\<rparr> 30 ''U1'' None [(''U1'', 100)] = (Inr r, ws') \<and>
     0 \<le> dget_default ws' ''U1'' 0"
  using wallet_never_overdrawn [where amount = 30 and st = WalletPaymentStrategy and payer = "''U1''" and metadata = None
      and ws = "[(''U1'', 100)]" and env = "\<lparr>pe_uuid = ''u'', pe_hex10 = ''h'', pe_now = 0, pe_show_float = \<lambda>_. []\<rparr>"]
  by (auto simp: dget_default_def split: prod.splits sum.splits if_splits)

end
