(* ===== verification/Factory.thy ===== *)
theory Factory
  imports Books Users
begin

text \<open>
  The factories of \<^verbatim>\<open>libflow/core/factory.py\<close>. The keyword arguments of a call are the fields of a
  record; \<open>None\<close> is a key that is missing (the department and the staff code may also be present with the value \<open>None\<close>). \<^verbatim>\<open>libflow/core/passwords.py\<close> delegates to \<open>passlib\<close>, so the
  hash and its check are parameters. The conversions of dates to and from ISO text are parameters too, with
  the documented law that they invert each other stated where it is used.
\<close>

section \<open>Books\<close>

record book_kwargs =
  kw_isbn :: "string option"
  kw_title :: "string option"
  kw_authors :: "string list option"
  kw_category :: "string option"
  kw_publication_year :: "int option"
  kw_publisher :: "string option"
  kw_description :: "string option"
  kw_rating :: "py_float option"
  kw_difficulty_level :: "string option"
  kw_keywords :: "string list option"
  kw_weight_grams :: "int option"
  kw_page_count :: "int option"
  kw_download_url :: "string option"
  kw_file_size_mb :: "py_float option"
  kw_file_format :: "string option"
  kw_drm_protected :: "bool option"
  kw_max_concurrent_downloads :: "int option"
  kw_stream_url :: "string option"
  kw_duration_minutes :: "int option"
  kw_narrator :: "string option"

definition no_book_kwargs :: book_kwargs where
  "no_book_kwargs = \<lparr>kw_isbn = None, kw_title = None, kw_authors = None, kw_category = None, kw_publication_year = None,
     kw_publisher = None, kw_description = None, kw_rating = None, kw_difficulty_level = None, kw_keywords = None,
     kw_weight_grams = None, kw_page_count = None, kw_download_url = None, kw_file_size_mb = None, kw_file_format = None,
     kw_drm_protected = None, kw_max_concurrent_downloads = None, kw_stream_url = None, kw_duration_minutes = None, kw_narrator = None\<rparr>"

definition get_arg :: "'a option \<Rightarrow> 'a \<Rightarrow> 'a" where
  "get_arg x d = (case x of None \<Rightarrow> d | Some v \<Rightarrow> v)"

lemma get_arg_simps [simp]: "get_arg None d = d" "get_arg (Some v) d = v"
  by (simp_all add: get_arg_def)

definition book_of_kwargs :: "string \<Rightarrow> string \<Rightarrow> book_kwargs \<Rightarrow> book_details \<Rightarrow> book" where
  "book_of_kwargs isbn title kw details =
     \<lparr>bk_isbn = isbn, bk_title = title, bk_authors = get_arg (kw_authors kw) [''Unknown''],
      bk_category = get_arg (kw_category kw) ''General'', bk_publication_year = get_arg (kw_publication_year kw) 2024,
      bk_publisher = get_arg (kw_publisher kw) ''Standard Press'', bk_description = get_arg (kw_description kw) [],
      bk_rating = get_arg (kw_rating kw) 4, bk_difficulty_level = get_arg (kw_difficulty_level kw) ''Intermediate'',
      bk_keywords = get_arg (kw_keywords kw) [], bk_borrow_history_count = 0, bk_details = details\<rparr>"

fun details_of_kwargs :: "book_format \<Rightarrow> string \<Rightarrow> book_kwargs \<Rightarrow> book_details" where
  "details_of_kwargs PHYSICAL isbn kw =
     PhysicalBook (get_arg (kw_weight_grams kw) 500) (get_arg (kw_page_count kw) 400) []"
| "details_of_kwargs EBOOK isbn kw =
     EBook (get_arg (kw_download_url kw) (''https://cdn.libraflow.org/ebooks/'' @ isbn @ ''.pdf''))
       (get_arg (kw_file_size_mb kw) (31/2)) (get_arg (kw_file_format kw) ''PDF'') (get_arg (kw_drm_protected kw) True)
       (get_arg (kw_max_concurrent_downloads kw) 100) 0"
| "details_of_kwargs AUDIOBOOK isbn kw =
     AudioBook (get_arg (kw_stream_url kw) (''https://audio.libraflow.org/'' @ isbn @ ''.m4a''))
       (get_arg (kw_duration_minutes kw) 360) (get_arg (kw_narrator kw) ''Studio Voice'')"

definition create_book :: "string \<Rightarrow> book_kwargs \<Rightarrow> exn + book" where
  "create_book format_type kw =
     (case book_format_of (py_upper format_type) of
        None \<Rightarrow> Inl (ValueError (quoted (py_upper format_type) @ '' is not a valid BookFormat''))
      | Some fmt \<Rightarrow>
          (case kw_isbn kw of
             None \<Rightarrow> Inl (KeyError ''isbn'')
           | Some isbn \<Rightarrow>
               (case kw_title kw of
                  None \<Rightarrow> Inl (KeyError ''title'')
                | Some title \<Rightarrow> Inr (book_of_kwargs isbn title kw (details_of_kwargs fmt isbn kw)))))"

section \<open>Users\<close>

text \<open>An examination date may be given as a date or as ISO text.\<close>

datatype exam_arg = ExamDate date | ExamText string

record user_kwargs =
  uk_user_id :: "string option"
  uk_name :: "string option"
  uk_email :: "string option"
  uk_branch_id :: "string option"
  uk_password :: "string option"
  uk_password_hash :: "string option"
  uk_academic_year :: "int option"
  uk_major :: "string option"
  uk_exam_date :: "exam_arg option"
  uk_department :: "string option option"
  uk_staff_code :: "string option option"

definition no_user_kwargs :: user_kwargs where
  "no_user_kwargs = \<lparr>uk_user_id = None, uk_name = None, uk_email = None, uk_branch_id = None, uk_password = None,
     uk_password_hash = None, uk_academic_year = None, uk_major = None, uk_exam_date = None, uk_department = None, uk_staff_code = None\<rparr>"

text \<open>\<open>passlib\<close> and the parsing of dates.\<close>

record user_env =
  ue_hash :: "string \<Rightarrow> string"
  ue_verify :: "string \<Rightarrow> string \<Rightarrow> bool"
  ue_fromisoformat :: "string \<Rightarrow> exn + date"
  ue_isoformat :: "date \<Rightarrow> string"

definition hash_password :: "user_env \<Rightarrow> string \<Rightarrow> string" where
  "hash_password env plain = ue_hash env plain"

definition verify_password :: "user_env \<Rightarrow> string \<Rightarrow> string \<Rightarrow> bool" where
  "verify_password env plain hashed = (if hashed = [] then False else ue_verify env plain hashed)"

definition exam_of_arg :: "user_env \<Rightarrow> exam_arg option \<Rightarrow> exn + date option" where
  "exam_of_arg env arg =
     (case arg of None \<Rightarrow> Inr None | Some (ExamDate d) \<Rightarrow> Inr (Some d)
      | Some (ExamText t) \<Rightarrow> (case ue_fromisoformat env t of Inl e \<Rightarrow> Inl e | Inr d \<Rightarrow> Inr (Some d)))"

fun user_of_role ::
  "user_env \<Rightarrow> user_role \<Rightarrow> string \<Rightarrow> string \<Rightarrow> string \<Rightarrow> string \<Rightarrow> string \<Rightarrow> user_kwargs \<Rightarrow> exn + user" where
  "user_of_role env STUDENT user_id name email pwd branch_id kw =
     (case exam_of_arg env (uk_exam_date kw) of
        Inl e \<Rightarrow> Inl e
      | Inr exam \<Rightarrow> Inr (new_student user_id name email (get_arg (uk_academic_year kw) 1)
                          (get_arg (uk_major kw) ''Computer Science'') exam pwd branch_id 4))"
| "user_of_role env FACULTY user_id name email pwd branch_id kw =
     Inr (new_faculty user_id name email (get_arg (uk_department kw) (Some ''Computer Science & Engineering'')) pwd branch_id)"
| "user_of_role env LIBRARIAN user_id name email pwd branch_id kw =
     Inr (new_librarian user_id name email (get_arg (uk_staff_code kw) (Some (''LIB-'' @ user_id))) pwd branch_id)"
| "user_of_role env ADMIN user_id name email pwd branch_id kw = Inr (new_admin user_id name email pwd branch_id)"

definition create_user :: "user_env \<Rightarrow> string \<Rightarrow> user_kwargs \<Rightarrow> exn + user" where
  "create_user env role kw =
     (case user_role_of (py_upper role) of
        None \<Rightarrow> Inl (ValueError (quoted (py_upper role) @ '' is not a valid UserRole''))
      | Some r \<Rightarrow>
          (case uk_user_id kw of
             None \<Rightarrow> Inl (KeyError ''user_id'')
           | Some user_id \<Rightarrow>
               (case uk_name kw of
                  None \<Rightarrow> Inl (KeyError ''name'')
                | Some name \<Rightarrow>
                    (case uk_email kw of
                       None \<Rightarrow> Inl (KeyError ''email'')
                     | Some email \<Rightarrow>
                         let branch_id = get_arg (uk_branch_id kw) ''BRANCH-CENTRAL'';
                             pwd = (case uk_password kw of
                                      Some p \<Rightarrow> hash_password env p
                                    | None \<Rightarrow> get_arg (uk_password_hash kw) ''default_hash'')
                         in user_of_role env r user_id name email pwd branch_id kw))))"

section \<open>What the factories produce\<close>

lemma upper_role [simp]: "py_upper (role_value r) = role_value r"
  by (induct r; code_simp)

lemma role_value_inj [simp]: "role_value r = role_value q \<longleftrightarrow> r = q"
  by (cases r; cases q) simp_all

lemma create_book_ok:
  assumes "create_book ft kw = Inr b"
  obtains fmt isbn where "book_format_of (py_upper ft) = Some fmt" "kw_isbn kw = Some isbn" "bk_isbn b = isbn" "get_format b = fmt"
    "copies_of b = []" "bk_borrow_history_count b = 0"
proof -
  obtain fmt isbn title where f: "book_format_of (py_upper ft) = Some fmt" "kw_isbn kw = Some isbn"
    "b = book_of_kwargs isbn title kw (details_of_kwargs fmt isbn kw)"
    using assms by (auto simp: create_book_def split: option.splits)
  show ?thesis
    by (rule that [OF f(1,2)]; cases fmt) (simp_all add: f(3) book_of_kwargs_def get_format_def copies_of_def)
qed

lemma new_user_fields [simp]:
  "us_user_id (new_user i n e p m b d) = i" "us_active (new_user i n e p m b d) = {}" "us_history (new_user i n e p m b d) = []"
  "us_fines (new_user i n e p m b d) = 0" "us_max_borrow_limit (new_user i n e p m b d) = m" "us_details (new_user i n e p m b d) = d"
  "us_password_hash (new_user i n e p m b d) = p" "us_is_suspended (new_user i n e p m b d) = False" "us_name (new_user i n e p m b d) = n"
  by (simp_all add: new_user_def)

lemmas new_role_defs = new_student_def new_faculty_def new_librarian_def new_admin_def

definition role_limit :: "user_role \<Rightarrow> int" where
  "role_limit r = (case r of STUDENT \<Rightarrow> 4 | FACULTY \<Rightarrow> 10 | LIBRARIAN \<Rightarrow> 15 | ADMIN \<Rightarrow> 50)"

lemma user_of_role_ok:
  assumes "user_of_role env r i n e p b kw = Inr u"
  shows "us_user_id u = i \<and> get_role u = r \<and> us_active u = {} \<and> us_fines u = 0 \<and> us_max_borrow_limit u = role_limit r \<and>
    us_password_hash u = p \<and> us_name u = n \<and> can_borrow u"
  using assms by (cases r) (auto simp: new_role_defs get_role_def role_limit_def can_borrow_def split: sum.splits)

lemma create_user_ok:
  assumes "create_user env role kw = Inr u"
  obtains r i where "user_role_of (py_upper role) = Some r" "uk_user_id kw = Some i" "us_user_id u = i" "get_role u = r"
    "us_active u = {}" "us_fines u = 0" "us_max_borrow_limit u = role_limit r" "can_borrow u"
    "\<And>p. uk_password kw = Some p \<Longrightarrow> us_password_hash u = hash_password env p"
proof -
  obtain r i n e where r: "user_role_of (py_upper role) = Some r" "uk_user_id kw = Some i" "uk_name kw = Some n" "uk_email kw = Some e"
    using assms by (auto simp: create_user_def split: option.splits)
  let ?pwd = "case uk_password kw of Some p \<Rightarrow> hash_password env p | None \<Rightarrow> get_arg (uk_password_hash kw) ''default_hash''"
  have "user_of_role env r i n e ?pwd (get_arg (uk_branch_id kw) ''BRANCH-CENTRAL'') kw = Inr u"
    using assms r by (simp add: create_user_def Let_def)
  from user_of_role_ok [OF this] show ?thesis using r that by auto
qed

text \<open>
  A created user is a fresh borrower of the requested role. Whatever other arguments are given, a user
  that the factory creates has the given identifier, the role that was named (in any case), no loans and no
  fines, the borrow limit of that role, may borrow at once, and can log in with the password the user was
  created with, provided that the hashing library accepts what it produced and never produces an empty hash.
\<close>

theorem created_user_is_fresh:
  assumes "create_user env role kw = Inr u" "uk_password kw = Some p"
    "\<And>x. ue_verify env x (ue_hash env x)" "\<And>x. ue_hash env x \<noteq> []"
  shows "uk_user_id kw = Some (us_user_id u) \<and> user_role_of (py_upper role) = Some (get_role u) \<and> us_active u = {} \<and> us_fines u = 0 \<and>
    us_max_borrow_limit u = role_limit (get_role u) \<and> can_borrow u \<and> verify_password env p (us_password_hash u)"
  by (rule create_user_ok [OF assms(1)]) (use assms in \<open>simp add: verify_password_def hash_password_def\<close>)

definition plain_user_env :: user_env where
  "plain_user_env = \<lparr>ue_hash = Cons (CHR ''#''), ue_verify = \<lambda>p h. h = CHR ''#'' # p,
     ue_fromisoformat = \<lambda>t. Inr (int (length t)), ue_isoformat = \<lambda>d. replicate (nat d) (CHR ''d'')\<rparr>"

definition demo_user_kwargs :: user_kwargs where
  "demo_user_kwargs = no_user_kwargs\<lparr>uk_user_id := Some ''U7'', uk_name := Some ''N'', uk_email := Some ''e'', uk_password := Some ''pw''\<rparr>"

theorem created_user_is_fresh_witness:
  "\<exists>u. create_user plain_user_env ''faculty'' demo_user_kwargs = Inr u \<and> us_max_borrow_limit u = 10 \<and>
     verify_password plain_user_env ''pw'' (us_password_hash u)"
proof -
  have r: "user_role_of (py_upper ''faculty'') = Some FACULTY" by code_simp
  obtain u where u: "create_user plain_user_env ''faculty'' demo_user_kwargs = Inr u"
    by (simp add: create_user_def r demo_user_kwargs_def no_user_kwargs_def Let_def)
  from created_user_is_fresh [OF u, of "''pw''"] r u show ?thesis
    by (auto simp: demo_user_kwargs_def no_user_kwargs_def plain_user_env_def role_limit_def)
qed

end
