(* ===== verification/Autocomplete_Trie.thy ===== *)
theory Autocomplete_Trie
  imports Core_Types "HOL-Library.Product_Lexorder"
begin

text \<open>
  The autocomplete trie of \<^verbatim>\<open>libflow/dsa/trie.py\<close>. A node holds its children in an insertion-ordered
  dictionary, so the traversal visits them in the order of the source; a payload is an item, the text to
  display and a weight. \<open>built\<close> is the reference: what a sequence of insertions should make
  findable.
\<close>

section \<open>The trie\<close>

type_synonym payload_entry = "string \<times> string \<times> py_float"

datatype trie_node = TrieNode (children: "(char \<times> trie_node) list") (is_end_of_word: bool) (payloads: "payload_entry list")

definition empty_node :: trie_node where
  "empty_node = TrieNode [] False []"

record autocomplete_trie =
  tt_root :: trie_node
  tt_total_entries :: nat

definition new_trie :: autocomplete_trie where
  "new_trie = \<lparr>tt_root = empty_node, tt_total_entries = 0\<rparr>"

text \<open>The payload loop: an item that is present keeps the larger weight; the flag says that an entry is new.\<close>

fun put_payload :: "payload_entry list \<Rightarrow> payload_entry \<Rightarrow> bool \<times> payload_entry list" where
  "put_payload [] p = (True, [p])"
| "put_payload ((existing_id, disp, w) # ps) (item_id, display_text, weight) =
     (if existing_id = item_id then (False, (item_id, display_text, max w weight) # ps)
      else case put_payload ps (item_id, display_text, weight) of (new, qs) \<Rightarrow> (new, (existing_id, disp, w) # qs))"

fun insert_node :: "trie_node \<Rightarrow> string \<Rightarrow> payload_entry \<Rightarrow> bool \<times> trie_node" where
  "insert_node (TrieNode ch e ps) [] p = (case put_payload ps p of (new, qs) \<Rightarrow> (new, TrieNode ch True qs))"
| "insert_node (TrieNode ch e ps) (c # cs) p =
     (case insert_node (dget_default ch c empty_node) cs p of (new, n) \<Rightarrow> (new, TrieNode (dset ch c n) e ps))"

definition normalize_phrase :: "string \<Rightarrow> string" where
  "normalize_phrase phrase = py_lower (py_strip phrase)"

definition trie_insert :: "autocomplete_trie \<Rightarrow> string \<Rightarrow> string \<Rightarrow> string \<Rightarrow> py_float \<Rightarrow> autocomplete_trie" where
  "trie_insert t phrase item_id display_text weight =
     (if phrase = [] \<or> py_strip phrase = [] then t
      else case insert_node (tt_root t) (normalize_phrase phrase) (item_id, display_text, weight) of
             (new, n) \<Rightarrow> \<lparr>tt_root = n, tt_total_entries = tt_total_entries t + (if new then 1 else 0)\<rparr>)"

fun descend :: "trie_node \<Rightarrow> string \<Rightarrow> trie_node option" where
  "descend n [] = Some n"
| "descend n (c # cs) = (case dget (children n) c of None \<Rightarrow> None | Some m \<Rightarrow> descend m cs)"

definition keep_best :: "(string, string \<times> py_float) dict \<Rightarrow> payload_entry \<Rightarrow> (string, string \<times> py_float) dict" where
  "keep_best best p =
     (case p of (item_id, display_text, weight) \<Rightarrow>
        (case dget best item_id of
           None \<Rightarrow> dset best item_id (display_text, weight)
         | Some (_, w) \<Rightarrow> if weight > w then dset best item_id (display_text, weight) else best))"

lemma children_size: "sum_list (map size (dvalues ch)) < size (TrieNode ch e ps)"
  by (induction ch) auto

text \<open>The stack loop; the head of the list is the top of the stack.\<close>

function traverse :: "trie_node list \<Rightarrow> (string, string \<times> py_float) dict \<Rightarrow> (string, string \<times> py_float) dict" where
  "traverse [] best = best"
| "traverse (TrieNode ch e ps # stack) best =
     traverse (rev (dvalues ch) @ stack) (if e then foldl keep_best best ps else best)"
  by pat_completeness auto
termination
  by (relation "measure (\<lambda>(stack, _). sum_list (map size stack))") (use children_size in \<open>auto simp: rev_map [symmetric]\<close>)

definition suggestion_key :: "string \<times> string \<times> py_float \<Rightarrow> py_float \<times> string" where
  "suggestion_key item = (- snd (snd item), fst (snd item))"

definition search_prefix :: "autocomplete_trie \<Rightarrow> string \<Rightarrow> int \<Rightarrow> (string \<times> string \<times> py_float) list" where
  "search_prefix t query limit =
     (if query = [] then []
      else case descend (tt_root t) (normalize_phrase query) of
             None \<Rightarrow> []
           | Some n \<Rightarrow> py_take limit (sort_key suggestion_key (traverse [n] [])))"

definition trie_size :: "autocomplete_trie \<Rightarrow> nat" where
  "trie_size t = tt_total_entries t"

section \<open>Well-formed tries\<close>

inductive trie_wf :: "trie_node \<Rightarrow> bool" where
  node_wf: "dict_wf ch \<Longrightarrow> (\<And>c n. dget ch c = Some n \<Longrightarrow> trie_wf n) \<Longrightarrow> (ps \<noteq> [] \<Longrightarrow> e) \<Longrightarrow> distinct (map fst ps) \<Longrightarrow> trie_wf (TrieNode ch e ps)"

inductive_cases trie_wfE: "trie_wf (TrieNode ch e ps)"

lemma empty_wf [simp]: "trie_wf empty_node"
  by (auto simp: empty_node_def intro: trie_wf.intros)

lemma put_payload_ids: "set (map fst (snd (put_payload ps p))) = insert (fst p) (set (map fst ps)) \<and> snd (put_payload ps p) \<noteq> []"
  by (induction ps p rule: put_payload.induct) (simp_all add: case_prod_unfold insert_commute)

lemma put_payload_distinct: "distinct (map fst ps) \<Longrightarrow> distinct (map fst (snd (put_payload ps p)))"
proof (induction ps p rule: put_payload.induct)
  case (2 i d w ps j t v)
  show ?case
  proof (cases "i = j")
    case False
    then have "i \<notin> set (map fst (snd (put_payload ps (j, t, v))))" using 2(2) put_payload_ids [of ps "(j, t, v)"] by auto
    then show ?thesis using 2 False by (simp add: case_prod_unfold)
  qed (use 2(2) in simp)
qed simp

lemma insert_wf: "trie_wf n \<Longrightarrow> trie_wf (snd (insert_node n w p))"
proof (induction n w p rule: insert_node.induct)
  case (1 ch e ps p)
  then show ?case by (cases "put_payload ps p") (auto elim!: trie_wfE intro!: trie_wf.intros dest: put_payload_distinct [of ps p])
next
  case (2 ch e ps c cs p)
  have "trie_wf (dget_default ch c empty_node)"
    using 2(2) by (auto simp: dget_default_def elim!: trie_wfE split: option.splits)
  then have "trie_wf (snd (insert_node (dget_default ch c empty_node) cs p))" by (rule 2(1))
  then show ?case using 2(2)
    by (cases "insert_node (dget_default ch c empty_node) cs p") (auto elim!: trie_wfE intro!: trie_wf.intros split: if_splits)
qed

text \<open>The payloads stored under a word, and what an insertion does to them.\<close>

definition stored :: "trie_node \<Rightarrow> string \<Rightarrow> payload_entry list" where
  "stored n w = (case descend n w of None \<Rightarrow> [] | Some m \<Rightarrow> payloads m)"

lemma stored_simps [simp]:
  "stored (TrieNode ch e ps) [] = ps"
  "stored (TrieNode ch e ps) (c # cs) = (case dget ch c of None \<Rightarrow> [] | Some m \<Rightarrow> stored m cs)"
  by (simp_all add: stored_def split: option.splits)

lemma stored_empty [simp]: "stored empty_node w = []"
  by (cases w) (simp_all add: empty_node_def)

lemma stored_insert: "stored (snd (insert_node n w p)) v = (if v = w then snd (put_payload (stored n w) p) else stored n v)"
proof (induction n w p arbitrary: v rule: insert_node.induct)
  case (1 ch e ps p)
  then show ?case by (cases v) (auto split: prod.splits)
next
  case (2 ch e ps c cs p)
  show ?case
  proof (cases v)
    case (Cons d ds)
    then show ?thesis using 2 [of ds]
      by (cases "insert_node (dget_default ch c empty_node) cs p"; cases "dget ch c") (auto simp: dget_default_def)
  qed (auto split: prod.splits)
qed

section \<open>The traversal sees every entry below the prefix\<close>

definition below :: "trie_node \<Rightarrow> payload_entry set" where
  "below n = (\<Union>v. set (stored n v))"

lemma below_node: "dict_wf ch \<Longrightarrow> below (TrieNode ch e ps) = set ps \<union> (\<Union>n \<in> set (dvalues ch). below n)"
proof -
  assume wf: "dict_wf ch"
  have "p \<in> below (TrieNode ch e ps) \<longleftrightarrow> p \<in> set ps \<or> (\<exists>c n v. dget ch c = Some n \<and> p \<in> set (stored n v))" for p
  proof
    assume "p \<in> below (TrieNode ch e ps)"
    then obtain v where "p \<in> set (stored (TrieNode ch e ps) v)" by (auto simp: below_def)
    then show "p \<in> set ps \<or> (\<exists>c n v. dget ch c = Some n \<and> p \<in> set (stored n v))"
      by (cases v) (auto split: option.splits)
  next
    assume "p \<in> set ps \<or> (\<exists>c n v. dget ch c = Some n \<and> p \<in> set (stored n v))"
    then show "p \<in> below (TrieNode ch e ps)"
    proof
      assume "p \<in> set ps"
      then have "p \<in> set (stored (TrieNode ch e ps) [])" by simp
      then show ?thesis unfolding below_def by blast
    next
      assume "\<exists>c n v. dget ch c = Some n \<and> p \<in> set (stored n v)"
      then obtain c n v where "dget ch c = Some n" "p \<in> set (stored n v)" by blast
      then have "p \<in> set (stored (TrieNode ch e ps) (c # v))" by simp
      then show ?thesis unfolding below_def by blast
    qed
  qed
  moreover have "(\<exists>c n v. dget ch c = Some n \<and> p \<in> set (stored n v)) \<longleftrightarrow> p \<in> (\<Union>n \<in> set (dvalues ch). below n)" for p
    by (simp only: UN_iff Bex_def in_dvalues [OF wf] below_def) (fast intro: UNIV_I)
  ultimately show ?thesis by (intro set_eqI) (simp only: Un_iff)
qed

lemma traverse_visits:
  "(\<forall>n \<in> set stack. trie_wf n) \<Longrightarrow> \<exists>xs. traverse stack best = foldl keep_best best xs \<and> set xs = (\<Union>n \<in> set stack. below n)"
proof (induction stack best rule: traverse.induct)
  case (2 ch e ps stack best)
  have wf: "dict_wf ch" "\<forall>n \<in> set (dvalues ch). trie_wf n" "ps \<noteq> [] \<Longrightarrow> e"
    using 2(2) in_dvalues [of ch] by (auto elim!: trie_wfE simp del: set_map)
  let ?b = "if e then foldl keep_best best ps else best"
  obtain xs where xs: "traverse (rev (dvalues ch) @ stack) ?b = foldl keep_best ?b xs" "set xs = (\<Union>n \<in> set (rev (dvalues ch) @ stack). below n)"
    using 2(1) 2(2) wf(2) by (metis (no_types, lifting) Un_iff list.set_intros(2) set_append set_rev)
  have "?b = foldl keep_best best ps" using wf(3) by (cases ps) auto
  then have "traverse (TrieNode ch e ps # stack) best = foldl keep_best best (ps @ xs)" using xs(1) by simp
  moreover have "set (ps @ xs) = (\<Union>n \<in> set (TrieNode ch e ps # stack). below n)" using below_node [OF wf(1), of e ps] xs(2) by auto
  ultimately show ?case by blast
qed simp

section \<open>Autocompletion against its specification\<close>

text \<open>A sequence of insertions, and the weights under which it makes an item findable.\<close>

type_synonym trie_op = "string \<times> string \<times> string \<times> py_float"

definition built :: "trie_op list \<Rightarrow> autocomplete_trie" where
  "built ops = foldl (\<lambda>t (phrase, i, d, w). trie_insert t phrase i d w) new_trie ops"

definition hits :: "trie_op list \<Rightarrow> (string \<Rightarrow> bool) \<Rightarrow> (string \<times> string \<times> py_float) set" where
  "hits ops P = {(i, d, w). \<exists>phrase. (phrase, i, d, w) \<in> set ops \<and> py_strip phrase \<noteq> [] \<and> P (normalize_phrase phrase)}"

definition best_entries :: "(string \<times> string \<times> py_float) set \<Rightarrow> (string, string \<times> py_float) dict \<Rightarrow> bool" where
  "best_entries H best \<longleftrightarrow>
     (\<forall>i. case dget best i of
            None \<Rightarrow> (\<nexists>d w. (i, d, w) \<in> H)
          | Some (d, w) \<Rightarrow> (\<exists>w'. (i, d, w') \<in> H) \<and> (\<exists>d'. (i, d', w) \<in> H) \<and> (\<forall>d' w'. (i, d', w') \<in> H \<longrightarrow> w' \<le> w))"

lemma dget_put_payload:
  "dget (snd (put_payload ps (i, d, w))) j =
     (if j = i then Some (d, case dget ps i of None \<Rightarrow> w | Some (_, w') \<Rightarrow> max w' w) else dget ps j)"
  by (induction ps "(i, d, w)" rule: put_payload.induct) (auto simp: case_prod_unfold)

lemma put_payload_new: "fst (put_payload ps (i, d, w)) \<longleftrightarrow> dget ps i = None"
  by (induction ps "(i, d, w)" rule: put_payload.induct) (auto simp: case_prod_unfold)

lemma put_payload_best: "best_entries H ps \<Longrightarrow> best_entries (insert (i, d, w) H) (snd (put_payload ps (i, d, w)))"
  unfolding best_entries_def dget_put_payload by (fastforce simp: max_def split: option.splits if_splits)

lemma keep_best_best: "best_entries H best \<Longrightarrow> best_entries (insert p H) (keep_best best p)"
  unfolding best_entries_def keep_best_def by (cases p) (fastforce split: option.splits if_splits)

lemma keep_best_wf: "dict_wf best \<Longrightarrow> dict_wf (keep_best best p)"
  by (cases p) (auto simp: keep_best_def split: option.splits)

lemma foldl_keep_best: "best_entries (set xs) (foldl keep_best [] xs) \<and> dict_wf (foldl keep_best [] xs)"
proof (induction xs rule: rev_induct)
  case Nil
  show ?case by (simp add: best_entries_def)
next
  case (snoc x xs)
  then show ?case using keep_best_best [of "set xs" "foldl keep_best [] xs" x] keep_best_wf by simp
qed

lemma built_snoc:
  "built (ops @ [(ph, i, d, w)]) = trie_insert (built ops) ph i d w"
  by (simp add: built_def)

lemma trie_insert_root:
  "py_strip ph \<noteq> [] \<Longrightarrow> tt_root (trie_insert t ph i d w) = snd (insert_node (tt_root t) (normalize_phrase ph) (i, d, w))"
  "py_strip ph = [] \<Longrightarrow> trie_insert t ph i d w = t"
  by (auto simp: trie_insert_def py_strip_def split: prod.splits)

lemma hits_snoc:
  "hits (ops @ [(ph, i, d, w)]) P = (if py_strip ph \<noteq> [] \<and> P (normalize_phrase ph) then insert (i, d, w) (hits ops P) else hits ops P)"
  by (auto simp: hits_def)

lemma built_wf: "trie_wf (tt_root (built ops))"
proof (induction ops rule: rev_induct)
  case Nil
  show ?case by (simp add: built_def new_trie_def)
next
  case (snoc op ops)
  obtain ph i d w where "op = (ph, i, d, w)" by (cases op)
  then show ?case using snoc insert_wf by (cases "py_strip ph = []") (simp_all add: built_snoc trie_insert_root)
qed

lemma built_stored: "best_entries (hits ops (\<lambda>v. v = word)) (stored (tt_root (built ops)) word)"
proof (induction ops rule: rev_induct)
  case Nil
  show ?case by (simp add: built_def new_trie_def best_entries_def hits_def)
next
  case (snoc op ops)
  obtain ph i d w where op: "op = (ph, i, d, w)" by (cases op)
  show ?case
  proof (cases "py_strip ph = []")
    case True
    then show ?thesis using snoc by (simp add: op built_snoc trie_insert_root hits_snoc)
  next
    case False
    then show ?thesis using snoc put_payload_best [OF snoc, of i d w]
      by (auto simp: op built_snoc trie_insert_root hits_snoc stored_insert)
  qed
qed

lemma descend_append: "descend n (q @ v) = (case descend n q of None \<Rightarrow> None | Some m \<Rightarrow> descend m v)"
  by (induction n q rule: descend.induct) (simp_all split: option.splits)

lemma stored_descend: "stored n (q @ v) = (case descend n q of None \<Rightarrow> [] | Some m \<Rightarrow> stored m v)"
  by (simp add: stored_def descend_append split: option.splits)

lemma best_entries_transfer:
  assumes up: "\<And>i d w. (i, d, w) \<in> H' \<Longrightarrow> \<exists>d' w'. (i, d', w') \<in> H \<and> w \<le> w'"
    and down: "\<And>i d w. (i, d, w) \<in> H \<Longrightarrow> (\<exists>d'. (i, d', w) \<in> H') \<and> (\<exists>w'. (i, d, w') \<in> H')"
    and best: "best_entries H b"
  shows "best_entries H' b"
  unfolding best_entries_def
proof
  fix i
  have b: "case dget b i of None \<Rightarrow> (\<nexists>d w. (i, d, w) \<in> H)
      | Some (d, w) \<Rightarrow> (\<exists>w'. (i, d, w') \<in> H) \<and> (\<exists>d'. (i, d', w) \<in> H) \<and> (\<forall>d' w'. (i, d', w') \<in> H \<longrightarrow> w' \<le> w)"
    using best unfolding best_entries_def by blast
  show "case dget b i of None \<Rightarrow> (\<nexists>d w. (i, d, w) \<in> H')
      | Some (d, w) \<Rightarrow> (\<exists>w'. (i, d, w') \<in> H') \<and> (\<exists>d'. (i, d', w) \<in> H') \<and> (\<forall>d' w'. (i, d', w') \<in> H' \<longrightarrow> w' \<le> w)"
  proof (cases "dget b i")
    case None
    then show ?thesis using b up by fastforce
  next
    case (Some p)
    obtain d w where p: "p = (d, w)" by fastforce
    have "w' \<le> w" if "(i, d', w') \<in> H'" for d' w' using up [OF that] b Some p by fastforce
    moreover have "(\<exists>w'. (i, d, w') \<in> H')" "(\<exists>d'. (i, d', w) \<in> H')" using b Some p down by fastforce+
    ultimately show ?thesis unfolding Some p by simp
  qed
qed

lemma below_hits:
  assumes "descend (tt_root (built ops)) q = Some m" "trie_wf m"
  shows "best_entries (below m) b \<Longrightarrow> best_entries (hits ops (prefix q)) b"
proof -
  let ?R = "tt_root (built ops)"
  have in_below: "(i, d, w) \<in> below m \<longleftrightarrow> (\<exists>v. (i, d, w) \<in> set (stored ?R (q @ v)))" for i d w
    using assms(1) by (simp add: below_def stored_descend)
  have wfs: "distinct (map fst (stored ?R v))" for v
  proof -
    have "trie_wf n \<Longrightarrow> distinct (map fst (stored n v))" for n
    proof (induction v arbitrary: n)
      case Nil
      then show ?case by (cases n) (auto elim: trie_wfE)
    next
      case (Cons c v)
      then show ?case by (cases n) (auto elim: trie_wfE split: option.splits)
    qed
    then show ?thesis using built_wf by blast
  qed
  have mem: "(i, d, w) \<in> set (stored ?R v) \<longleftrightarrow> dget (stored ?R v) i = Some (d, w)" for i d w v
    using wfs by simp
  have hit: "(i, d, w) \<in> hits ops (prefix q) \<longleftrightarrow> (\<exists>v. (i, d, w) \<in> hits ops (\<lambda>x. x = q @ v))" for i d w
    by (auto simp: hits_def prefix_def)
  have up: "\<exists>d' w'. (i, d', w') \<in> below m \<and> w \<le> w'" if h: "(i, d, w) \<in> hits ops (prefix q)" for i d w
  proof -
    obtain v where "(i, d, w) \<in> hits ops (\<lambda>x. x = q @ v)" using h hit by blast
    then obtain d' w' where "dget (stored ?R (q @ v)) i = Some (d', w')" "w \<le> w'"
      using built_stored [of ops "q @ v"] unfolding best_entries_def by (force split: option.splits)
    then show ?thesis using in_below mem by blast
  qed
  have down: "(\<exists>d'. (i, d', w) \<in> hits ops (prefix q)) \<and> (\<exists>w'. (i, d, w') \<in> hits ops (prefix q))" if b: "(i, d, w) \<in> below m" for i d w
  proof -
    obtain v where "dget (stored ?R (q @ v)) i = Some (d, w)" using b in_below mem by blast
    then show ?thesis using built_stored [of ops "q @ v"] hit unfolding best_entries_def by (fastforce split: option.splits)
  qed
  show "best_entries (hits ops (prefix q)) b" if "best_entries (below m) b" using up down that by (rule best_entries_transfer)
qed

lemma no_hits: "descend (tt_root (built ops)) q = None \<Longrightarrow> hits ops (prefix q) = {}"
proof (rule ccontr)
  assume none: "descend (tt_root (built ops)) q = None" and "hits ops (prefix q) \<noteq> {}"
  then obtain i d w ph where "(ph, i, d, w) \<in> set ops" "py_strip ph \<noteq> []" "prefix q (normalize_phrase ph)" by (auto simp: hits_def)
  then obtain v where "(i, d, w) \<in> hits ops (\<lambda>x. x = q @ v)" unfolding hits_def prefix_def by blast
  moreover have "stored (tt_root (built ops)) (q @ v) = []" using none by (simp add: stored_descend)
  ultimately show False using built_stored [of ops "q @ v"] by (auto simp: best_entries_def)
qed

text \<open>
  C27: autocompletion returns the right suggestions. After any sequence of insertions, the suggestions for a
  non-empty query are the first ones of one ranking, which does not depend on the limit: it lists every item
  that was inserted under a phrase that starts with the query (ignoring case and surrounding blanks), each
  item once and no other item, with the largest weight it was given under such a phrase and with one of its
  display texts, by decreasing weight and then by text.
\<close>

theorem autocomplete_correct:
  assumes "query \<noteq> []"
  shows "\<exists>full. (\<forall>limit. search_prefix (built ops) query limit = py_take limit full) \<and> sorted (map suggestion_key full) \<and>
    distinct (map fst full) \<and> fst ` set full = fst ` hits ops (prefix (normalize_phrase query)) \<and>
    (\<forall>(i, d, w) \<in> set full. (\<exists>w'. (i, d, w') \<in> hits ops (prefix (normalize_phrase query))) \<and>
       (\<exists>d'. (i, d', w) \<in> hits ops (prefix (normalize_phrase query))) \<and>
       (\<forall>d' w'. (i, d', w') \<in> hits ops (prefix (normalize_phrase query)) \<longrightarrow> w' \<le> w))"
proof (cases "descend (tt_root (built ops)) (normalize_phrase query)")
  case None
  then show ?thesis using no_hits [OF None] assms by (intro exI [of _ "[]"]) (simp add: search_prefix_def py_take_def)
next
  case (Some m)
  let ?H = "hits ops (prefix (normalize_phrase query))"
  let ?best = "traverse [m] []"
  have wfd: "trie_wf n \<Longrightarrow> descend n v = Some k \<Longrightarrow> trie_wf k" for n v k
    by (induction n v rule: descend.induct) (auto elim: trie_wf.cases split: option.splits)
  have wf: "trie_wf m" by (rule wfd [OF built_wf Some])
  obtain xs where xs: "?best = foldl keep_best [] xs" "set xs = below m" using traverse_visits [of "[m]" "[]"] wf by auto
  have best: "best_entries ?H ?best" "dict_wf ?best"
    using foldl_keep_best [of xs] below_hits [OF Some wf] unfolding xs by auto
  have mem: "(i, d, w) \<in> set ?best \<longleftrightarrow> dget ?best i = Some (d, w)" for i d w using dget_in_set [OF best(2)] by auto
  let ?full = "sort_key suggestion_key ?best"
  have "distinct (map fst ?full)"
  proof -
    have "distinct ?best" "inj_on fst (set ?best)" using best(2) by (auto simp: dict_wf_def distinct_map)
    then show ?thesis by (simp add: distinct_map)
  qed
  moreover have "fst ` set ?full = fst ` ?H"
  proof -
    have "i \<in> fst ` set ?best \<longleftrightarrow> dget ?best i \<noteq> None" for i using dget_None [of ?best i] by auto
    moreover have "dget ?best i \<noteq> None \<longleftrightarrow> i \<in> fst ` ?H" for i
      using best(1) unfolding best_entries_def by (force split: option.splits)
    ultimately show ?thesis by auto
  qed
  moreover have "\<forall>(i, d, w) \<in> set ?full. (\<exists>w'. (i, d, w') \<in> ?H) \<and> (\<exists>d'. (i, d', w) \<in> ?H) \<and> (\<forall>d' w'. (i, d', w') \<in> ?H \<longrightarrow> w' \<le> w)"
    using best(1) mem unfolding best_entries_def by (fastforce split: option.splits)
  moreover have "search_prefix (built ops) query limit = py_take limit ?full" for limit
    using Some assms by (simp add: search_prefix_def)
  ultimately show ?thesis by (intro exI [of _ ?full]) simp
qed

theorem autocomplete_correct_witness:
  "\<exists>full. (\<forall>limit. search_prefix (built [(''Clean Code'', ''I1'', ''Clean Code'', 4), ('' clean up'', ''I2'', ''Up'', 5)]) ''CLEAN'' limit = py_take limit full) \<and>
     fst ` set full = {''I1'', ''I2''}"
proof -
  let ?ops = "[(''Clean Code'', ''I1'', ''Clean Code'', 4), ('' clean up'', ''I2'', ''Up'', 5)] :: trie_op list"
  have n: "normalize_phrase ''CLEAN'' = ''clean''" "normalize_phrase ''Clean Code'' = ''clean code''" "normalize_phrase '' clean up'' = ''clean up''"
    "py_strip ''Clean Code'' = ''Clean Code''" "py_strip '' clean up'' = ''clean up''"
    by code_simp+
  have "fst ` hits ?ops (prefix (normalize_phrase ''CLEAN'')) = {''I1'', ''I2''}"
    by (auto simp: hits_def n image_iff)
  then show ?thesis using autocomplete_correct [of "''CLEAN''" ?ops] by auto
qed

end
