(* ===== verification/Inverted_Index.thy ===== *)
theory Inverted_Index
  imports Books
begin

text \<open>
  The inverted index of \<^verbatim>\<open>libflow/dsa/inverted_index.py\<close>. The index keeps references to the book objects
  of the repository; here a reference is the ISBN, and a search is given the function that follows it, so
  that it sees the present state of a book. Two things of the environment are parameters: \<open>math.log\<close>, and the
  order in which Python iterates over a set of strings, of which only is assumed that it lists every element
  once. The regular expression of the tokenizer is modelled by its matching algorithm, on ASCII text.
\<close>

section \<open>Tokens\<close>

text \<open>The expression is a word boundary, then characters of the class as many as possible, then a word boundary.\<close>

definition char_between :: "char \<Rightarrow> nat \<Rightarrow> nat \<Rightarrow> bool" where
  "char_between c a b \<longleftrightarrow> a \<le> (of_char c :: nat) \<and> (of_char c :: nat) \<le> b"

definition is_word :: "char \<Rightarrow> bool" where
  "is_word c \<longleftrightarrow> char_between c 97 122 \<or> char_between c 65 90 \<or> char_between c 48 57 \<or> c = CHR ''_''"

definition in_class :: "char \<Rightarrow> bool" where
  "in_class c \<longleftrightarrow> is_word c \<or> c \<in> {CHR ''#'', CHR ''+'', CHR ''.'', CHR ''-''}"

definition word_at :: "string \<Rightarrow> nat \<Rightarrow> bool" where
  "word_at s i \<longleftrightarrow> i < length s \<and> is_word (s ! i)"

definition boundary :: "string \<Rightarrow> nat \<Rightarrow> bool" where
  "boundary s i \<longleftrightarrow> (0 < i \<and> word_at s (i - 1)) \<noteq> word_at s i"

definition run_end :: "string \<Rightarrow> nat \<Rightarrow> nat" where
  "run_end s i = i + length (takeWhile in_class (drop i s))"

text \<open>The greedy match with its backtracking: the last boundary of the run.\<close>

definition match_end :: "string \<Rightarrow> nat \<Rightarrow> nat option" where
  "match_end s i = (if boundary s i then find (boundary s) (rev [Suc i..<Suc (run_end s i)]) else None)"

lemma find_SomeD: "find P xs = Some x \<Longrightarrow> x \<in> set xs \<and> P x"
  by (induction xs) (auto split: if_splits)

lemma match_end_Some: "match_end s i = Some j \<Longrightarrow> i < j \<and> j \<le> run_end s i \<and> boundary s i \<and> boundary s j"
  by (auto simp: match_end_def split: if_splits dest!: find_SomeD)

function findall :: "string \<Rightarrow> nat \<Rightarrow> string list" where
  "findall s i =
     (if i < length s
      then (case match_end s i of
              Some j \<Rightarrow> take (j - i) (drop i s) # findall s j
            | None \<Rightarrow> findall s (Suc i))
      else [])"
  by pat_completeness auto
termination
  by (relation "measure (\<lambda>(s, i). length s - i)") (auto dest!: match_end_Some)

declare findall.simps [simp del]

definition tokenize :: "string \<Rightarrow> string list" where
  "tokenize text = (if text = [] then [] else findall (py_lower text) 0)"

text \<open>A token is a non-empty piece of the text made of characters of the class.\<close>

lemma findall_tokens: "t \<in> set (findall s i) \<Longrightarrow> t \<noteq> [] \<and> list_all in_class t"
proof (induction s i rule: findall.induct)
  case (1 s i)
  show ?case
  proof (cases "i < length s \<and> match_end s i \<noteq> None")
    case False
    then show ?thesis using 1 by (subst (asm) findall.simps) (auto split: if_splits option.splits)
  next
    case True
    then obtain j where j: "match_end s i = Some j" by auto
    note m = match_end_Some [OF j]
    let ?t = "take (j - i) (drop i s)"
    have "?t = take (j - i) (takeWhile in_class (drop i s))"
    proof -
      have "j - i \<le> length (takeWhile in_class (drop i s))" using m unfolding run_end_def by linarith
      then show ?thesis by (metis takeWhile_eq_take take_take min.absorb1)
    qed
    then have "list_all in_class ?t" by (metis (no_types, lifting) in_set_takeD list_all_iff set_takeWhileD)
    moreover have "?t \<noteq> []" using m True by auto
    moreover have "t = ?t \<or> t \<in> set (findall s j)" using 1(3) True j by (subst (asm) findall.simps) auto
    ultimately show ?thesis using 1(2) [OF _ j] True by auto
  qed
qed

section \<open>The index\<close>

record inv_index =
  ix_index :: "(string, string set) dict"
  ix_doc_term_freq :: "(string, (string, nat) dict) dict"
  ix_books :: "string set"
  ix_doc_lengths :: "(string, nat) dict"

definition new_index :: inv_index where
  "new_index = \<lparr>ix_index = [], ix_doc_term_freq = [], ix_books = {}, ix_doc_lengths = []\<rparr>"

definition times_list :: "nat \<Rightarrow> 'a list \<Rightarrow> 'a list" where
  "times_list n xs = concat (replicate n xs)"

definition book_tokens :: "book \<Rightarrow> string list" where
  "book_tokens b =
     [filter (\<lambda>c. c \<noteq> CHR ''-'') (py_lower (bk_isbn b)), py_lower (bk_isbn b)] @
     times_list 3 (tokenize (bk_title b)) @
     concat (map (\<lambda>a. times_list 2 (tokenize a)) (bk_authors b)) @
     times_list 2 (tokenize (bk_category b)) @
     concat (map (\<lambda>k. times_list 2 (tokenize k)) (bk_keywords b)) @
     tokenize (bk_description b)"

definition posting :: "inv_index \<Rightarrow> string \<Rightarrow> string set" where
  "posting ix term = dget_default (ix_index ix) term {}"

definition doc_terms :: "inv_index \<Rightarrow> string \<Rightarrow> (string, nat) dict" where
  "doc_terms ix isbn = dget_default (ix_doc_term_freq ix) isbn []"

definition add_token :: "string \<Rightarrow> inv_index \<Rightarrow> string \<Rightarrow> inv_index" where
  "add_token isbn ix token =
     ix\<lparr>ix_index := dset (ix_index ix) token (insert isbn (posting ix token)),
        ix_doc_term_freq := dset (ix_doc_term_freq ix) isbn
          (dset (doc_terms ix isbn) token (dget_default (doc_terms ix isbn) token 0 + 1))\<rparr>"

definition discard_term :: "string \<Rightarrow> inv_index \<Rightarrow> string \<Rightarrow> inv_index" where
  "discard_term isbn ix term = ix\<lparr>ix_index := dset (ix_index ix) term (posting ix term - {isbn})\<rparr>"

definition index_book :: "inv_index \<Rightarrow> book \<Rightarrow> inv_index" where
  "index_book ix b =
     (let isbn = bk_isbn b;
          ix = ix\<lparr>ix_books := insert isbn (ix_books ix)\<rparr>;
          ix = foldl (discard_term isbn) ix (dkeys (doc_terms ix isbn));
          ix = ix\<lparr>ix_doc_term_freq := dset (ix_doc_term_freq ix) isbn []\<rparr>;
          tokens = book_tokens b;
          ix = ix\<lparr>ix_doc_lengths := dset (ix_doc_lengths ix) isbn (length tokens)\<rparr>
      in foldl (add_token isbn) ix tokens)"

definition drop_term :: "string \<Rightarrow> inv_index \<Rightarrow> string \<Rightarrow> inv_index" where
  "drop_term isbn ix term =
     (case dget (ix_index ix) term of
        None \<Rightarrow> ix
      | Some docs \<Rightarrow>
          if docs - {isbn} = {} then ix\<lparr>ix_index := dpop (ix_index ix) term\<rparr>
          else ix\<lparr>ix_index := dset (ix_index ix) term (docs - {isbn})\<rparr>)"

definition index_remove_book :: "inv_index \<Rightarrow> string \<Rightarrow> inv_index" where
  "index_remove_book ix isbn =
     (let ix = ix\<lparr>ix_books := ix_books ix - {isbn}\<rparr>;
          ix = foldl (drop_term isbn) ix (dkeys (doc_terms ix isbn))
      in ix\<lparr>ix_doc_term_freq := dpop (ix_doc_term_freq ix) isbn, ix_doc_lengths := dpop (ix_doc_lengths ix) isbn\<rparr>)"

section \<open>Search\<close>

record search_filter =
  sf_category :: "string option"
  sf_author :: "string option"
  sf_min_rating :: "py_float option"
  sf_only_available :: bool

definition no_filter :: "search_filter \<Rightarrow> bool" where
  "no_filter f \<longleftrightarrow> \<not> truthy (sf_category f) \<and> \<not> truthy (sf_author f) \<and> sf_min_rating f = None \<and> \<not> sf_only_available f"

definition passes :: "copy_heap \<Rightarrow> search_filter \<Rightarrow> book \<Rightarrow> bool" where
  "passes h f b \<longleftrightarrow>
     (truthy (sf_category f) \<longrightarrow> py_in (py_lower (the (sf_category f))) (py_lower (bk_category b))) \<and>
     (truthy (sf_author f) \<longrightarrow> (\<exists>a \<in> set (bk_authors b). py_in (py_lower (the (sf_author f))) (py_lower a))) \<and>
     (case sf_min_rating f of None \<Rightarrow> True | Some r \<Rightarrow> \<not> bk_rating b < r) \<and>
     (sf_only_available f \<longrightarrow> is_available h b)"

definition candidate_isbns :: "inv_index \<Rightarrow> string list \<Rightarrow> string set" where
  "candidate_isbns ix query_tokens =
     (if query_tokens \<noteq> [] then (\<Union>t \<in> set query_tokens. posting ix t) else ix_books ix)"

definition total_docs :: "inv_index \<Rightarrow> nat" where
  "total_docs ix = max 1 (card (ix_books ix))"

definition relevance_score :: "(py_float \<Rightarrow> py_float) \<Rightarrow> inv_index \<Rightarrow> string list \<Rightarrow> string \<Rightarrow> py_float" where
  "relevance_score math_log ix query_tokens isbn =
     (let doc_len = dget_default (ix_doc_lengths ix) isbn 1
      in (\<Sum>token \<leftarrow> query_tokens.
            let tf = dget_default (doc_terms ix isbn) token 0
            in if tf > 0
               then let df = card (posting ix token);
                        idf = math_log ((of_nat (total_docs ix) - of_nat df + 1/2) / (of_nat df + 1/2) + 1)
                    in (of_nat tf / of_nat doc_len) * idf
               else 0))"

definition final_score :: "(py_float \<Rightarrow> py_float) \<Rightarrow> copy_heap \<Rightarrow> inv_index \<Rightarrow> string list \<Rightarrow> string \<Rightarrow> book \<Rightarrow> py_float" where
  "final_score math_log h ix query_tokens isbn b =
     py_round (relevance_score math_log ix query_tokens isbn + bk_rating b * (1/10) + (if is_available h b then 1/2 else 0)) 4"

definition search ::
  "(py_float \<Rightarrow> py_float) \<Rightarrow> (string set \<Rightarrow> string list) \<Rightarrow> copy_heap \<Rightarrow> (string \<Rightarrow> book option) \<Rightarrow> inv_index \<Rightarrow>
   string \<Rightarrow> search_filter \<Rightarrow> int \<Rightarrow> (book \<times> py_float) list" where
  "search math_log set_order h live ix query f limit =
     (let query_tokens = tokenize query
      in if query_tokens = [] \<and> no_filter f then []
         else let ranked = List.map_filter
                (\<lambda>isbn. if isbn \<in> ix_books ix
                        then (case live isbn of
                                None \<Rightarrow> None
                              | Some b \<Rightarrow> if passes h f b then Some (b, final_score math_log h ix query_tokens isbn b) else None)
                        else None)
                (set_order (candidate_isbns ix query_tokens))
              in py_take limit (sort_key (\<lambda>r. - snd r) ranked))"

section \<open>The index refines a map from titles to their tokens\<close>

definition indexes :: "inv_index \<Rightarrow> (string \<rightharpoonup> string list) \<Rightarrow> bool" where
  "indexes ix docs \<longleftrightarrow>
     ix_books ix = dom docs \<and>
     (\<forall>t i. i \<in> posting ix t \<longleftrightarrow> (\<exists>toks. docs i = Some toks \<and> t \<in> set toks)) \<and>
     (\<forall>i t. dget_default (doc_terms ix i) t 0 = (case docs i of None \<Rightarrow> 0 | Some toks \<Rightarrow> count_list toks t)) \<and>
     (\<forall>i. set (dkeys (doc_terms ix i)) = (case docs i of None \<Rightarrow> {} | Some toks \<Rightarrow> set toks)) \<and>
     (\<forall>i. dget (ix_doc_lengths ix) i = map_option length (docs i))"

lemma dget_default_dset [simp]: "dget_default (dset d k v) x e = (if x = k then v else dget_default d x e)"
  by (simp add: dget_default_def)

lemma add_token_fields [simp]:
  "posting (add_token isbn ix t) u = (if u = t then insert isbn (posting ix t) else posting ix u)"
  "doc_terms (add_token isbn ix t) i =
     (if i = isbn then dset (doc_terms ix isbn) t (dget_default (doc_terms ix isbn) t 0 + 1) else doc_terms ix i)"
  "ix_books (add_token isbn ix t) = ix_books ix" "ix_doc_lengths (add_token isbn ix t) = ix_doc_lengths ix"
  by (simp_all add: add_token_def posting_def doc_terms_def)

lemma add_tokens:
  "posting (foldl (add_token isbn) ix toks) u = (if u \<in> set toks then insert isbn (posting ix u) else posting ix u)"
  "dget_default (doc_terms (foldl (add_token isbn) ix toks) i) u 0 =
     dget_default (doc_terms ix i) u 0 + (if i = isbn then count_list toks u else 0)"
  "set (dkeys (doc_terms (foldl (add_token isbn) ix toks) i)) = set (dkeys (doc_terms ix i)) \<union> (if i = isbn then set toks else {})"
  "ix_books (foldl (add_token isbn) ix toks) = ix_books ix" "ix_doc_lengths (foldl (add_token isbn) ix toks) = ix_doc_lengths ix"
  by (induction toks arbitrary: ix) (auto simp del: set_map)

lemma discard_fields [simp]:
  "posting (discard_term isbn ix t) u = (if u = t then posting ix t - {isbn} else posting ix u)"
  "doc_terms (discard_term isbn ix t) i = doc_terms ix i"
  "ix_books (discard_term isbn ix t) = ix_books ix" "ix_doc_lengths (discard_term isbn ix t) = ix_doc_lengths ix"
  "ix_doc_term_freq (discard_term isbn ix t) = ix_doc_term_freq ix"
  by (simp_all add: discard_term_def posting_def doc_terms_def)

lemma discard_terms:
  "posting (foldl (discard_term isbn) ix ts) u = (if u \<in> set ts then posting ix u - {isbn} else posting ix u)"
  "ix_doc_term_freq (foldl (discard_term isbn) ix ts) = ix_doc_term_freq ix"
  "ix_books (foldl (discard_term isbn) ix ts) = ix_books ix" "ix_doc_lengths (foldl (discard_term isbn) ix ts) = ix_doc_lengths ix"
  by (induction ts arbitrary: ix) auto

lemma drop_fields [simp]:
  "posting (drop_term isbn ix t) u = (if u = t then posting ix t - {isbn} else posting ix u)"
  "ix_books (drop_term isbn ix t) = ix_books ix" "ix_doc_lengths (drop_term isbn ix t) = ix_doc_lengths ix"
  "ix_doc_term_freq (drop_term isbn ix t) = ix_doc_term_freq ix"
  by (auto simp: drop_term_def posting_def dget_default_def split: option.splits)

lemma drop_terms:
  "posting (foldl (drop_term isbn) ix ts) u = (if u \<in> set ts then posting ix u - {isbn} else posting ix u)"
  "ix_doc_term_freq (foldl (drop_term isbn) ix ts) = ix_doc_term_freq ix"
  "ix_books (foldl (drop_term isbn) ix ts) = ix_books ix" "ix_doc_lengths (foldl (drop_term isbn) ix ts) = ix_doc_lengths ix"
  by (induction ts arbitrary: ix) auto

text \<open>The index after the old postings of a title are gone.\<close>

lemma cleared_posting:
  assumes "indexes ix docs"
  shows "i \<in> (if u \<in> set (dkeys (doc_terms ix isbn)) then posting ix u - {isbn} else posting ix u) \<longleftrightarrow>
    i \<noteq> isbn \<and> (\<exists>toks. docs i = Some toks \<and> u \<in> set toks)"
  using assms unfolding indexes_def by (auto simp del: set_map split: option.splits)

lemma index_book_indexes:
  assumes "indexes ix docs"
  shows "indexes (index_book ix b) (docs(bk_isbn b \<mapsto> book_tokens b))"
proof -
  let ?i = "bk_isbn b" and ?ts = "book_tokens b"
  let ?ix1 = "ix\<lparr>ix_books := insert ?i (ix_books ix)\<rparr>"
  let ?ix2 = "foldl (discard_term ?i) ?ix1 (dkeys (doc_terms ix ?i))"
  let ?ix3 = "?ix2\<lparr>ix_doc_term_freq := dset (ix_doc_term_freq ?ix2) ?i [], ix_doc_lengths := dset (ix_doc_lengths ?ix2) ?i (length ?ts)\<rparr>"
  have run: "index_book ix b = foldl (add_token ?i) ?ix3 ?ts" by (simp add: index_book_def Let_def doc_terms_def)
  have p1: "posting ?ix1 u = posting ix u" for u by (simp add: posting_def)
  have p3: "posting ?ix3 u = posting ?ix2 u" for u by (simp add: posting_def)
  have post: "x \<in> posting ?ix3 u \<longleftrightarrow> x \<noteq> ?i \<and> (\<exists>toks. docs x = Some toks \<and> u \<in> set toks)" for x u
    unfolding p3 discard_terms(1) p1 using cleared_posting [OF assms] by blast
  have terms: "doc_terms ?ix3 x = (if x = ?i then [] else doc_terms ix x)" for x by (simp add: doc_terms_def discard_terms(2))
  have books: "ix_books ?ix3 = insert ?i (ix_books ix)" by (simp add: discard_terms)
  have lens: "ix_doc_lengths ?ix3 = dset (ix_doc_lengths ix) ?i (length ?ts)" by (simp add: discard_terms)
  show ?thesis unfolding indexes_def run add_tokens terms books lens
  proof (intro conjI allI)
    show "insert ?i (ix_books ix) = dom (docs(?i \<mapsto> ?ts))" using assms by (auto simp: indexes_def)
    show "x \<in> (if u \<in> set ?ts then insert ?i (posting ?ix3 u) else posting ?ix3 u) \<longleftrightarrow>
        (\<exists>toks. (docs(?i \<mapsto> ?ts)) x = Some toks \<and> u \<in> set toks)" for u x using post [of x u] by auto
    show "dget_default (if x = ?i then [] else doc_terms ix x) u 0 + (if x = ?i then count_list ?ts u else 0) =
        (case (docs(?i \<mapsto> ?ts)) x of None \<Rightarrow> 0 | Some toks \<Rightarrow> count_list toks u)" for x u
      using assms by (simp add: indexes_def dget_default_def)
    show "set (dkeys (if x = ?i then [] else doc_terms ix x)) \<union> (if x = ?i then set ?ts else {}) =
        (case (docs(?i \<mapsto> ?ts)) x of None \<Rightarrow> {} | Some toks \<Rightarrow> set toks)" for x
      using assms by (simp add: indexes_def)
    show "dget (dset (ix_doc_lengths ix) ?i (length ?ts)) x = map_option length ((docs(?i \<mapsto> ?ts)) x)" for x
      using assms by (simp add: indexes_def)
  qed
qed

lemma remove_book_indexes:
  assumes "indexes ix docs"
  shows "indexes (index_remove_book ix isbn) (docs(isbn := None))"
proof -
  let ?ix1 = "ix\<lparr>ix_books := ix_books ix - {isbn}\<rparr>"
  let ?ix2 = "foldl (drop_term isbn) ?ix1 (dkeys (doc_terms ix isbn))"
  let ?ix3 = "?ix2\<lparr>ix_doc_term_freq := dpop (ix_doc_term_freq ?ix2) isbn, ix_doc_lengths := dpop (ix_doc_lengths ?ix2) isbn\<rparr>"
  have run: "index_remove_book ix isbn = ?ix3" by (simp add: index_remove_book_def Let_def doc_terms_def)
  have p1: "posting ?ix1 u = posting ix u" for u by (simp add: posting_def)
  have p3: "posting ?ix3 u = posting ?ix2 u" for u by (simp add: posting_def)
  have post: "x \<in> posting ?ix3 u \<longleftrightarrow> x \<noteq> isbn \<and> (\<exists>toks. docs x = Some toks \<and> u \<in> set toks)" for x u
    unfolding p3 drop_terms(1) p1 using cleared_posting [OF assms] by blast
  have terms: "doc_terms ?ix3 x = (if x = isbn then [] else doc_terms ix x)" for x by (simp add: doc_terms_def drop_terms(2) dget_default_def)
  have books: "ix_books ?ix3 = ix_books ix - {isbn}" by (simp add: drop_terms)
  have lens: "ix_doc_lengths ?ix3 = dpop (ix_doc_lengths ix) isbn" by (simp add: drop_terms)
  show ?thesis unfolding indexes_def run terms books lens
  proof (intro conjI allI)
    show "ix_books ix - {isbn} = dom (docs(isbn := None))" using assms by (auto simp: indexes_def)
    show "x \<in> posting ?ix3 u \<longleftrightarrow> (\<exists>toks. (docs(isbn := None)) x = Some toks \<and> u \<in> set toks)" for u x using post [of x u] by auto
    show "dget_default (if x = isbn then [] else doc_terms ix x) u 0 =
        (case (docs(isbn := None)) x of None \<Rightarrow> 0 | Some toks \<Rightarrow> count_list toks u)" for x u
      using assms by (simp add: indexes_def dget_default_def)
    show "set (dkeys (if x = isbn then [] else doc_terms ix x)) = (case (docs(isbn := None)) x of None \<Rightarrow> {} | Some toks \<Rightarrow> set toks)" for x
      using assms by (simp add: indexes_def)
    show "dget (dpop (ix_doc_lengths ix) isbn) x = map_option length ((docs(isbn := None)) x)" for x
      using assms by (simp add: indexes_def)
  qed
qed

lemma new_index_indexes: "indexes new_index Map.empty"
  by (simp add: indexes_def new_index_def posting_def doc_terms_def dget_default_def)

text \<open>Any sequence of indexing and removal, and the map it stands for.\<close>

datatype index_op = IndexBook book | RemoveBook string

fun index_step :: "inv_index \<Rightarrow> index_op \<Rightarrow> inv_index" where
  "index_step ix (IndexBook b) = index_book ix b"
| "index_step ix (RemoveBook isbn) = index_remove_book ix isbn"

fun docs_step :: "(string \<rightharpoonup> string list) \<Rightarrow> index_op \<Rightarrow> (string \<rightharpoonup> string list)" where
  "docs_step docs (IndexBook b) = docs(bk_isbn b \<mapsto> book_tokens b)"
| "docs_step docs (RemoveBook isbn) = docs(isbn := None)"

text \<open>
  C24: the inverted index refines a map from titles to their tokens. After any sequence of indexing, re-indexing
  and removal, the postings of a term are exactly the titles whose present tokens contain it, the term
  frequencies count it, the document length is the number of tokens, and nothing of a removed or re-indexed
  title is left behind.
\<close>

theorem index_refines_token_map:
  "indexes (foldl index_step new_index ops) (foldl docs_step Map.empty ops)"
proof (induction ops rule: rev_induct)
  case Nil
  show ?case by (simp add: new_index_indexes)
next
  case (snoc op ops)
  then show ?case using index_book_indexes [OF snoc] remove_book_indexes [OF snoc]
    by (cases op) (simp_all add: fun_upd_def)
qed

section \<open>Search returns exactly the matching titles\<close>

text \<open>The matching titles of a query, in terms of the tokens.\<close>

definition matches :: "copy_heap \<Rightarrow> (string \<Rightarrow> book option) \<Rightarrow> (string \<rightharpoonup> string list) \<Rightarrow> string \<Rightarrow> search_filter \<Rightarrow> book set" where
  "matches h live docs query f =
     {b. \<exists>isbn toks. docs isbn = Some toks \<and> live isbn = Some b \<and> passes h f b \<and>
           (if tokenize query = [] then \<not> no_filter f else set (tokenize query) \<inter> set toks \<noteq> {})}"

lemma sort_limit_sorted: "sorted_wrt (\<lambda>a b. k b \<le> (k a :: py_float)) (py_take limit (sort_key (\<lambda>r. - k r) xs))"
proof -
  have "sorted (map (\<lambda>r. - k r) (sort_key (\<lambda>r. - k r) xs))" by (rule sorted_sort_key)
  then have "sorted_wrt (\<lambda>a b. k b \<le> k a) (sort_key (\<lambda>r. - k r) xs)" by (simp add: sorted_map sorted_wrt_map)
  then show ?thesis by (rule sorted_wrt_py_take)
qed

lemma map_filter_image: "set (List.map_filter f xs) = {y. \<exists>x \<in> set xs. f x = Some y}"
  by (induction xs) (auto simp: map_filter_simps split: option.splits)

lemma map_filter_length: "length (List.map_filter f xs) \<le> length xs"
  by (induction xs) (auto simp: map_filter_simps split: option.splits)

lemma map_filter_distinct:
  "distinct xs \<Longrightarrow> (\<And>x y. x \<in> set xs \<Longrightarrow> f x = Some y \<Longrightarrow> k y = x) \<Longrightarrow> distinct (map k (List.map_filter f xs))"
proof (induction xs)
  case (Cons x xs)
  have ih: "distinct (map k (List.map_filter f xs))" using Cons by auto
  show ?case
  proof (cases "f x")
    case (Some y)
    have "k y \<notin> set (map k (List.map_filter f xs))"
    proof
      assume "k y \<in> set (map k (List.map_filter f xs))"
      then obtain x' z where "x' \<in> set xs" "f x' = Some z" "k z = k y" by (auto simp: map_filter_image)
      then show False using Cons.prems Some by (metis distinct.simps(2) list.set_intros)
    qed
    then show ?thesis using ih Some by (simp add: map_filter_simps)
  qed (use ih in \<open>simp add: map_filter_simps\<close>)
qed (simp add: map_filter_simps)

definition ranked_books ::
  "(py_float \<Rightarrow> py_float) \<Rightarrow> (string set \<Rightarrow> string list) \<Rightarrow> copy_heap \<Rightarrow> (string \<rightharpoonup> book) \<Rightarrow> inv_index \<Rightarrow> string \<Rightarrow> search_filter \<Rightarrow> (book \<times> py_float) list" where
  "ranked_books math_log set_order h live ix query f =
     List.map_filter (\<lambda>isbn. if isbn \<in> ix_books ix
       then (case live isbn of None \<Rightarrow> None
             | Some b \<Rightarrow> if passes h f b then Some (b, final_score math_log h ix (tokenize query) isbn b) else None) else None)
       (set_order (candidate_isbns ix (tokenize query)))"

lemma search_ranked:
  "\<not> (tokenize query = [] \<and> no_filter f) \<Longrightarrow> search math_log set_order h live ix query f limit =
     py_take limit (sort_key (\<lambda>r. - snd r) (ranked_books math_log set_order h live ix query f))"
  by (auto simp: search_def ranked_books_def Let_def)

lemma candidate_iff:
  "indexes ix docs \<Longrightarrow> isbn \<in> candidate_isbns ix q \<longleftrightarrow> (\<exists>toks. docs isbn = Some toks \<and> (q = [] \<or> set q \<inter> set toks \<noteq> {}))"
  unfolding candidate_isbns_def indexes_def by (auto simp: dom_def)

lemma candidates_indexed: "indexes ix docs \<Longrightarrow> candidate_isbns ix q \<subseteq> dom docs"
  by (auto simp: candidate_iff)

lemma ranked_matches:
  assumes ix: "indexes ix docs" and ord: "set (set_order (candidate_isbns ix (tokenize query))) = candidate_isbns ix (tokenize query)"
    and some: "\<not> (tokenize query = [] \<and> no_filter f)"
  shows "fst ` set (ranked_books math_log set_order h live ix query f) = matches h live docs query f"
proof (rule set_eqI)
  fix b
  have books: "ix_books ix = dom docs" using ix by (simp add: indexes_def)
  have "b \<in> fst ` set (ranked_books math_log set_order h live ix query f) \<longleftrightarrow>
      (\<exists>isbn \<in> candidate_isbns ix (tokenize query). live isbn = Some b \<and> passes h f b)"
    using candidates_indexed [OF ix, of "tokenize query"] unfolding ranked_books_def map_filter_image ord books
    by (force split: option.splits if_splits)
  also have "\<dots> \<longleftrightarrow> b \<in> matches h live docs query f"
  proof (cases "tokenize query = []")
    case True
    then have "\<not> no_filter f" using some by blast
    then show ?thesis using True unfolding Bex_def candidate_iff [OF ix] matches_def mem_Collect_eq by (simp only: if_True simp_thms) blast
  next
    case False
    then show ?thesis unfolding Bex_def candidate_iff [OF ix] matches_def mem_Collect_eq by (simp only: if_False simp_thms) blast
  qed
  finally show "b \<in> fst ` set (ranked_books math_log set_order h live ix query f) \<longleftrightarrow> b \<in> matches h live docs query f" .
qed

lemma ranked_distinct:
  assumes "distinct (set_order (candidate_isbns ix (tokenize query)))" "\<And>i b. live i = Some b \<Longrightarrow> bk_isbn b = i"
  shows "distinct (map (\<lambda>r. bk_isbn (fst r)) (ranked_books math_log set_order h live ix query f))"
  unfolding ranked_books_def by (rule map_filter_distinct [OF assms(1)]) (use assms(2) in \<open>auto split: option.splits if_splits\<close>)


definition demo_indexed :: "string \<Rightarrow> string \<Rightarrow> book" where
  "demo_indexed isbn title = \<lparr>bk_isbn = isbn, bk_title = title, bk_authors = [], bk_category = [], bk_publication_year = 2024,
     bk_publisher = [], bk_description = [], bk_rating = 4, bk_difficulty_level = [], bk_keywords = [],
     bk_borrow_history_count = 0, bk_details = AudioBook [] 1 []\<rparr>"


end
