(* ===== verification/Graph_Engine.thy ===== *)
theory Graph_Engine
  imports Core_Types
begin

text \<open>
  The book graph of \<^verbatim>\<open>libflow/dsa/graph.py\<close>: adjacency lists and metadata per title, the breadth-first
  search for a shortest connection, the depth-first learning path and the two-hop recommendations. The
  queue of the search holds whole paths, as in the source; the recursion of the learning path threads the
  visited set and the path through the calls.
\<close>

section \<open>The graph\<close>

record edge =
  ed_target_isbn :: string
  ed_weight :: py_float
  ed_relation_type :: string

record book_meta =
  mt_isbn :: string
  mt_title :: "string option"
  mt_category :: "string option"
  mt_rating :: "py_float option"

record book_graph =
  gr_adj_list :: "(string, edge list) dict"
  gr_nodes_meta :: "(string, book_meta) dict"

definition new_graph :: book_graph where
  "new_graph = \<lparr>gr_adj_list = [], gr_nodes_meta = []\<rparr>"

definition has_node :: "book_graph \<Rightarrow> string \<Rightarrow> bool" where
  "has_node g isbn \<longleftrightarrow> isbn \<in> set (dkeys (gr_adj_list g))"

definition add_book_node :: "book_graph \<Rightarrow> string \<Rightarrow> string \<Rightarrow> string \<Rightarrow> py_float \<Rightarrow> book_graph" where
  "add_book_node g isbn title category rating =
     (let g = (if \<not> has_node g isbn then g\<lparr>gr_adj_list := dset (gr_adj_list g) isbn []\<rparr> else g)
      in g\<lparr>gr_nodes_meta := dset (gr_nodes_meta g) isbn
             \<lparr>mt_isbn = isbn, mt_title = Some title, mt_category = Some category, mt_rating = Some rating\<rparr>\<rparr>)"

definition edges_of :: "book_graph \<Rightarrow> string \<Rightarrow> edge list" where
  "edges_of g isbn = dget_default (gr_adj_list g) isbn []"

definition add_edge :: "book_graph \<Rightarrow> string \<Rightarrow> edge \<Rightarrow> book_graph" where
  "add_edge g isbn e = g\<lparr>gr_adj_list := dset (gr_adj_list g) isbn (edges_of g isbn @ [e])\<rparr>"

definition add_relation :: "book_graph \<Rightarrow> string \<Rightarrow> string \<Rightarrow> py_float \<Rightarrow> string \<Rightarrow> bool \<Rightarrow> book_graph" where
  "add_relation g from_isbn to_isbn weight relation_type bidirectional =
     (let g = (if \<not> has_node g from_isbn then add_book_node g from_isbn (''Book '' @ from_isbn) ''General'' 4 else g);
          g = (if \<not> has_node g to_isbn then add_book_node g to_isbn (''Book '' @ to_isbn) ''General'' 4 else g);
          g = add_edge g from_isbn \<lparr>ed_target_isbn = to_isbn, ed_weight = weight, ed_relation_type = relation_type\<rparr>
      in if bidirectional
         then add_edge g to_isbn \<lparr>ed_target_isbn = from_isbn, ed_weight = weight, ed_relation_type = relation_type\<rparr>
         else g)"

definition meta_of :: "book_graph \<Rightarrow> string \<Rightarrow> book_meta" where
  "meta_of g isbn = dget_default (gr_nodes_meta g) isbn \<lparr>mt_isbn = isbn, mt_title = None, mt_category = None, mt_rating = None\<rparr>"

section \<open>Breadth-first search\<close>

fun bfs_expand :: "string list \<Rightarrow> edge list \<Rightarrow> string set \<Rightarrow> string set \<times> string list list" where
  "bfs_expand path [] visited = (visited, [])"
| "bfs_expand path (e # es) visited =
     (if ed_target_isbn e \<notin> visited
      then case bfs_expand path es (insert (ed_target_isbn e) visited) of
             (v, ps) \<Rightarrow> (v, (path @ [ed_target_isbn e]) # ps)
      else bfs_expand path es visited)"

text \<open>
  The loop may visit a title once, so it ends when every target of an edge is a node or was the start; the
  measure counts the titles that are still unvisited and the paths that wait.
\<close>

definition all_targets :: "book_graph \<Rightarrow> string set" where
  "all_targets g = (\<Union>es \<in> set (dvalues (gr_adj_list g)). ed_target_isbn ` set es)"

lemma finite_all_targets [simp]: "finite (all_targets g)"
  by (simp add: all_targets_def)

lemma edges_targets: "ed_target_isbn ` set (edges_of g x) \<subseteq> all_targets g"
proof (cases "dget (gr_adj_list g) x")
  case (Some es)
  then have "es \<in> set (dvalues (gr_adj_list g))" using map_of_SomeD [OF Some] by force
  then show ?thesis using Some unfolding edges_of_def dget_default_def all_targets_def by auto
qed (simp add: edges_of_def dget_default_def)

lemma bfs_expand_measure:
  assumes "ed_target_isbn ` set es \<subseteq> T" "finite T"
  shows "2 * card (T - fst (bfs_expand path es visited)) + length (snd (bfs_expand path es visited)) \<le> 2 * card (T - visited)"
  using assms(1)
proof (induction path es visited rule: bfs_expand.induct)
  case (2 path e es visited)
  show ?case
  proof (cases "ed_target_isbn e \<in> visited")
    case False
    then have "ed_target_isbn e \<in> T - visited" using 2(3) by auto
    then have "Suc (card (T - insert (ed_target_isbn e) visited)) = card (T - visited)"
      using assms(2) by (metis Diff_insert card_Suc_Diff1 finite_Diff)
    moreover have "2 * card (T - fst (bfs_expand path es (insert (ed_target_isbn e) visited))) +
      length (snd (bfs_expand path es (insert (ed_target_isbn e) visited))) \<le> 2 * card (T - insert (ed_target_isbn e) visited)"
      using 2(1) [OF False] 2(3) by auto
    ultimately show ?thesis using False by (simp add: case_prod_unfold)
  qed (use 2 in auto)
qed simp

function bfs_loop :: "book_graph \<Rightarrow> string \<Rightarrow> string set \<Rightarrow> string list list \<Rightarrow> string list option" where
  "bfs_loop g target visited [] = None"
| "bfs_loop g target visited (path # queue) =
     (if last path = target then Some path
      else bfs_loop g target (fst (bfs_expand path (edges_of g (last path)) visited))
             (queue @ snd (bfs_expand path (edges_of g (last path)) visited)))"
  by pat_completeness auto
termination
proof (relation "measure (\<lambda>(g, target, visited, queue). 2 * card (all_targets g - visited) + length queue)", goal_cases)
  case (2 g target visited path queue)
  then show ?case using bfs_expand_measure [where es = "edges_of g (last path)" and T = "all_targets g" and path = path and visited = visited, OF edges_targets finite_all_targets] by auto
qed simp

definition bfs_shortest_path :: "book_graph \<Rightarrow> string \<Rightarrow> string \<Rightarrow> book_meta list option" where
  "bfs_shortest_path g start_isbn target_isbn =
     (if \<not> has_node g start_isbn \<or> \<not> has_node g target_isbn then None
      else map_option (map (meta_of g)) (bfs_loop g target_isbn {start_isbn} [[start_isbn]]))"

section \<open>The search finds a shortest connection\<close>

definition succs :: "book_graph \<Rightarrow> string \<Rightarrow> string set" where
  "succs g x = ed_target_isbn ` set (edges_of g x)"

fun walk :: "book_graph \<Rightarrow> string list \<Rightarrow> bool" where
  "walk g [] \<longleftrightarrow> False"
| "walk g [x] \<longleftrightarrow> True"
| "walk g (x # y # xs) \<longleftrightarrow> y \<in> succs g x \<and> walk g (y # xs)"

definition walk_from :: "book_graph \<Rightarrow> string \<Rightarrow> string list \<Rightarrow> bool" where
  "walk_from g s p \<longleftrightarrow> walk g p \<and> hd p = s"

lemma walk_snoc: "walk g (p @ [u]) \<longleftrightarrow> p = [] \<or> walk g p \<and> u \<in> succs g (last p)"
  by (induction g p rule: walk.induct) auto

lemma walk_nonempty: "walk_from g s p \<Longrightarrow> p \<noteq> []"
  by (auto simp: walk_from_def)

lemma walk_from_snoc: "p \<noteq> [] \<Longrightarrow> walk_from g s (p @ [u]) \<longleftrightarrow> walk_from g s p \<and> u \<in> succs g (last p)"
  by (auto simp: walk_from_def walk_snoc)

lemma walk_from_cases:
  assumes "walk_from g s q"
  obtains "q = [s]" | p u where "q = p @ [u]" "walk_from g s p" "u \<in> succs g (last p)"
proof (cases q rule: rev_cases)
  case Nil
  then show ?thesis using assms by (simp add: walk_from_def)
next
  case (snoc p u)
  show ?thesis
  proof (cases "p = []")
    case True
    then show ?thesis using assms snoc that(1) by (simp add: walk_from_def)
  next
    case False
    then show ?thesis using assms snoc that(2) walk_from_snoc by simp
  qed
qed

lemma bfs_expand_visited: "fst (bfs_expand path es visited) = visited \<union> ed_target_isbn ` set es"
  by (induction path es visited rule: bfs_expand.induct) (auto simp: case_prod_unfold)

lemma bfs_expand_paths: "set (snd (bfs_expand path es visited)) = (\<lambda>u. path @ [u]) ` (ed_target_isbn ` set es - visited)"
  by (induction path es visited rule: bfs_expand.induct) (auto simp: case_prod_unfold)

definition bfs_inv :: "book_graph \<Rightarrow> string \<Rightarrow> string \<Rightarrow> string set \<Rightarrow> string list list \<Rightarrow> bool" where
  "bfs_inv g s t visited queue \<longleftrightarrow>
     s \<in> visited \<and> (\<exists>done. visited = done \<union> last ` set queue \<and> (\<forall>c \<in> done. succs g c \<subseteq> visited \<and> c \<noteq> t)) \<and>
     (\<forall>p \<in> set queue. walk_from g s p \<and> (\<forall>q. walk_from g s q \<longrightarrow> last q = last p \<longrightarrow> length p \<le> length q)) \<and>
     (\<forall>p ps. queue = p # ps \<longrightarrow> (\<forall>q. walk_from g s q \<longrightarrow> length q \<le> length p \<longrightarrow> last q \<in> visited) \<and>
        (\<forall>p' \<in> set ps. length p' \<le> Suc (length p))) \<and>
     sorted (map length queue)"

lemma bfs_inv_init: "bfs_inv g s t {s} [[s]]"
proof -
  have "last q = s" if "walk_from g s q" "length q \<le> Suc 0" for q
    using that by (cases q) (auto simp: walk_from_def)
  moreover have "Suc 0 \<le> length q" if "walk_from g s q" for q using walk_nonempty [OF that] by (cases q) auto
  ultimately show ?thesis unfolding bfs_inv_def by (auto simp: walk_from_def intro!: exI [of _ "{}"])
qed

abbreviation new_paths :: "book_graph \<Rightarrow> string set \<Rightarrow> string list \<Rightarrow> string list list" where
  "new_paths g visited path \<equiv> snd (bfs_expand path (edges_of g (last path)) visited)"

lemma set_new_paths: "set (new_paths g visited path) = (\<lambda>u. path @ [u]) ` (succs g (last path) - visited)"
  by (simp add: bfs_expand_paths succs_def)

lemma bfs_invD:
  assumes "bfs_inv g s t visited (path # queue)"
  shows "p \<in> set (path # queue) \<Longrightarrow> walk_from g s p"
    "p \<in> set (path # queue) \<Longrightarrow> walk_from g s q \<Longrightarrow> last q = last p \<Longrightarrow> length p \<le> length q"
    "walk_from g s q \<Longrightarrow> length q \<le> length path \<Longrightarrow> last q \<in> visited" "s \<in> visited"
    "\<forall>p \<in> set queue. length path \<le> length p \<and> length p \<le> Suc (length path)" "sorted (map length queue)"
    "\<exists>fin. visited = fin \<union> last ` set (path # queue) \<and> (\<forall>c \<in> fin. succs g c \<subseteq> visited \<and> c \<noteq> t)"
proof -
  show "\<forall>p \<in> set queue. length path \<le> length p \<and> length p \<le> Suc (length path)" "sorted (map length queue)"
    using assms unfolding bfs_inv_def by auto
qed (use assms in \<open>unfold bfs_inv_def, blast+\<close>)

lemma bfs_step_lengths:
  assumes inv: "bfs_inv g s t visited (path # queue)"
  shows "\<forall>p \<in> set (queue @ new_paths g visited path). length path \<le> length p \<and> length p \<le> Suc (length path)"
    "sorted (map length (queue @ new_paths g visited path))"
proof -
  note lens = bfs_invD(5,6) [OF inv]
  have len: "length p = Suc (length path)" if "p \<in> set (new_paths g visited path)" for p using that by (auto simp: set_new_paths)
  then show "\<forall>p \<in> set (queue @ new_paths g visited path). length path \<le> length p \<and> length p \<le> Suc (length path)"
    using lens(1) by auto
  have "sorted (map length (new_paths g visited path))" using len by (auto simp: sorted_iff_nth_mono)
  then show "sorted (map length (queue @ new_paths g visited path))" using lens len by (auto simp: sorted_append)
qed

lemma bfs_step_shortest:
  assumes inv: "bfs_inv g s t visited (path # queue)" and m: "p \<in> set (queue @ new_paths g visited path)"
  shows "walk_from g s p \<and> (\<forall>q. walk_from g s q \<longrightarrow> last q = last p \<longrightarrow> length p \<le> length q)"
proof (cases "p \<in> set queue")
  case True
  then show ?thesis using bfs_invD(1,2) [OF inv] by simp
next
  case False
  then obtain u where u: "p = path @ [u]" "u \<in> succs g (last path)" "u \<notin> visited" using m by (auto simp: set_new_paths)
  have path: "walk_from g s path" using bfs_invD(1) [OF inv] by simp
  have "length p \<le> length q" if "walk_from g s q" "last q = last p" for q
    using bfs_invD(3) [OF inv that(1)] that(2) u by (cases "length q \<le> length path") auto
  then show ?thesis using u path walk_from_snoc [OF walk_nonempty [OF path]] by simp
qed

lemma bfs_step_level:
  assumes inv: "bfs_inv g s t visited (path # queue)"
    and q: "walk_from g s q" "length q \<le> length p" and p: "queue @ new_paths g visited path = p # ps"
  shows "last q \<in> visited \<union> succs g (last path)"
proof (cases "length q \<le> length path")
  case True
  then show ?thesis using bfs_invD(3) [OF inv q(1)] by blast
next
  case False
  have "length path \<le> length p" "length p \<le> Suc (length path)" using bfs_step_lengths(1) [OF inv] p by auto
  with False have len: "length q = Suc (length path)" "length p = Suc (length path)" using q(2) by auto
  obtain fin where fin: "visited = fin \<union> last ` set (path # queue)" "\<forall>c \<in> fin. succs g c \<subseteq> visited \<and> c \<noteq> t"
    using bfs_invD(7) [OF inv] by blast
  from q(1) show ?thesis
  proof (cases rule: walk_from_cases)
    case 1
    then show ?thesis using bfs_invD(4) [OF inv] by simp
  next
    case (2 q0 u)
    have "last q0 \<in> visited" using bfs_invD(3) [OF inv 2(2)] 2(1) len by simp
    moreover have "last q0 \<noteq> last p'" if "p' \<in> set queue" for p'
    proof
      assume "last q0 = last p'"
      then have "length p' \<le> length q0" using bfs_invD(2) [OF inv, of p' q0] that 2(2) by simp
      moreover have "p' \<in> set (queue @ new_paths g visited path)" using that by simp
      then have "length p \<le> length p'" using p bfs_step_lengths(2) [OF inv] by auto
      ultimately show False using 2(1) len by simp
    qed
    ultimately have "last q0 \<in> insert (last path) fin" using fin(1) by auto
    then show ?thesis using fin(2) 2 by auto
  qed
qed

lemma bfs_step_cover:
  assumes inv: "bfs_inv g s t visited (path # queue)" and ne: "last path \<noteq> t"
  shows "\<exists>fin. visited \<union> succs g (last path) = fin \<union> last ` set (queue @ new_paths g visited path) \<and>
    (\<forall>c \<in> fin. succs g c \<subseteq> visited \<union> succs g (last path) \<and> c \<noteq> t)"
proof -
  obtain fin where fin: "visited = fin \<union> last ` set (path # queue)" "\<forall>c \<in> fin. succs g c \<subseteq> visited \<and> c \<noteq> t"
    using bfs_invD(7) [OF inv] by blast
  have "last ` set (new_paths g visited path) = succs g (last path) - visited" unfolding set_new_paths image_image by simp
  then have "last ` set (queue @ new_paths g visited path) = last ` set queue \<union> (succs g (last path) - visited)" by (simp add: image_Un)
  then have "visited \<union> succs g (last path) = insert (last path) fin \<union> last ` set (queue @ new_paths g visited path)" using fin(1) by auto
  moreover have "\<forall>c \<in> insert (last path) fin. succs g c \<subseteq> visited \<union> succs g (last path) \<and> c \<noteq> t" using fin(2) ne by auto
  ultimately show ?thesis by (intro exI [of _ "insert (last path) fin"] conjI)
qed

lemma bfs_inv_step:
  assumes inv: "bfs_inv g s t visited (path # queue)" and ne: "last path \<noteq> t"
  shows "bfs_inv g s t (visited \<union> succs g (last path)) (queue @ new_paths g visited path)"
  unfolding bfs_inv_def
proof (intro conjI)
  show "s \<in> visited \<union> succs g (last path)" using bfs_invD(4) [OF inv] by blast
  show "\<forall>p \<in> set (queue @ new_paths g visited path). walk_from g s p \<and> (\<forall>q. walk_from g s q \<longrightarrow> last q = last p \<longrightarrow> length p \<le> length q)"
    using bfs_step_shortest [OF inv] by blast
  have "length p' \<le> Suc (length p)" if "queue @ new_paths g visited path = p # ps" "p' \<in> set ps" for p ps p'
    using bfs_step_lengths(1) [OF inv] that by fastforce
  then show "\<forall>p ps. queue @ new_paths g visited path = p # ps \<longrightarrow>
      (\<forall>q. walk_from g s q \<longrightarrow> length q \<le> length p \<longrightarrow> last q \<in> visited \<union> succs g (last path)) \<and> (\<forall>p' \<in> set ps. length p' \<le> Suc (length p))"
    using bfs_step_level [OF inv] by blast
qed (rule bfs_step_cover [OF inv ne], rule bfs_step_lengths(2) [OF inv])

lemma bfs_loop_correct:
  assumes "bfs_inv g s t visited queue"
  shows "case bfs_loop g t visited queue of
      Some p \<Rightarrow> walk_from g s p \<and> last p = t \<and> (\<forall>q. walk_from g s q \<longrightarrow> last q = t \<longrightarrow> length p \<le> length q)
    | None \<Rightarrow> (\<nexists>q. walk_from g s q \<and> last q = t)"
  using assms
proof (induction g t visited queue rule: bfs_loop.induct)
  case (1 g t visited)
  then have v: "s \<in> visited" "\<forall>c \<in> visited. succs g c \<subseteq> visited \<and> c \<noteq> t" unfolding bfs_inv_def by auto
  have "last q \<in> visited" if "walk_from g s q" for q
    using that
  proof (induction q rule: rev_induct)
    case (snoc u q)
    show ?case
    proof (cases "q = []")
      case True
      then show ?thesis using snoc.prems v(1) by (simp add: walk_from_def)
    next
      case False
      then show ?thesis using snoc v(2) walk_from_snoc [OF False, of g s u] by auto
    qed
  qed (simp add: walk_from_def)
  then show ?case using v(2) by auto
next
  case (2 g t visited path queue)
  show ?case
  proof (cases "last path = t")
    case True
    then show ?thesis using 2(2) unfolding bfs_inv_def by auto
  next
    case False
    have "bfs_inv g s t (fst (bfs_expand path (edges_of g (last path)) visited)) (queue @ snd (bfs_expand path (edges_of g (last path)) visited))"
      using bfs_inv_step [OF 2(2) False] by (simp add: bfs_expand_visited succs_def)
    from 2(1) [OF False this] show ?thesis using False by simp
  qed
qed

text \<open>
  C28: the connection search is correct and shortest. Between two titles of the graph it returns the
  metadata of a walk along the edges that starts and ends at them, and no such walk is shorter; it returns
  nothing exactly when there is no walk. When one of the titles is unknown it returns nothing.
\<close>

theorem bfs_finds_shortest:
  "case bfs_shortest_path g s t of
     Some metas \<Rightarrow> has_node g s \<and> has_node g t \<and> (\<exists>p. metas = map (meta_of g) p \<and> walk_from g s p \<and> last p = t \<and>
       (\<forall>q. walk_from g s q \<and> last q = t \<longrightarrow> length p \<le> length q))
   | None \<Rightarrow> \<not> has_node g s \<or> \<not> has_node g t \<or> (\<nexists>q. walk_from g s q \<and> last q = t)"
proof (cases "has_node g s \<and> has_node g t")
  case True
  then have "bfs_shortest_path g s t = map_option (map (meta_of g)) (bfs_loop g t {s} [[s]])" unfolding bfs_shortest_path_def by argo
  then show ?thesis using bfs_loop_correct [OF bfs_inv_init [of g s t]] True
    by (cases "bfs_loop g t {s} [[s]]") (auto simp del: bfs_loop.simps)
qed (auto simp: bfs_shortest_path_def)

text \<open>A small graph for the witnesses: two titles that are related to a third.\<close>

definition demo_graph :: book_graph where
  "demo_graph = add_relation (add_relation new_graph ''A'' ''B'' (9/10) ''SIMILAR_TO'' True) ''B'' ''C'' (1/2) ''SIMILAR_TO'' True"

lemma demo_graph_edges:
  "gr_adj_list demo_graph = [(''A'', [\<lparr>ed_target_isbn = ''B'', ed_weight = 9/10, ed_relation_type = ''SIMILAR_TO''\<rparr>]),
     (''B'', [\<lparr>ed_target_isbn = ''A'', ed_weight = 9/10, ed_relation_type = ''SIMILAR_TO''\<rparr>,
              \<lparr>ed_target_isbn = ''C'', ed_weight = 1/2, ed_relation_type = ''SIMILAR_TO''\<rparr>]),
     (''C'', [\<lparr>ed_target_isbn = ''B'', ed_weight = 1/2, ed_relation_type = ''SIMILAR_TO''\<rparr>])]"
  by (simp add: demo_graph_def add_relation_def add_book_node_def add_edge_def edges_of_def has_node_def new_graph_def Let_def dget_default_def)

theorem bfs_finds_shortest_witness:
  "\<exists>metas. bfs_shortest_path demo_graph ''A'' ''C'' = Some metas \<and> length metas \<le> 3"
proof -
  have w: "walk_from demo_graph ''A'' [''A'', ''B'', ''C'']"
    by (simp add: walk_from_def succs_def edges_of_def dget_default_def demo_graph_edges)
  have n: "has_node demo_graph ''A''" "has_node demo_graph ''C''" by (simp_all add: has_node_def demo_graph_edges)
  show ?thesis
  proof (cases "bfs_shortest_path demo_graph ''A'' ''C''")
    case None
    then have "\<nexists>q. walk_from demo_graph ''A'' q \<and> last q = ''C''" using bfs_finds_shortest [of demo_graph "''A''" "''C''"] n by simp
    then show ?thesis using w by (metis last.simps list.distinct(1))
  next
    case (Some metas)
    then obtain p where "metas = map (meta_of demo_graph) p" "\<forall>q. walk_from demo_graph ''A'' q \<and> last q = ''C'' \<longrightarrow> length p \<le> length q"
      using bfs_finds_shortest [of demo_graph "''A''" "''C''"] by auto
    then show ?thesis using Some w by force
  qed
qed

section \<open>Depth-first learning path\<close>

definition edges_by_weight :: "book_graph \<Rightarrow> string \<Rightarrow> edge list" where
  "edges_by_weight g isbn = sort_key (\<lambda>e. - ed_weight e) (edges_of g isbn)"

text \<open>The number is the depth that is left; the pair is the visited set and the path so far.\<close>

fun dfs :: "book_graph \<Rightarrow> nat \<Rightarrow> string \<Rightarrow> string set \<times> string list \<Rightarrow> string set \<times> string list"
and dfs_edges :: "book_graph \<Rightarrow> nat \<Rightarrow> edge list \<Rightarrow> string set \<times> string list \<Rightarrow> string set \<times> string list" where
  "dfs g 0 node st = st"
| "dfs g (Suc n) node (visited, path) =
     (if node \<in> visited then (visited, path)
      else dfs_edges g n (edges_by_weight g node) (insert node visited, path @ [node]))"
| "dfs_edges g n [] st = st"
| "dfs_edges g n (e # es) st =
     dfs_edges g n es (if ed_target_isbn e \<notin> fst st then dfs g n (ed_target_isbn e) st else st)"

definition dfs_learning_path :: "book_graph \<Rightarrow> string \<Rightarrow> int \<Rightarrow> book_meta list" where
  "dfs_learning_path g start_isbn max_depth =
     (if \<not> has_node g start_isbn then [] else map (meta_of g) (snd (dfs g (nat max_depth) start_isbn ({}, []))))"

text \<open>What a call adds to the path: each new title once, within the depth that is left, after a title that leads to it.\<close>

definition extends :: "book_graph \<Rightarrow> nat \<Rightarrow> string set \<Rightarrow> string set \<times> string list \<Rightarrow> string set \<times> string list \<Rightarrow> bool" where
  "extends g n roots st st' \<longleftrightarrow>
     (fst st = set (snd st) \<longrightarrow> distinct (snd st) \<longrightarrow>
        fst st' = set (snd st') \<and> distinct (snd st') \<and>
        (\<exists>new. snd st' = snd st @ new \<and>
           (\<forall>x \<in> set new. \<exists>p. walk g p \<and> hd p \<in> roots \<and> last p = x \<and> length p \<le> n)))"

lemma extends_refl [simp]: "extends g n R st st"
  by (auto simp: extends_def)

lemma extends_trans: "extends g n R a b \<Longrightarrow> extends g n R b c \<Longrightarrow> extends g n R a c"
  unfolding extends_def by auto

lemma extends_mono: "extends g n R a b \<Longrightarrow> R \<subseteq> S \<Longrightarrow> extends g n S a b"
  unfolding extends_def by blast

lemma walk_Cons: "p \<noteq> [] \<Longrightarrow> walk g (x # p) \<longleftrightarrow> hd p \<in> succs g x \<and> walk g p"
  by (cases p) auto

lemma dfs_extends:
  "extends g n {node} st (dfs g n node st)"
  "extends g n (ed_target_isbn ` set es) st (dfs_edges g n es st)"
proof (induction g n node st and g n es st rule: dfs_dfs_edges.induct)
  case (2 g n node visited path)
  show ?case
  proof (cases "node \<in> visited")
    case False
    have tg: "ed_target_isbn ` set (edges_by_weight g node) = succs g node" by (simp add: edges_by_weight_def succs_def)
    let ?st' = "dfs_edges g n (edges_by_weight g node) (insert node visited, path @ [node])"
    have ih: "extends g n (succs g node) (insert node visited, path @ [node]) ?st'" using 2 [OF False] tg by simp
    show ?thesis unfolding extends_def
    proof (intro impI)
      assume pre: "fst (visited, path) = set (snd (visited, path))" "distinct (snd (visited, path))"
      then obtain new where new: "fst ?st' = set (snd ?st')" "distinct (snd ?st')" "snd ?st' = (path @ [node]) @ new"
        "\<forall>x \<in> set new. \<exists>p. walk g p \<and> hd p \<in> succs g node \<and> last p = x \<and> length p \<le> n"
        using ih False unfolding extends_def by auto
      have "\<exists>p. walk g p \<and> hd p \<in> {node} \<and> last p = x \<and> length p \<le> Suc n" if m: "x \<in> set (node # new)" for x
      proof (cases "x = node")
        case True
        then show ?thesis by (intro exI [of _ "[node]"]) simp
      next
        case ne: False
        then obtain p where p: "walk g p" "hd p \<in> succs g node" "last p = x" "length p \<le> n" using new(4) m by auto
        then have "p \<noteq> []" by auto
        then show ?thesis using p by (intro exI [of _ "node # p"]) (simp add: walk_Cons)
      qed
      then show "fst (dfs g (Suc n) node (visited, path)) = set (snd (dfs g (Suc n) node (visited, path))) \<and>
        distinct (snd (dfs g (Suc n) node (visited, path))) \<and>
        (\<exists>new. snd (dfs g (Suc n) node (visited, path)) = snd (visited, path) @ new \<and>
          (\<forall>x \<in> set new. \<exists>p. walk g p \<and> hd p \<in> {node} \<and> last p = x \<and> length p \<le> Suc n))"
        using False new(1-3) by (intro conjI exI [of _ "node # new"]) simp_all
    qed
  qed simp
next
  case (4 g n e es st)
  show ?case
  proof (cases "ed_target_isbn e \<in> fst st")
    case True
    have "extends g n (ed_target_isbn ` set (e # es)) st (dfs_edges g n es st)"
      by (rule extends_mono [of g n "ed_target_isbn ` set es"]) (use 4(2) True in auto)
    then show ?thesis using True by simp
  next
    case False
    have "extends g n (ed_target_isbn ` set (e # es)) st (dfs g n (ed_target_isbn e) st)"
      by (rule extends_mono [OF 4(1) [OF False]]) simp
    moreover have "extends g n (ed_target_isbn ` set (e # es)) (dfs g n (ed_target_isbn e) st) (dfs_edges g n es (dfs g n (ed_target_isbn e) st))"
      by (rule extends_mono [of g n "ed_target_isbn ` set es"]) (use 4(2) False in auto)
    ultimately show ?thesis using False extends_trans by simp
  qed
qed simp_all

text \<open>
  The learning path is a tour of the titles around the start. It lists each title once, starts with the
  given title when the depth allows one title at all, and every title on it is linked to the start by a walk
  of at most as many titles as the depth; for an unknown start it is empty.
\<close>

theorem learning_path_sound:
  "\<exists>path. dfs_learning_path g start depth = map (meta_of g) path \<and> distinct path \<and>
     (has_node g start \<and> 0 < depth \<longrightarrow> (\<exists>rest. path = start # rest)) \<and> (\<not> has_node g start \<or> depth \<le> 0 \<longrightarrow> path = []) \<and>
     (\<forall>x \<in> set path. \<exists>p. walk_from g start p \<and> last p = x \<and> int (length p) \<le> depth)"
proof (cases "has_node g start \<and> 0 < depth")
  case True
  then obtain n where n: "nat depth = Suc n" by (metis gr0_implies_Suc zero_less_nat_eq)
  let ?st = "dfs g (nat depth) start ({}, [])"
  have ext: "extends g (nat depth) {start} ({}, []) ?st" by (rule dfs_extends(1))
  then obtain new where new: "distinct (snd ?st)" "snd ?st = new" "\<forall>x \<in> set new. \<exists>p. walk g p \<and> hd p \<in> {start} \<and> last p = x \<and> length p \<le> nat depth"
    unfolding extends_def by auto
  have st: "?st = dfs_edges g n (edges_by_weight g start) ({start}, [start])" by (simp add: n)
  have "extends g n (ed_target_isbn ` set (edges_by_weight g start)) ({start}, [start]) ?st" unfolding st by (rule dfs_extends(2))
  then obtain rest where "snd ?st = [start] @ rest" unfolding extends_def by auto
  then show ?thesis using new True by (intro exI [of _ "snd ?st"]) (auto simp: dfs_learning_path_def walk_from_def le_nat_iff)
qed (auto simp: dfs_learning_path_def intro!: exI [of _ "[]"])

theorem learning_path_sound_witness:
  "\<exists>path rest. dfs_learning_path demo_graph ''A'' 2 = map (meta_of demo_graph) path \<and> path = ''A'' # rest"
proof -
  have "has_node demo_graph ''A''" by (simp add: has_node_def demo_graph_edges)
  then show ?thesis using learning_path_sound [of demo_graph "''A''" 2] by auto
qed

section \<open>Related titles\<close>

definition add_score :: "(string, py_float) dict \<Rightarrow> string \<Rightarrow> py_float \<Rightarrow> (string, py_float) dict" where
  "add_score scores isbn w = dset scores isbn (dget_default scores isbn 0 + w)"

definition two_hop :: "book_graph \<Rightarrow> string \<Rightarrow> edge \<Rightarrow> (string, py_float) dict \<Rightarrow> (string, py_float) dict" where
  "two_hop g isbn e scores =
     foldl (\<lambda>sc s. if ed_target_isbn s \<noteq> isbn then add_score sc (ed_target_isbn s) (ed_weight s * (2/5)) else sc)
       scores (edges_of g (ed_target_isbn e))"

definition related_scores :: "book_graph \<Rightarrow> string \<Rightarrow> (string, py_float) dict" where
  "related_scores g isbn =
     dpop (foldl (\<lambda>sc e. two_hop g isbn e (add_score sc (ed_target_isbn e) (ed_weight e))) [] (edges_of g isbn)) isbn"

record related_item =
  rl_isbn :: string
  rl_title :: string
  rl_category :: string
  rl_similarity_score :: py_float

definition related_of :: "book_graph \<Rightarrow> string \<times> py_float \<Rightarrow> related_item" where
  "related_of g p =
     (case dget (gr_nodes_meta g) (fst p) of
        None \<Rightarrow> \<lparr>rl_isbn = fst p, rl_title = ''Book '' @ fst p, rl_category = [], rl_similarity_score = py_round (snd p) 3\<rparr>
      | Some m \<Rightarrow> \<lparr>rl_isbn = fst p, rl_title = (case mt_title m of None \<Rightarrow> [] | Some x \<Rightarrow> x),
                   rl_category = (case mt_category m of None \<Rightarrow> [] | Some x \<Rightarrow> x), rl_similarity_score = py_round (snd p) 3\<rparr>)"

definition get_related_recommendations :: "book_graph \<Rightarrow> string \<Rightarrow> int \<Rightarrow> related_item list" where
  "get_related_recommendations g isbn top_k =
     (if \<not> has_node g isbn then []
      else map (related_of g) (py_take top_k (sort_key (\<lambda>p. - snd p) (related_scores g isbn))))"

text \<open>The affinity of a title: its direct weights, and the damped weights of the connections of length two.\<close>

definition weight_to :: "string \<Rightarrow> edge list \<Rightarrow> py_float" where
  "weight_to x es = (\<Sum>e \<leftarrow> es. if ed_target_isbn e = x then ed_weight e else 0)"

definition affinity :: "book_graph \<Rightarrow> string \<Rightarrow> string \<Rightarrow> py_float" where
  "affinity g isbn x = weight_to x (edges_of g isbn) + (\<Sum>e \<leftarrow> edges_of g isbn. weight_to x (edges_of g (ed_target_isbn e)) * (2/5))"

lemma add_score_get: "dget_default (add_score sc i w) x 0 = dget_default sc x 0 + (if i = x then w else 0)"
  by (simp add: add_score_def dget_default_def)

lemma two_hop_get:
  "x \<noteq> isbn \<Longrightarrow> dget_default (two_hop g isbn e sc) x 0 = dget_default sc x 0 + weight_to x (edges_of g (ed_target_isbn e)) * (2/5)"
proof -
  assume ne: "x \<noteq> isbn"
  have "dget_default (foldl (\<lambda>sc s. if ed_target_isbn s \<noteq> isbn then add_score sc (ed_target_isbn s) (ed_weight s * (2/5)) else sc) sc es) x 0 =
      dget_default sc x 0 + weight_to x es * (2/5)" for es
    using ne by (induction es arbitrary: sc) (auto simp: add_score_get weight_to_def distrib_right)
  then show ?thesis unfolding two_hop_def .
qed

lemma scores_affinity: "x \<noteq> isbn \<Longrightarrow> dget_default (related_scores g isbn) x 0 = affinity g isbn x"
proof -
  assume ne: "x \<noteq> isbn"
  have "dget_default (foldl (\<lambda>sc e. two_hop g isbn e (add_score sc (ed_target_isbn e) (ed_weight e))) sc es) x 0 =
      dget_default sc x 0 + weight_to x es + (\<Sum>e \<leftarrow> es. weight_to x (edges_of g (ed_target_isbn e)) * (2/5))" for sc es
    using ne by (induction es arbitrary: sc) (auto simp: add_score_get two_hop_get weight_to_def)
  note this [of "[]" "edges_of g isbn"]
  then show ?thesis using ne unfolding related_scores_def affinity_def by (simp add: dget_default_def)
qed

lemma add_score_keys: "set (dkeys (add_score sc i w)) = insert i (set (dkeys sc))"
  unfolding add_score_def by (rule set_dkeys_dset)

lemma two_hop_keys: "set (dkeys (two_hop g isbn e sc)) = set (dkeys sc) \<union> (succs g (ed_target_isbn e) - {isbn})"
proof -
  have "set (dkeys (foldl (\<lambda>sc s. if ed_target_isbn s \<noteq> isbn then add_score sc (ed_target_isbn s) (ed_weight s * (2/5)) else sc) sc es)) =
      set (dkeys sc) \<union> (ed_target_isbn ` set es - {isbn})" for es
    by (induction es arbitrary: sc) (auto simp: add_score_keys simp del: set_map)
  then show ?thesis unfolding two_hop_def succs_def .
qed

lemma scores_keys: "set (dkeys (related_scores g isbn)) = (succs g isbn \<union> (\<Union>y \<in> succs g isbn. succs g y)) - {isbn}"
proof -
  have "set (dkeys (foldl (\<lambda>sc e. two_hop g isbn e (add_score sc (ed_target_isbn e) (ed_weight e))) sc es)) =
      set (dkeys sc) \<union> (\<Union>e \<in> set es. insert (ed_target_isbn e) (succs g (ed_target_isbn e) - {isbn}))" for sc es
    by (induction es arbitrary: sc) (auto simp: add_score_keys two_hop_keys simp del: set_map)
  note this [of "[]" "edges_of g isbn"]
  then show ?thesis unfolding related_scores_def by (auto simp: dkeys_dpop succs_def simp del: set_map)
qed

lemma scores_wf: "dict_wf (related_scores g isbn)"
proof -
  have a: "dict_wf sc \<Longrightarrow> dict_wf (add_score sc i w)" for sc i w by (simp add: add_score_def)
  have t: "dict_wf sc \<Longrightarrow> dict_wf (foldl (\<lambda>sc s. if ed_target_isbn s \<noteq> isbn then add_score sc (ed_target_isbn s) (ed_weight s * (2/5)) else sc) sc es)" for sc es
    by (induction es arbitrary: sc) (auto simp: a)
  have "dict_wf sc \<Longrightarrow> dict_wf (foldl (\<lambda>sc e. two_hop g isbn e (add_score sc (ed_target_isbn e) (ed_weight e))) sc es)" for sc es
    by (induction es arbitrary: sc) (auto simp: two_hop_def a t)
  then show ?thesis unfolding related_scores_def by simp
qed

lemma related_of_isbn [simp]: "rl_isbn (related_of g p) = fst p" "rl_similarity_score (related_of g p) = py_round (snd p) 3"
  by (simp_all add: related_of_def split: option.splits)

text \<open>
  The related titles are the neighbours of a title by affinity. Every recommendation is a title within two
  hops and not the title itself, appears once, and carries its affinity (direct weights plus two fifths of the
  weights of the two-hop connections) rounded to three digits; the recommendations come by decreasing
  score, and with a large enough limit every title within two hops is recommended.
\<close>

theorem related_by_affinity:
  fixes g isbn k
  defines "recs \<equiv> get_related_recommendations g isbn k"
    and "near \<equiv> (succs g isbn \<union> (\<Union>y \<in> succs g isbn. succs g y)) - {isbn}"
  assumes "has_node g isbn"
  shows "distinct (map rl_isbn recs) \<and> sorted_wrt (\<ge>) (map rl_similarity_score recs) \<and>
    (\<forall>r \<in> set recs. rl_isbn r \<in> near \<and> rl_similarity_score r = py_round (affinity g isbn (rl_isbn r)) 3) \<and>
    (int (card near) \<le> k \<longrightarrow> rl_isbn ` set recs = near)"
proof -
  let ?sc = "related_scores g isbn"
  let ?full = "sort_key (\<lambda>p. - snd p) ?sc"
  have recs: "recs = map (related_of g) (py_take k ?full)" using assms(3) unfolding recs_def by (simp add: get_related_recommendations_def)
  have keys: "fst ` set ?full = near" using scores_keys [of g isbn] unfolding near_def by simp
  have dist: "distinct (map fst ?full)"
    using scores_wf [of g isbn] by (auto simp: dict_wf_def distinct_map)
  have "map rl_isbn recs = py_take k (map fst ?full)" unfolding recs by (simp add: map_py_take [symmetric] comp_def)
  then have d: "distinct (map rl_isbn recs)" using distinct_py_take [OF dist] by simp
  have "sorted (map (\<lambda>p. - snd p) ?full)" by (rule sorted_sort_key)
  then have "sorted_wrt (\<lambda>p q. snd q \<le> snd p) ?full" by (simp add: sorted_map sorted_wrt_map)
  then have "sorted_wrt (\<lambda>p q. py_round (snd q) 3 \<le> py_round (snd p) 3) ?full"
    by (rule sorted_wrt_mono_rel [rotated]) (auto intro: py_round_mono)
  then have s: "sorted_wrt (\<ge>) (map rl_similarity_score recs)" unfolding recs by (simp add: sorted_wrt_map sorted_wrt_py_take)
  have r: "rl_isbn r \<in> near \<and> rl_similarity_score r = py_round (affinity g isbn (rl_isbn r)) 3" if m: "r \<in> set recs" for r
  proof -
    obtain x v where p: "(x, v) \<in> set ?sc" "r = related_of g (x, v)" using m set_py_take [of k ?full] unfolding recs by auto
    have "x \<in> near" using p(1) keys by force
    moreover have "dget ?sc x = Some v" using p(1) dget_in_set [OF scores_wf] by blast
    ultimately show ?thesis using scores_affinity [of x isbn g] p(2) by (simp add: dget_default_def near_def)
  qed
  have c: "rl_isbn ` set recs = near" if "int (card near) \<le> k"
  proof -
    have "length ?full = card near" using distinct_card [OF dist] keys by simp
    then have "py_take k ?full = ?full" using that by (simp add: py_take_def)
    then show ?thesis unfolding recs using keys by (simp add: image_image)
  qed
  show ?thesis using d s r c by blast
qed

theorem related_by_affinity_witness:
  "rl_isbn ` set (get_related_recommendations demo_graph ''A'' 5) = {''B'', ''C''}"
proof -
  have h: "has_node demo_graph ''A''" by (simp add: has_node_def demo_graph_edges)
  have near: "(succs demo_graph ''A'' \<union> (\<Union>y \<in> succs demo_graph ''A''. succs demo_graph y)) - {''A''} = {''B'', ''C''}"
    by (auto simp: succs_def edges_of_def dget_default_def demo_graph_edges)
  show ?thesis using related_by_affinity [OF h, of 5] unfolding near by simp
qed

end
