(* ===== verification/Recommender.thy ===== *)
theory Recommender
  imports Books Users Graph_Engine
begin

text \<open>
  The recommendation engine of \<^verbatim>\<open>libflow/ai/recommendation_engine.py\<close>: content similarity, proximity in the
  book graph and the rating, weighted. Books are referenced by ISBN and looked up when they are used, as in
  the search index. \<open>math.sqrt\<close> is a parameter.
\<close>

record recommender =
  rc_books :: "string list"
  rc_user_history :: "(string, string set) dict"
  rc_user_category_weights :: "(string, (string, py_float) dict) dict"

definition new_recommender :: recommender where
  "new_recommender = \<lparr>rc_books = [], rc_user_history = [], rc_user_category_weights = []\<rparr>"

definition rec_register_book :: "recommender \<times> book_graph \<Rightarrow> book \<Rightarrow> recommender \<times> book_graph" where
  "rec_register_book rg b =
     (case rg of (rc, g) \<Rightarrow>
        (rc\<lparr>rc_books := (if bk_isbn b \<in> set (rc_books rc) then rc_books rc else rc_books rc @ [bk_isbn b])\<rparr>,
         add_book_node g (bk_isbn b) (bk_title b) (bk_category b) (bk_rating b)))"

definition weigh :: "recommender \<Rightarrow> string \<Rightarrow> string \<Rightarrow> py_float \<Rightarrow> recommender" where
  "weigh rc user_id key w =
     (let ws = dget_default (rc_user_category_weights rc) user_id []
      in rc\<lparr>rc_user_category_weights := dset (rc_user_category_weights rc) user_id (dset ws key (dget_default ws key 0 + w))\<rparr>)"

definition record_user_interaction ::
  "(string \<Rightarrow> book option) \<Rightarrow> recommender \<Rightarrow> string \<Rightarrow> string \<Rightarrow> py_float option \<Rightarrow> recommender" where
  "record_user_interaction live rc user_id isbn rating =
     (let rc = rc\<lparr>rc_user_history := dset (rc_user_history rc) user_id (insert isbn (dget_default (rc_user_history rc) user_id {}))\<rparr>
      in if isbn \<notin> set (rc_books rc) then rc
         else case live isbn of
                None \<Rightarrow> rc
              | Some b \<Rightarrow>
                  let weight = (case rating of None \<Rightarrow> 1 | Some r \<Rightarrow> if r = 0 then 1 else r / 5);
                      rc = weigh rc user_id (bk_category b) weight
                  in foldl (\<lambda>rc kw. weigh rc user_id kw (weight * (1/2))) rc (bk_keywords b))"

definition cosine_similarity :: "(py_float \<Rightarrow> py_float) \<Rightarrow> (string, py_float) dict \<Rightarrow> (string, py_float) dict \<Rightarrow> py_float" where
  "cosine_similarity math_sqrt vec1 vec2 =
     (let inter = set (dkeys vec1) \<inter> set (dkeys vec2)
      in if inter = {} then 0
         else let dot = (\<Sum>k \<in> inter. the (dget vec1 k) * the (dget vec2 k));
                  mag1 = math_sqrt (\<Sum>v \<leftarrow> dvalues vec1. v * v);
                  mag2 = math_sqrt (\<Sum>v \<leftarrow> dvalues vec2. v * v)
              in if mag1 = 0 \<or> mag2 = 0 then 0 else dot / (mag1 * mag2))"

definition book_vector :: "book \<Rightarrow> (string, py_float) dict" where
  "book_vector b = foldl (\<lambda>v kw. dset v kw 1) [(bk_category b, 3/2)] (bk_keywords b)"

definition graph_score :: "book_graph \<Rightarrow> string set \<Rightarrow> string \<Rightarrow> py_float" where
  "graph_score g borrowed isbn =
     Max (insert 0 (\<Union>b \<in> borrowed. rl_similarity_score ` {r \<in> set (get_related_recommendations g b 5). rl_isbn r = isbn}))"

definition borrowed_by :: "recommender \<Rightarrow> string \<Rightarrow> string set" where
  "borrowed_by rc user_id = dget_default (rc_user_history rc) user_id {}"

definition match_value :: "(py_float \<Rightarrow> py_float) \<Rightarrow> book_graph \<Rightarrow> recommender \<Rightarrow> string \<Rightarrow> book \<Rightarrow> py_float" where
  "match_value math_sqrt g rc user_id b =
     (let cat_weights = dget_default (rc_user_category_weights rc) user_id [];
          content_score = cosine_similarity math_sqrt cat_weights (book_vector b);
          graph = graph_score g (borrowed_by rc user_id) (bk_isbn b);
          quality_score = bk_rating b / 5 * (1/5)
      in 1/2 * content_score + 7/20 * graph + 3/20 * quality_score)"

record recommendation =
  ro_isbn :: string
  ro_title :: string
  ro_authors :: "string list"
  ro_category :: string
  ro_rating :: py_float
  ro_difficulty_level :: string
  ro_match_score :: py_float

definition recommend_for_user ::
  "(py_float \<Rightarrow> py_float) \<Rightarrow> (string \<Rightarrow> book option) \<Rightarrow> book_graph \<Rightarrow> recommender \<Rightarrow> user \<Rightarrow> int \<Rightarrow> recommendation list" where
  "recommend_for_user math_sqrt live g rc u top_k =
     (let candidates = List.map_filter (\<lambda>isbn. if isbn \<in> borrowed_by rc (us_user_id u) then None
            else map_option (\<lambda>b. (b, match_value math_sqrt g rc (us_user_id u) b)) (live isbn)) (rc_books rc)
      in map (\<lambda>(b, score). \<lparr>ro_isbn = bk_isbn b, ro_title = bk_title b, ro_authors = bk_authors b, ro_category = bk_category b,
                ro_rating = bk_rating b, ro_difficulty_level = bk_difficulty_level b, ro_match_score = py_round score 3\<rparr>)
           (py_take top_k (sort_key (\<lambda>c. - snd c) candidates)))"

section \<open>Properties\<close>

lemma registered_distinct: "distinct (rc_books rc) \<Longrightarrow> distinct (rc_books (fst (rec_register_book (rc, g) b)))"
  by (simp add: rec_register_book_def)

lemma weigh_fields [simp]: "rc_books (weigh rc u k w) = rc_books rc" "rc_user_history (weigh rc u k w) = rc_user_history rc"
  by (simp_all add: weigh_def Let_def)

lemma foldl_weigh [simp]:
  "rc_books (foldl (\<lambda>rc kw. weigh rc u kw w) rc ks) = rc_books rc"
  "rc_user_history (foldl (\<lambda>rc kw. weigh rc u kw w) rc ks) = rc_user_history rc"
  by (induction ks arbitrary: rc) auto

lemma interaction_books [simp]: "rc_books (record_user_interaction live rc u i r) = rc_books rc"
  by (simp add: record_user_interaction_def Let_def split: option.splits)

lemma interaction_history: "borrowed_by (record_user_interaction live rc u i r) v = borrowed_by rc v \<union> (if v = u then {i} else {})"
  by (simp add: record_user_interaction_def borrowed_by_def Let_def dget_default_def split: option.splits)

lemma sort_scores_sorted:
  "sorted_wrt (\<lambda>a b. py_round (snd b) n \<le> py_round (snd a) n) (py_take k (sort_key (\<lambda>c. - (snd c :: py_float)) xs))"
proof -
  have "sorted (map (\<lambda>c. - snd c) (sort_key (\<lambda>c. - snd c) xs))" by (rule sorted_sort_key)
  then have "sorted_wrt (\<lambda>a b. snd b \<le> snd a) (sort_key (\<lambda>c. - snd c) xs)" by (simp add: sorted_map sorted_wrt_map)
  then have "sorted_wrt (\<lambda>a b. py_round (snd b) n \<le> py_round (snd a) n) (sort_key (\<lambda>c. - snd c) xs)"
    by (rule sorted_wrt_mono_rel [rotated]) (auto intro: py_round_mono)
  then show ?thesis by (rule sorted_wrt_py_take)
qed

lemma candidates_distinct:
  assumes "distinct xs" "\<And>i b. live i = Some b \<Longrightarrow> bk_isbn b = i"
  shows "distinct (map (\<lambda>c. bk_isbn (fst c)) (List.map_filter (\<lambda>i. if i \<in> B then None else map_option (\<lambda>b. (b, m b)) (live i)) xs))"
proof -
  have "map (\<lambda>c. bk_isbn (fst c)) (List.map_filter (\<lambda>i. if i \<in> B then None else map_option (\<lambda>b. (b, m b)) (live i)) xs) =
      filter (\<lambda>i. i \<notin> B \<and> live i \<noteq> None) xs"
    by (induction xs) (auto simp: map_filter_simps assms(2) split: option.splits)
  then show ?thesis using assms(1) by simp
qed

text \<open>
  C34: recommendations are new to the user. Every recommended title is registered and was not part of the
  recorded interactions of the user, no title is recommended twice, at most \<open>top_k\<close> are, by non-increasing
  match score, and with a large enough limit every registered title the user has not met is recommended.
\<close>

theorem recommendations_are_new:
  fixes k :: int
  assumes "distinct (rc_books rc)" "\<And>i b. live i = Some b \<Longrightarrow> bk_isbn b = i" "\<forall>i \<in> set (rc_books rc). live i \<noteq> None" "0 \<le> k"
  shows "let recs = recommend_for_user math_sqrt live g rc u k; fresh = set (rc_books rc) - borrowed_by rc (us_user_id u) in
    ro_isbn ` set recs \<subseteq> fresh \<and> distinct (map ro_isbn recs) \<and> int (length recs) \<le> k \<and>
    sorted_wrt (\<ge>) (map ro_match_score recs) \<and> (int (length (rc_books rc)) \<le> k \<longrightarrow> ro_isbn ` set recs = fresh)"
proof -
  let ?B = "borrowed_by rc (us_user_id u)" and ?m = "match_value math_sqrt g rc (us_user_id u)"
  let ?c = "List.map_filter (\<lambda>i. if i \<in> ?B then None else map_option (\<lambda>b. (b, ?m b)) (live i)) (rc_books rc)"
  let ?full = "sort_key (\<lambda>c. - snd c) ?c"
  let ?mk = "\<lambda>(b, score). \<lparr>ro_isbn = bk_isbn b, ro_title = bk_title b, ro_authors = bk_authors b, ro_category = bk_category b,
                ro_rating = bk_rating b, ro_difficulty_level = bk_difficulty_level b, ro_match_score = py_round score 3\<rparr>"
  have r: "recommend_for_user math_sqrt live g rc u k = map ?mk (py_take k ?full)" by (simp add: recommend_for_user_def Let_def)
  have iso: "map ro_isbn (map ?mk xs) = map (\<lambda>c. bk_isbn (fst c)) xs" "map ro_match_score (map ?mk xs) = map (\<lambda>c. py_round (snd c) 3) xs" for xs
    by (simp_all add: case_prod_unfold)
  have keys: "(\<lambda>c. bk_isbn (fst c)) ` set ?c = set (rc_books rc) - ?B"
    using assms(2,3) by (force simp: map_filter_def image_iff)
  have d: "distinct (map (\<lambda>c. bk_isbn (fst c)) ?full)" using candidates_distinct [OF assms(1,2)] by (auto simp: distinct_map)
  have "ro_isbn ` set (map ?mk (py_take k ?full)) = set (map (\<lambda>c. bk_isbn (fst c)) (py_take k ?full))" unfolding iso(1) [symmetric] by (simp only: set_map)
  then have img: "ro_isbn ` set (map ?mk (py_take k ?full)) = (\<lambda>c. bk_isbn (fst c)) ` set (py_take k ?full)" by (simp only: set_map)
  have sub: "set (py_take k ?full) \<subseteq> set ?c" using set_py_take [of k ?full] by simp
  have len: "length ?c \<le> length (rc_books rc)" unfolding map_filter_def by (simp add: le_trans [OF length_filter_le])
  have lenk: "int (length (py_take k ?full)) \<le> k" using assms(4) by (simp add: py_take_def)
  have srt: "sorted_wrt (\<ge>) (map (\<lambda>c. py_round (snd c) 3) (py_take k ?full))"
    using sort_scores_sorted [of 3 k ?c] by (simp add: sorted_wrt_map)
  have dst: "distinct (map (\<lambda>c. bk_isbn (fst c)) (py_take k ?full))" unfolding map_py_take by (rule distinct_py_take [OF d])
  have "py_take k ?full = ?full" if "int (length (rc_books rc)) \<le> k" using that len by (simp add: py_take_def)
  then have full: "(\<lambda>c. bk_isbn (fst c)) ` set (py_take k ?full) = set (rc_books rc) - ?B" if "int (length (rc_books rc)) \<le> k"
    using that keys by simp
  have new: "(\<lambda>c. bk_isbn (fst c)) ` set (py_take k ?full) \<subseteq> set (rc_books rc) - ?B" using image_mono [OF sub, of "\<lambda>c. bk_isbn (fst c)"] unfolding keys .
  show ?thesis unfolding Let_def r img iso length_map by (intro conjI impI new dst lenk srt full)
qed

theorem recommendations_are_new_witness:
  "\<exists>b u. ro_isbn ` set (recommend_for_user (\<lambda>x. x) [''7'' \<mapsto> b] new_graph
     (fst (rec_register_book (new_recommender, new_graph) b)) u 5) = {''7''}"
proof -
  let ?b = "\<lparr>bk_isbn = ''7'', bk_title = ''T'', bk_authors = [], bk_category = ''C'', bk_publication_year = 2024,
     bk_publisher = [], bk_description = [], bk_rating = 4, bk_difficulty_level = [], bk_keywords = [],
     bk_borrow_history_count = 0, bk_details = AudioBook [] 1 []\<rparr>"
  let ?u = "new_admin ''U'' ''N'' ''e'' ''p'' ''B''"
  let ?rc = "fst (rec_register_book (new_recommender, new_graph) ?b)"
  have rc: "rc_books ?rc = [''7'']" "borrowed_by ?rc v = {}" for v
    by (simp_all add: rec_register_book_def new_recommender_def borrowed_by_def dget_default_def)
  have d: "distinct (rc_books ?rc)" unfolding rc by simp
  have l: "bk_isbn b = i" if "[''7'' \<mapsto> ?b] i = Some b" for i b using that by (auto split: if_splits)
  have a: "\<forall>i \<in> set (rc_books ?rc). [''7'' \<mapsto> ?b] i \<noteq> None" unfolding rc by simp
  show ?thesis
    using recommendations_are_new [where k = 5 and math_sqrt = "\<lambda>x. x" and g = new_graph and u = ?u and live = "[''7'' \<mapsto> ?b]" and rc = ?rc, OF d l a]
    unfolding rc by (auto simp: Let_def)
qed

end
