(* ===== verification/Circuit_Breaker.thy ===== *)
theory Circuit_Breaker
  imports Core_Types
begin

text \<open>
  The circuit breaker of \<^verbatim>\<open>libflow/storage/circuit_breaker.py\<close>. The protected operation and the
  fallback act on an environment of type \<open>'s\<close> (the dependency and the counters of the caller) and may
  raise; \<open>expected\<close> tells the exceptions the breaker counts. The clock is read when a call starts
  (\<open>now\<close>) and when a failure is recorded (\<open>later\<close>). The lock protects the guard and the recording
  separately, so a call is also modelled as two steps that other calls may interleave with.
\<close>

datatype circuit_state = CLOSED | OPEN | HALF_OPEN

record breaker =
  cb_name :: string
  cb_failure_threshold :: int
  cb_recovery_timeout :: py_float
  cb_state :: circuit_state
  cb_failure_count :: int
  cb_last_state_change :: py_float

type_synonym ('s, 'a) action = "'s \<Rightarrow> (exn + 'a) \<times> 's"

definition new_breaker :: "py_float \<Rightarrow> string \<Rightarrow> int \<Rightarrow> py_float \<Rightarrow> breaker" where
  "new_breaker now name failure_threshold recovery_timeout =
     \<lparr>cb_name = name, cb_failure_threshold = failure_threshold, cb_recovery_timeout = recovery_timeout,
      cb_state = CLOSED, cb_failure_count = 0, cb_last_state_change = now\<rparr>"

text \<open>The guard at the start of a call: whether the operation may run.\<close>

definition call_guard :: "py_float \<Rightarrow> breaker \<Rightarrow> bool \<times> breaker" where
  "call_guard now cb =
     (if cb_state cb = OPEN
      then if now - cb_last_state_change cb \<ge> cb_recovery_timeout cb
           then (True, cb\<lparr>cb_state := HALF_OPEN\<rparr>) else (False, cb)
      else (True, cb))"

definition on_success :: "breaker \<Rightarrow> breaker" where
  "on_success cb = cb\<lparr>cb_state := CLOSED, cb_failure_count := 0\<rparr>"

definition on_failure :: "py_float \<Rightarrow> breaker \<Rightarrow> breaker" where
  "on_failure later cb =
     (let cb = cb\<lparr>cb_failure_count := cb_failure_count cb + 1\<rparr>
      in if cb_failure_count cb \<ge> cb_failure_threshold cb \<or> cb_state cb = HALF_OPEN
         then cb\<lparr>cb_state := OPEN, cb_last_state_change := later\<rparr> else cb)"

definition cb_call ::
  "(exn \<Rightarrow> bool) \<Rightarrow> py_float \<Rightarrow> py_float \<Rightarrow> breaker \<Rightarrow> ('s, 'a) action \<Rightarrow> ('s, 'a) action option \<Rightarrow>
     's \<Rightarrow> (exn + 'a) \<times> 's \<times> breaker" where
  "cb_call expected now later cb operation fallback s =
     (case call_guard now cb of
        (False, cb) \<Rightarrow>
          (case fallback of
             Some f \<Rightarrow> (case f s of (r, s) \<Rightarrow> (r, s, cb))
           | None \<Rightarrow> (Inl (CircuitBreakerOpenError (''Circuit '' @ quoted (cb_name cb) @ '' is OPEN'')), s, cb))
      | (True, cb) \<Rightarrow>
          (case operation s of
             (Inr v, s) \<Rightarrow> (Inr v, s, on_success cb)
           | (Inl e, s) \<Rightarrow>
               if expected e
               then (case fallback of
                       Some f \<Rightarrow> (case f s of (r, s) \<Rightarrow> (r, s, on_failure later cb))
                     | None \<Rightarrow> (Inl e, s, on_failure later cb))
               else (Inl e, s, cb)))"

section \<open>Interleaved calls\<close>

text \<open>
  The steps other threads can interleave: a call passes the guard, and later reports a success, an
  expected failure, or an exception the breaker does not count. \<open>running\<close> is the number of calls
  between the two.
\<close>

inductive breaker_step :: "breaker \<times> nat \<Rightarrow> breaker \<times> nat \<Rightarrow> bool" where
  refuse: "call_guard now cb = (False, cb') \<Longrightarrow> breaker_step (cb, n) (cb', n)"
| start: "call_guard now cb = (True, cb') \<Longrightarrow> breaker_step (cb, n) (cb', Suc n)"
| success: "breaker_step (cb, Suc n) (on_success cb, n)"
| failure: "breaker_step (cb, Suc n) (on_failure later cb, n)"
| uncounted: "breaker_step (cb, Suc n) (cb, n)"

inductive breaker_reachable :: "breaker \<Rightarrow> breaker \<times> nat \<Rightarrow> bool" for init where
  init: "breaker_reachable init (init, 0)"
| step: "breaker_reachable init s \<Longrightarrow> breaker_step s s' \<Longrightarrow> breaker_reachable init s'"

inductive_cases breaker_stepE: "breaker_step s s'"

definition breaker_inv :: "breaker \<Rightarrow> bool" where
  "breaker_inv cb \<longleftrightarrow> 0 \<le> cb_failure_count cb \<and>
     (cb_state cb = CLOSED \<longrightarrow> cb_failure_count cb < cb_failure_threshold cb) \<and>
     (cb_state cb \<noteq> CLOSED \<longrightarrow> 1 \<le> cb_failure_count cb)"

lemma breaker_inv_new: "1 \<le> t \<Longrightarrow> breaker_inv (new_breaker now name t r)"
  by (simp add: breaker_inv_def new_breaker_def)

lemma call_guard_inv: "breaker_inv cb \<Longrightarrow> breaker_inv (snd (call_guard now cb))"
  by (simp add: breaker_inv_def call_guard_def)

lemma on_failure_inv: "breaker_inv cb \<Longrightarrow> breaker_inv (on_failure later cb)"
  by (auto simp: breaker_inv_def on_failure_def Let_def)

lemma on_success_inv: "1 \<le> cb_failure_threshold cb \<Longrightarrow> breaker_inv (on_success cb)"
  by (simp add: breaker_inv_def on_success_def)

lemma breaker_step_inv:
  "breaker_step s s' \<Longrightarrow> breaker_inv (fst s) \<and> 1 \<le> cb_failure_threshold (fst s) \<Longrightarrow>
     breaker_inv (fst s') \<and> 1 \<le> cb_failure_threshold (fst s')"
proof (induction rule: breaker_step.induct)
  case (refuse now cb cb' n)
  then show ?case using call_guard_inv [of cb now] by (auto simp: call_guard_def split: if_splits)
next
  case (start now cb cb' n)
  then show ?case using call_guard_inv [of cb now] by (auto simp: call_guard_def split: if_splits)
next
  case (failure cb n later)
  then show ?case using on_failure_inv [of cb later] by (auto simp: on_failure_def Let_def)
qed (simp_all add: on_success_inv, simp add: on_success_def)

lemma breaker_reachable_inv:
  assumes "1 \<le> t" and "breaker_reachable (new_breaker now name t r) s"
  shows "breaker_inv (fst s) \<and> 1 \<le> cb_failure_threshold (fst s)"
  using assms(2)
proof (induction rule: breaker_reachable.induct)
  case init
  then show ?case using breaker_inv_new [OF assms(1)] assms(1) by (simp add: new_breaker_def)
next
  case (step s s')
  show ?case by (rule breaker_step_inv [OF step.hyps(2) step.IH])
qed

text \<open>
  However the calls of several threads interleave, a breaker with a positive threshold is closed
  only while fewer failures than the threshold have been counted since the last success, and it is
  open or probing only after at least one counted failure.
\<close>

theorem breaker_closed_below_threshold:
  assumes "1 \<le> t" and "breaker_reachable (new_breaker now name t r) s"
  shows "breaker_inv (fst s)"
  by (rule conjunct1 [OF breaker_reachable_inv [OF assms]])

theorem breaker_closed_below_threshold_witness:
  "breaker_inv (on_failure 3 (new_breaker 0 ''redis'' 3 5))"
proof -
  let ?b = "new_breaker 0 ''redis'' 3 5"
  have "breaker_reachable ?b (?b, Suc 0)"
    by (rule breaker_reachable.step [OF breaker_reachable.init], rule breaker_step.start [of 1])
       (simp add: call_guard_def new_breaker_def)
  then have "breaker_reachable ?b (on_failure 3 ?b, 0)"
    by (rule breaker_reachable.step) (rule breaker_step.failure)
  from breaker_closed_below_threshold [OF _ this] show ?thesis by simp
qed

section \<open>A failing dependency\<close>

text \<open>
  A run of calls, one after another, against a dependency that always fails with a counted
  exception. The environment counts how often the dependency was really called.
\<close>

definition failing :: "exn \<Rightarrow> (nat, 'a) action" where
  "failing e n = (Inl e, Suc n)"

fun outage :: "(exn \<Rightarrow> bool) \<Rightarrow> exn \<Rightarrow> 'a \<Rightarrow> (py_float \<times> py_float) list \<Rightarrow> breaker \<Rightarrow> nat \<Rightarrow> nat \<times> breaker" where
  "outage expected e v [] cb n = (n, cb)"
| "outage expected e v ((now, later) # ts) cb n =
     (case cb_call expected now later cb (failing e) (Some (\<lambda>s. (Inr v, s))) n of
        (_, n, cb) \<Rightarrow> outage expected e v ts cb n)"

lemma outage_open:
  assumes "cb_state cb = OPEN"
    and "\<forall>(now, later) \<in> set ts. now < cb_last_state_change cb + cb_recovery_timeout cb"
  shows "outage expected e v ts cb n = (n, cb)"
  using assms by (induction ts) (auto simp: cb_call_def call_guard_def)

lemma outage_closed:
  assumes "expected e" "cb_state cb = CLOSED" "0 \<le> cb_failure_count cb"
    "cb_failure_count cb < cb_failure_threshold cb" "0 < cb_recovery_timeout cb"
    and "\<forall>(now, later) \<in> set ts. t0 \<le> now \<and> t0 \<le> later \<and> now < t0 + cb_recovery_timeout cb"
  shows "fst (outage expected e v ts cb n) = n + min (length ts) (nat (cb_failure_threshold cb - cb_failure_count cb)) \<and>
    (cb_state (snd (outage expected e v ts cb n)) = OPEN \<longleftrightarrow>
       nat (cb_failure_threshold cb - cb_failure_count cb) \<le> length ts)"
  using assms
proof (induction ts arbitrary: cb n)
  case (Cons p ts)
  obtain now later where p: "p = (now, later)" by fastforce
  define cb' where "cb' = on_failure later cb"
  have run: "outage expected e v (p # ts) cb n = outage expected e v ts cb' (Suc n)"
    using Cons.prems p by (simp add: cb_call_def call_guard_def failing_def cb'_def)
  show ?case
  proof (cases "cb_failure_count cb + 1 \<ge> cb_failure_threshold cb")
    case True
    then have one: "cb_failure_threshold cb - cb_failure_count cb = 1" using Cons.prems by linarith
    have cb': "cb_state cb' = OPEN" "cb_last_state_change cb' = later" "cb_recovery_timeout cb' = cb_recovery_timeout cb"
      using True by (simp_all add: cb'_def on_failure_def)
    have "\<forall>(now, l) \<in> set ts. now < cb_last_state_change cb' + cb_recovery_timeout cb'"
      using Cons.prems p cb' by fastforce
    then show ?thesis using outage_open [of cb' ts expected e v "Suc n"] cb' run one by simp
  next
    case False
    then have cb': "cb_state cb' = CLOSED" "cb_failure_count cb' = cb_failure_count cb + 1"
      "cb_failure_threshold cb' = cb_failure_threshold cb" "cb_recovery_timeout cb' = cb_recovery_timeout cb"
      using Cons.prems by (simp_all add: cb'_def on_failure_def)
    have "nat (cb_failure_threshold cb - cb_failure_count cb) = Suc (nat (cb_failure_threshold cb' - cb_failure_count cb'))"
      using False cb' by linarith
    then show ?thesis using Cons.IH [of cb' "Suc n"] Cons.prems cb' False run by simp
  qed
qed simp



text \<open>
  Once the recovery timeout has passed, an open breaker probes the dependency: the operation runs,
  one success closes the breaker and clears the count, one counted failure opens it again and restarts
  the timeout; before the timeout the operation does not run and the breaker does not change.
\<close>

theorem breaker_probe:
  assumes "cb_state cb = OPEN"
  shows "(now - cb_last_state_change cb < cb_recovery_timeout cb \<longrightarrow>
      cb_call expected now later cb operation fallback s =
        (case fallback of Some f \<Rightarrow> (fst (f s), snd (f s), cb)
         | None \<Rightarrow> (Inl (CircuitBreakerOpenError (''Circuit '' @ quoted (cb_name cb) @ '' is OPEN'')), s, cb))) \<and>
    (now - cb_last_state_change cb \<ge> cb_recovery_timeout cb \<longrightarrow>
      (case operation s of
         (Inr v, s') \<Rightarrow> cb_call expected now later cb operation fallback s =
            (Inr v, s', cb\<lparr>cb_state := CLOSED, cb_failure_count := 0\<rparr>)
       | (Inl e, s') \<Rightarrow> expected e \<longrightarrow> snd (snd (cb_call expected now later cb operation fallback s)) =
            cb\<lparr>cb_state := OPEN, cb_failure_count := cb_failure_count cb + 1, cb_last_state_change := later\<rparr>))"
  using assms
  by (auto simp: cb_call_def call_guard_def on_success_def on_failure_def Let_def split: option.splits prod.splits sum.splits)

theorem breaker_probe_witness:
  "cb_call (\<lambda>_. True) 9 9 ((new_breaker 0 ''b'' 3 5)\<lparr>cb_state := OPEN\<rparr>) (\<lambda>n. (Inr True, n + 1)) None (0::nat) =
     (Inr True, 1, new_breaker 0 ''b'' 3 5)"
  using breaker_probe [of "(new_breaker 0 ''b'' 3 5)\<lparr>cb_state := OPEN\<rparr>" 9 "\<lambda>_. True" 9 "\<lambda>n. (Inr True, n + 1)" None "0::nat"]
  by (simp add: new_breaker_def)

end
