(* ===== verification/Risk_Assessment.thy ===== *)
theory Risk_Assessment
  imports Users Circuit_Breaker
begin

text \<open>
  The risk model of \<^verbatim>\<open>libflow/ai/risk_assessment.py\<close>. The trained classifier is a file and a library; its
  probability for a feature vector is a parameter that may raise, as is \<open>numpy.log1p\<close>. The feature
  extraction, the circuit breaker around the classifier and the grading of the result are modelled.
\<close>

definition count_late :: "user \<Rightarrow> nat" where
  "count_late u = length (filter be_is_late (us_history u))"

definition count_damaged :: "user \<Rightarrow> nat" where
  "count_damaged u = length (filter be_is_damaged (us_history u))"

fun role_index :: "user_role \<Rightarrow> nat" where
  "role_index STUDENT = 0"
| "role_index FACULTY = 1"
| "role_index LIBRARIAN = 2"
| "role_index ADMIN = 3"

definition feature_names :: "string list" where
  "feature_names = [''role_encoded'', ''total_borrows_log'', ''late_ratio'', ''damaged_count'', ''fines_balance_scaled'', ''active_ratio'']"

definition features_from_user :: "(nat \<Rightarrow> py_float) \<Rightarrow> user \<Rightarrow> py_float list" where
  "features_from_user log1p u =
     (let total_borrows = length (us_history u);
          late_ratio = (if total_borrows > 0 then of_nat (count_late u) / of_nat total_borrows else 0);
          fines = max 0 (us_fines u);
          active_ratio = (if us_max_borrow_limit u \<noteq> 0 then of_nat (card (us_active u)) / of_int (us_max_borrow_limit u) else 0)
      in [of_nat (role_index (get_role u)), log1p total_borrows, late_ratio, of_nat (count_damaged u), fines / 200, min 1 active_ratio])"

datatype risk_level = RISK_LOW | RISK_MODERATE | RISK_HIGH

record risk_report =
  rk_user_id :: string
  rk_user_name :: string
  rk_risk_score_pct :: py_float
  rk_risk_level :: risk_level
  rk_require_security_deposit :: bool
  rk_recommended_deposit_amount :: py_float
  rk_factors :: "string list"
  rk_features :: "(string, py_float) dict"

definition grade :: "py_float \<Rightarrow> risk_level \<times> bool \<times> py_float" where
  "grade risk_pct =
     (if risk_pct \<ge> 75 then (RISK_HIGH, True, 1000)
      else if risk_pct \<ge> 40 then (RISK_MODERATE, False, 300)
      else (RISK_LOW, False, 0))"

definition risk_factors :: "(py_float \<Rightarrow> string) \<Rightarrow> user \<Rightarrow> string list" where
  "risk_factors show_money u =
     (let factors = (if count_late u > 0 then [show_nat (count_late u) @ '' past late returns.''] else []) @
            (if count_damaged u > 0 then [show_nat (count_damaged u) @ '' previously damaged/lost items.''] else []) @
            (if us_fines u > 0 then [''Outstanding fines balance of $'' @ show_money (us_fines u) @ ''.''] else [])
      in if factors = [] then [''Clean track record.''] else factors)"

definition new_risk_breaker :: "py_float \<Rightarrow> breaker" where
  "new_risk_breaker now = new_breaker now ''ml_risk_scoring'' 2 5"

definition evaluate_risk ::
  "(py_float list \<Rightarrow> exn + py_float) \<Rightarrow> (nat \<Rightarrow> py_float) \<Rightarrow> (py_float \<Rightarrow> string) \<Rightarrow> py_float \<Rightarrow> py_float \<Rightarrow> breaker \<Rightarrow> user \<Rightarrow>
   (exn + risk_report) \<times> breaker" where
  "evaluate_risk predict log1p show_money now later cb u =
     (let features = features_from_user log1p u
      in case cb_call (\<lambda>_. True) now later cb (\<lambda>s. (predict features, s)) (Some (\<lambda>s. (Inr (1/20), s))) () of
           (Inl e, _, cb) \<Rightarrow> (Inl e, cb)
         | (Inr probability, _, cb) \<Rightarrow>
             let risk_pct = py_round (probability * 100) 1;
                 (level, require_deposit, deposit) = grade risk_pct
             in (Inr \<lparr>rk_user_id = us_user_id u, rk_user_name = us_name u, rk_risk_score_pct = risk_pct, rk_risk_level = level,
                      rk_require_security_deposit = require_deposit, rk_recommended_deposit_amount = deposit,
                      rk_factors = risk_factors show_money u,
                      rk_features = zip feature_names (map (\<lambda>f. py_round f 4) features)\<rparr>, cb))"

section \<open>Properties\<close>

lemma count_le: "count_late u \<le> length (us_history u)" "count_damaged u \<le> length (us_history u)"
  by (simp_all add: count_late_def count_damaged_def)

lemma features_ranges:
  assumes "features_from_user log1p u = [role, borrows, late, damaged, fines, active]"
  shows "0 \<le> role \<and> role \<le> 3 \<and> 0 \<le> late \<and> late \<le> 1 \<and> 0 \<le> damaged \<and> 0 \<le> fines \<and> active \<le> 1"
proof -
  have "rat_of_nat (count_late u) \<le> of_nat (length (us_history u))" using count_le by simp
  then show ?thesis using assms
    by (cases "get_role u") (auto simp: features_from_user_def Let_def divide_le_eq_1 split: if_splits)
qed

lemma grade_mono: "a \<le> b \<Longrightarrow> snd (snd (grade a)) \<le> snd (snd (grade b)) \<and> (fst (snd (grade a)) \<longrightarrow> fst (snd (grade b)))"
  by (auto simp: grade_def)

text \<open>
  A risk assessment always succeeds with a percentage. Whatever the classifier does (it may raise) and
  whatever the state of the breaker, the assessment returns a report for the user; if the classifier's
  probabilities are between 0 and 1 the score is between 0 and 100, a deposit is required exactly from 75 on,
  and the deposit is 0, 300 or 1000. While the breaker is open and its recovery time has not passed the score
  is 5 and the level is low.
\<close>

theorem risk_assessment_total:
  assumes "\<And>x p. predict x = Inr p \<Longrightarrow> 0 \<le> p \<and> p \<le> 1"
  shows "\<exists>r cb'. evaluate_risk predict log1p show_money now later cb u = (Inr r, cb') \<and> rk_user_id r = us_user_id u \<and>
    0 \<le> rk_risk_score_pct r \<and> rk_risk_score_pct r \<le> 100 \<and> (rk_require_security_deposit r \<longleftrightarrow> 75 \<le> rk_risk_score_pct r) \<and>
    rk_recommended_deposit_amount r \<in> {0, 300, 1000} \<and> rk_factors r \<noteq> [] \<and>
    (\<not> fst (call_guard now cb) \<longrightarrow> rk_risk_score_pct r = 5 \<and> rk_risk_level r = RISK_LOW \<and> cb' = cb)"
proof -
  let ?f = "features_from_user log1p u"
  obtain p cb' where call: "cb_call (\<lambda>_. True) now later cb (\<lambda>s. (predict ?f, s)) (Some (\<lambda>s. (Inr (1/20), s))) () = (Inr p, (), cb')"
    and p: "0 \<le> p \<and> p \<le> 1" and shut: "\<not> fst (call_guard now cb) \<Longrightarrow> p = 1/20 \<and> cb' = cb"
  proof (cases "fst (call_guard now cb)")
    case False
    then have "call_guard now cb = (False, cb)" by (auto simp: call_guard_def split: if_splits)
    then show ?thesis by (intro that [of "1/20" cb]) (simp_all add: cb_call_def)
  next
    case True
    then obtain cb1 where g: "call_guard now cb = (True, cb1)" by (metis prod.collapse)
    show ?thesis
    proof (cases "predict ?f")
      case (Inl e)
      then show ?thesis using g by (intro that [of "1/20" "on_failure later cb1"]) (simp_all add: cb_call_def)
    next
      case (Inr p)
      then show ?thesis using g assms [OF Inr] by (intro that [of p "on_success cb1"]) (simp_all add: cb_call_def)
    qed
  qed
  let ?pct = "py_round (p * 100) 1"
  have five: "py_round 5 1 = 5" using py_round_of_int [of 5 1] by simp
  have "?pct \<le> py_round (of_int 100) 1" using p by (intro py_round_mono) simp
  then have pct: "0 \<le> ?pct" "?pct \<le> 100" using p by (simp_all add: py_round_nonneg py_round_of_int del: of_int_numeral)
  obtain level req dep where gr: "grade ?pct = (level, req, dep)" by (cases "grade ?pct")
  let ?r = "\<lparr>rk_user_id = us_user_id u, rk_user_name = us_name u, rk_risk_score_pct = ?pct, rk_risk_level = level,
    rk_require_security_deposit = req, rk_recommended_deposit_amount = dep, rk_factors = risk_factors show_money u,
    rk_features = zip feature_names (map (\<lambda>f. py_round f 4) ?f)\<rparr>"
  have run: "evaluate_risk predict log1p show_money now later cb u = (Inr ?r, cb')" unfolding evaluate_risk_def Let_def call prod.case sum.case gr ..
  have "req \<longleftrightarrow> 75 \<le> ?pct" "dep \<in> {0, 300, 1000}" using gr by (auto simp: grade_def split: if_splits)
  moreover have "risk_factors show_money u \<noteq> []" by (simp add: risk_factors_def Let_def)
  moreover have "?pct = 5 \<and> level = RISK_LOW \<and> cb' = cb" if "\<not> fst (call_guard now cb)"
  proof -
    have "p = 1/20" "cb' = cb" using shut that by blast+
    then have "p * 100 = 5" by simp
    then have "?pct = 5" using five by (simp only:)
    then show ?thesis using gr \<open>cb' = cb\<close> by (simp add: grade_def)
  qed
  ultimately show ?thesis using run pct by (intro exI [of _ ?r] exI [of _ cb']) simp
qed

theorem risk_assessment_total_witness:
  "\<exists>r cb'. evaluate_risk (\<lambda>_. Inl (ValueError ''broken'')) of_nat (\<lambda>_. []) 0 0 (new_risk_breaker 0) (new_admin ''U'' ''N'' ''e'' ''p'' ''B'') = (Inr r, cb') \<and>
     rk_user_id r = ''U'' \<and> rk_risk_score_pct r \<le> 100"
proof -
  have "0 \<le> p \<and> p \<le> 1" if "(\<lambda>_. Inl (ValueError ''broken'') :: exn + py_float) x = Inr p" for x :: "py_float list" and p using that by simp
  from risk_assessment_total [where predict = "\<lambda>_. Inl (ValueError ''broken'')", OF this, where log1p = of_nat and show_money = "\<lambda>_. []" and now = 0 and later = 0 and cb = "new_risk_breaker 0"
      and u = "new_admin ''U'' ''N'' ''e'' ''p'' ''B''"]
  show ?thesis by (auto simp: new_admin_def new_user_def)
qed

end
