(* ===== verification/Library_State.thy ===== *)
theory Library_State
  imports Repository Forecaster Outbox Lru_Cache Smart_Allocation Reservation_Queue Fines Payments
    Factory Autocomplete_Trie Inverted_Index Recommender Risk_Assessment
begin

text \<open>
  The state of the whole library as \<^verbatim>\<open>libflow/api/container.py\<close> wires it in memory: the repositories
  and, next to them, the cache, the reservation desk, the notification dispatcher, the demand forecaster,
  the outbox, the rebalancer, the branch manager, the event bus, the audit log, the allocation queues, the
  wallets, the search structures, the book graph, the recommender and the breaker of the risk model. What a call reads from outside (the clock, fresh identifiers, the formatting of dates and
  floats) is the record \<open>call_env\<close>. The event bus of the container has no subscribers of its own.
\<close>

section \<open>Tracking of autonomous transfers\<close>

record tracked_transfer =
  tk_transfer_id :: string
  tk_copy_id :: string
  tk_isbn :: string
  tk_source_branch_id :: string
  tk_dest_branch_id :: string
  tk_requested_at :: timestamp
  tk_arrived_at :: "timestamp option"
  tk_borrowed_at :: "timestamp option"
  tk_status :: string

record rebalancer =
  rb_max_transfers_per_branch :: int
  rb_transfers_tracked :: "(string, tracked_transfer) dict"
  rb_copy_to_transfer :: "(string, string) dict"

definition new_rebalancer :: rebalancer where
  "new_rebalancer = \<lparr>rb_max_transfers_per_branch = 3, rb_transfers_tracked = [], rb_copy_to_transfer = []\<rparr>"

section \<open>The container\<close>

record library = repo +
  lb_cache :: "(string, json) dict lru"
  lb_reservations :: reservation_mgr
  lb_dispatcher :: dispatcher
  lb_forecaster :: forecaster
  lb_outbox :: outbox
  lb_rebalancer :: rebalancer
  lb_branch_mgr :: branch_mgr
  lb_event_bus :: "unit event_bus"
  lb_audit :: "log_entry list"
  lb_allocation_queues :: "(string, allocation_queue) dict"
  lb_user_wallets :: wallets
  lb_fine_strategy :: fine_strategy
  lb_trie :: autocomplete_trie
  lb_index :: inv_index
  lb_graph :: book_graph
  lb_recommender :: recommender
  lb_risk_breaker :: breaker

definition build_in_memory_container :: library where
  "build_in_memory_container =
     \<lparr>rp_heap = Map.empty, rp_next = 0, rp_books = [], rp_copies = [], rp_locks = new_lock_mgr, rp_users = [],
      rp_branches = [], rp_records = [],
      lb_cache = new_lru 5000, lb_reservations = new_reservation_mgr, lb_dispatcher = container_dispatcher,
      lb_forecaster = new_forecaster, lb_outbox = [], lb_rebalancer = new_rebalancer, lb_branch_mgr = new_branch_mgr,
      lb_event_bus = new_event_bus, lb_audit = [], lb_allocation_queues = [], lb_user_wallets = [],
      lb_fine_strategy = DynamicDemandFineStrategy 10, lb_trie = new_trie, lb_index = new_index, lb_graph = new_graph,
      lb_recommender = new_recommender, lb_risk_breaker = new_risk_breaker 0\<rparr>"

record call_env =
  ev_now :: timestamp
  ev_uuid8 :: string
  ev_uuid12 :: string
  ev_pay :: pay_env
  ev_strftime :: "timestamp \<Rightarrow> string"
  ev_strfdate :: "timestamp \<Rightarrow> string"
  ev_show_float :: "py_float \<Rightarrow> string"
  ev_show_money :: "py_float \<Rightarrow> string"

definition date_of :: "timestamp \<Rightarrow> date" where
  "date_of t = t div 86400"

section \<open>Calls that several services make\<close>

definition lib_save_event :: "call_env \<Rightarrow> library \<Rightarrow> string \<Rightarrow> payload \<Rightarrow> library" where
  "lib_save_event env s topic payload =
     s\<lparr>lb_outbox := snd (save_event (ev_now env) (ev_uuid12 env) (lb_outbox s) topic payload)\<rparr>"

definition lib_invalidate :: "library \<Rightarrow> string \<Rightarrow> library" where
  "lib_invalidate s key = s\<lparr>lb_cache := snd (cache_invalidate (lb_cache s) key)\<rparr>"

definition lib_dispatch :: "call_env \<Rightarrow> library \<Rightarrow> string \<Rightarrow> string \<Rightarrow> string \<Rightarrow> payload \<Rightarrow> library" where
  "lib_dispatch env s event_type recipient_id message payload =
     s\<lparr>lb_dispatcher := dispatch (lb_dispatcher s)
        \<lparr>ne_event_type = event_type, ne_recipient_id = recipient_id, ne_message = message,
         ne_payload = payload, ne_timestamp = ev_now env\<rparr>\<rparr>"

definition lib_log :: "call_env \<Rightarrow> library \<Rightarrow> string \<Rightarrow> string \<Rightarrow> string \<Rightarrow> payload \<Rightarrow> library" where
  "lib_log env s actor_id action resource_id details =
     s\<lparr>lb_audit := log_event (ev_now env) (lb_audit s) actor_id action resource_id details\<rparr>"

definition lib_publish :: "library \<Rightarrow> string \<Rightarrow> payload \<Rightarrow> library" where
  "lib_publish s topic payload =
     (case bus_publish (lb_event_bus s) topic payload () of (_, bus, _) \<Rightarrow> s\<lparr>lb_event_bus := bus\<rparr>)"

text \<open>These calls do not touch the repositories.\<close>

definition same_repo :: "library \<Rightarrow> library \<Rightarrow> bool" where
  "same_repo s s' \<longleftrightarrow> rp_heap s' = rp_heap s \<and> rp_next s' = rp_next s \<and> rp_books s' = rp_books s \<and>
     rp_copies s' = rp_copies s \<and> rp_users s' = rp_users s"

lemma lib_calls_repo [simp]:
  "same_repo s (lib_save_event env s t p)" "same_repo s (lib_invalidate s k)" "same_repo s (lib_dispatch env s a b c p)"
  "same_repo s (lib_log env s a b c p)" "same_repo s (lib_publish s t p)"
  by (simp_all add: same_repo_def lib_save_event_def lib_invalidate_def lib_dispatch_def lib_log_def lib_publish_def
      split: prod.splits)

lemma same_repo_refl [simp]: "same_repo s s"
  by (simp add: same_repo_def)

lemma same_repo_trans: "same_repo s t \<Longrightarrow> same_repo t u \<Longrightarrow> same_repo s u"
  by (simp add: same_repo_def)

lemma same_repo_inv: "same_repo s s' \<Longrightarrow> repo_inv s' = repo_inv s"
  unfolding same_repo_def by (rule repo_inv_cong) auto

lemma same_repo_lookups: "same_repo s s' \<Longrightarrow> get_copy s' i = get_copy s i \<and> get_user s' u = get_user s u \<and> get_book s' b = get_book s b"
  by (simp add: same_repo_def get_copy_def get_user_def get_book_def split: option.splits)

lemma build_in_memory_inv: "repo_inv build_in_memory_container"
  by (simp add: repo_inv_def copies_ok_def books_ok_def users_ok_def build_in_memory_container_def)

end
