(* ===== verification/Circulation.thy ===== *)
theory Circulation
  imports Library_State
begin

text \<open>
  The circulation service of \<^verbatim>\<open>libflow/services/circulation_service.py\<close> over the state of the library:
  issue, return, smart allocation, and the reservation route. Every handler returns its result or
  exception together with the state it leaves behind, also when it raises. The body of a locking section
  is a definition of its own.
\<close>

section \<open>Feedback of the rebalancer\<close>

text \<open>\<open>record_checkout_hook\<close> of \<^verbatim>\<open>libflow/ai/rebalancer.py\<close>, which a checkout calls.\<close>

definition record_checkout_hook :: "timestamp \<Rightarrow> rebalancer \<Rightarrow> string \<Rightarrow> string \<Rightarrow> bool \<times> rebalancer" where
  "record_checkout_hook now rb copy_id branch_id =
     (let trf_id = dget (rb_copy_to_transfer rb) copy_id in
      if \<not> truthy trf_id then (False, rb)
      else case dget (rb_transfers_tracked rb) (the trf_id) of
             None \<Rightarrow> (False, rb)
           | Some meta \<Rightarrow>
               if tk_dest_branch_id meta \<noteq> branch_id then (False, rb)
               else case tk_arrived_at meta of
                      Some arrived \<Rightarrow>
                        if tk_borrowed_at meta = None \<and> now - arrived \<le> 7 * 86400
                        then (True, rb\<lparr>rb_transfers_tracked := dset (rb_transfers_tracked rb) (the trf_id)
                               (meta\<lparr>tk_borrowed_at := Some now, tk_status := ''CHECKED_OUT''\<rparr>)\<rparr>)
                        else (False, rb)
                    | None \<Rightarrow> (False, rb))"

section \<open>Issue\<close>

definition tx_record :: "call_env \<Rightarrow> string \<Rightarrow> string \<Rightarrow> string \<Rightarrow> timestamp \<Rightarrow> (string, json) dict" where
  "tx_record env copy_id isbn user_id due_date =
     [(''transaction_id'', JStr (''TX-'' @ ev_uuid8 env)), (''type'', JStr ''BORROW''), (''copy_id'', JStr copy_id),
      (''isbn'', JStr isbn), (''user_id'', JStr user_id), (''borrowed_at'', JInt (ev_now env)),
      (''due_date'', JInt due_date), (''returned_at'', JNull)]"

definition issue_section ::
  "call_env \<Rightarrow> string \<Rightarrow> string \<Rightarrow> int \<Rightarrow> library \<Rightarrow> (exn + (string, json) dict \<times> book_copy \<times> timestamp) \<times> library" where
  "issue_section env copy_id user_id loan_days s =
     (case get_user s user_id of
        None \<Rightarrow> (Inl (UserNotFoundError user_id), s)
      | Some u \<Rightarrow>
          if \<not> can_borrow u then (Inl (UserNotEligibleError user_id ''borrow limit reached or unpaid fines''), s)
          else case get_copy s copy_id of
            None \<Rightarrow> (Inl (CopyNotFoundError copy_id), s)
          | Some (r, c) \<Rightarrow>
              if copy_status c \<noteq> AVAILABLE \<and> \<not> (copy_status c = RESERVED \<and> cp_reserver c = Some user_id)
              then (Inl (CopyUnavailableError copy_id (Some (status_value (copy_status c)))), s)
              else case copy_check_out c user_id of
                Inl e \<Rightarrow> (Inl (InvalidStateTransitionError (exn_message e)), s)
              | Inr c \<Rightarrow>
                  let s = heap_put r c s;
                      u = add_borrow (ev_now env) u copy_id (cp_book_isbn c);
                      due_date = ev_now env + loan_days * 86400;
                      tx = tx_record env copy_id (cp_book_isbn c) user_id due_date;
                      s = save_record s tx;
                      s = save_copy s r;
                      s = save_user s u;
                      s = lib_save_event env s ''copy.issued''
                        [(''copy_id'', JStr copy_id), (''isbn'', JStr (cp_book_isbn c)), (''user_id'', JStr user_id),
                         (''due_date'', JInt due_date), (''transaction_id'', JStr (''TX-'' @ ev_uuid8 env))];
                      s = s\<lparr>lb_forecaster := record_checkout (lb_forecaster s) (cp_book_isbn c) (date_of (ev_now env)) (Some (cp_branch_id c))\<rparr>;
                      s = s\<lparr>lb_rebalancer := snd (record_checkout_hook (ev_now env) (lb_rebalancer s) copy_id (cp_branch_id c))\<rparr>;
                      s = lib_invalidate s (''book:'' @ cp_book_isbn c)
                  in (Inr (tx, c, due_date), s))"

definition issue_message :: "call_env \<Rightarrow> string \<Rightarrow> timestamp \<Rightarrow> string" where
  "issue_message env copy_id due_date =
     ''Book copy '' @ quoted copy_id @ '' issued successfully. Due on '' @ ev_strfdate env due_date @ ''.''"

definition issue_physical_book ::
  "call_env \<Rightarrow> library \<Rightarrow> string \<Rightarrow> string \<Rightarrow> string \<Rightarrow> int \<Rightarrow> (exn + (string, json) dict) \<times> library" where
  "issue_physical_book env s copy_id user_id actor_id loan_days =
     (case locking_section (ev_show_float env) copy_id (issue_section env copy_id user_id loan_days) s of
        (Inl e, s) \<Rightarrow> (Inl e, s)
      | (Inr (tx, c, due_date), s) \<Rightarrow>
          let s = lib_dispatch env s ''BOOK_ISSUED'' user_id (issue_message env copy_id due_date)
                    [(''copy_id'', JStr copy_id), (''isbn'', JStr (cp_book_isbn c)), (''due_date'', JInt due_date)];
              s = lib_log env s actor_id ''ISSUE_BOOK'' copy_id [(''user_id'', JStr user_id), (''isbn'', JStr (cp_book_isbn c))]
          in (Inr tx, s))"

section \<open>Return\<close>

definition assigned_json :: "reservation_entry option \<Rightarrow> json" where
  "assigned_json res = json_opt (\<lambda>e. JStr (re_reservation_id e)) res"

definition return_section ::
  "call_env \<Rightarrow> string \<Rightarrow> string \<Rightarrow> bool \<Rightarrow> bool \<Rightarrow> library \<Rightarrow> (exn + (string, json) dict) \<times> library" where
  "return_section env copy_id actor_id is_late is_damaged s =
     (case get_copy s copy_id of
        None \<Rightarrow> (Inl (CopyNotFoundError copy_id), s)
      | Some (r, c) \<Rightarrow>
          if \<not> truthy (cp_borrower c)
          then (Inl (InvalidStateTransitionError (''Copy '' @ quoted copy_id @ '' is not currently issued to any user.'')), s)
          else
            let borrower_id = the (cp_borrower c);
                s = (case get_user s borrower_id of
                       None \<Rightarrow> s
                     | Some u \<Rightarrow> save_user s (record_return (ev_now env) u copy_id is_late is_damaged))
            in case copy_return_book c of
                 Inl e \<Rightarrow> (Inl e, s)
               | Inr c \<Rightarrow>
                   let s = save_copy (heap_put r c s) r;
                       (assigned, rm, disp) = handle_copy_returned (ev_strftime env) (ev_now env) (lb_reservations s)
                          (Some (lb_dispatcher s)) (cp_book_isbn c) copy_id 48;
                       s = s\<lparr>lb_reservations := rm, lb_dispatcher := the disp\<rparr>
                   in case (case assigned of None \<Rightarrow> Inr c | Some e \<Rightarrow> copy_reserve c (re_user_id e)) of
                        Inl e \<Rightarrow> (Inl e, s)
                      | Inr c \<Rightarrow>
                          let s = (if assigned = None then s else save_copy (heap_put r c s) r);
                              s = lib_save_event env s ''copy.returned''
                                [(''copy_id'', JStr copy_id), (''isbn'', JStr (cp_book_isbn c)), (''user_id'', JStr borrower_id),
                                 (''is_late'', JBool is_late), (''is_damaged'', JBool is_damaged),
                                 (''assigned_reservation'', assigned_json assigned)];
                              s = lib_invalidate s (''book:'' @ cp_book_isbn c);
                              s = lib_log env s actor_id ''RETURN_BOOK'' copy_id
                                [(''previous_borrower'', JStr borrower_id), (''is_late'', JBool is_late),
                                 (''is_damaged'', JBool is_damaged), (''assigned_reservation'', assigned_json assigned)]
                          in (Inr [(''copy_id'', JStr copy_id), (''status'', JStr (status_value (copy_status c))),
                                   (''previous_borrower'', JStr borrower_id),
                                   (''auto_assigned_to_reservation'', json_opt (\<lambda>e. JObj (reservation_to_dict e)) assigned)], s))"

definition return_physical_book ::
  "call_env \<Rightarrow> library \<Rightarrow> string \<Rightarrow> string \<Rightarrow> bool \<Rightarrow> bool \<Rightarrow> (exn + (string, json) dict) \<times> library" where
  "return_physical_book env s copy_id actor_id is_late is_damaged =
     locking_section (ev_show_float env) copy_id (return_section env copy_id actor_id is_late is_damaged) s"

section \<open>Smart allocation\<close>

definition request_smart_allocation :: "call_env \<Rightarrow> library \<Rightarrow> string \<Rightarrow> string \<Rightarrow> (exn + (string, json) dict) \<times> library" where
  "request_smart_allocation env s isbn user_id =
     (case get_user s user_id of
        None \<Rightarrow> (Inl (UserNotFoundError user_id), s)
      | Some u \<Rightarrow>
          let queue = dget_default (lb_allocation_queues s) isbn (new_queue isbn);
              (req, queue) = enqueue (date_of (ev_now env)) (ev_now env) queue (''ALLOC-'' @ ev_uuid8 env) u ''BRANCH-CENTRAL'' None;
              s = s\<lparr>lb_allocation_queues := dset (lb_allocation_queues s) isbn queue\<rparr>
          in (Inr [(''request_id'', JStr (rq_request_id req)), (''isbn'', JStr isbn), (''user_id'', JStr user_id),
                   (''calculated_priority'', JFloat (rq_actual_priority req)), (''queue_position'', JInt (int (queue_size queue)))], s))"

definition process_smart_allocation_drop :: "call_env \<Rightarrow> library \<Rightarrow> string \<Rightarrow> (exn + (string, json) dict option) \<times> library" where
  "process_smart_allocation_drop env s isbn =
     (case dget (lb_allocation_queues s) isbn of
        None \<Rightarrow> (Inr None, s)
      | Some queue \<Rightarrow>
          if queue_size queue = 0 then (Inr None, s)
          else case get_book s isbn of
            None \<Rightarrow> (Inr None, s)
          | Some b \<Rightarrow>
              if \<not> is_physical b then (Inr None, s)
              else case get_available_copies (rp_heap s) b None of
                [] \<Rightarrow> (Inr None, s)
              | c # _ \<Rightarrow>
                  (case pop_highest_priority queue of
                     (None, queue) \<Rightarrow> (Inr None, s\<lparr>lb_allocation_queues := dset (lb_allocation_queues s) isbn queue\<rparr>)
                   | (Some top_req, queue) \<Rightarrow>
                       let s = s\<lparr>lb_allocation_queues := dset (lb_allocation_queues s) isbn queue\<rparr>
                       in case issue_physical_book env s (cp_copy_id c) (rq_user_id top_req) ''SMART_ALLOCATOR'' 14 of
                            (Inl e, s) \<Rightarrow> (Inl e, s)
                          | (Inr tx, s) \<Rightarrow>
                              (Inr (Some [(''assigned_user_id'', JStr (rq_user_id top_req)), (''user_name'', JStr (rq_user_name top_req)),
                                 (''copy_id'', JStr (cp_copy_id c)), (''priority'', JFloat (rq_actual_priority top_req)),
                                 (''transaction'', JObj tx)]), s)))"

section \<open>The reservation route\<close>

definition route_reserve_book :: "call_env \<Rightarrow> library \<Rightarrow> string \<Rightarrow> string \<Rightarrow> (string, json) dict \<times> library" where
  "route_reserve_book env s isbn user_id =
     (case reserve_book (ev_now env) (ev_uuid8 env) (lb_reservations s) isbn user_id 0 of
        (r, rm) \<Rightarrow>
          ([(''status'', JStr ''SUCCESS''), (''reservation'', JObj (reservation_to_dict (the (rm_heap rm r))))],
           s\<lparr>lb_reservations := rm\<rparr>))"

section \<open>The ledger\<close>

text \<open>Who holds a copy according to the copies, and the invariant that ties it to the users' loans.\<close>

definition holder :: "'m repo_scheme \<Rightarrow> string \<Rightarrow> string option" where
  "holder s cid = (case get_copy s cid of Some (r, c) \<Rightarrow> if copy_status c = ISSUED then cp_borrower c else None | None \<Rightarrow> None)"

definition loans :: "'m repo_scheme \<Rightarrow> string \<Rightarrow> string set" where
  "loans s u = (case get_user s u of Some usr \<Rightarrow> us_active usr | None \<Rightarrow> {})"

definition within_limit :: "user \<Rightarrow> bool" where
  "within_limit u \<longleftrightarrow> us_active u = {} \<or> int (card (us_active u)) \<le> us_max_borrow_limit u"

definition no_locks :: "'m repo_scheme \<Rightarrow> bool" where
  "no_locks s \<longleftrightarrow> (\<forall>r. \<not> mutex_locked (rp_locks s) r)"

definition ledger_inv :: "'m repo_scheme \<Rightarrow> bool" where
  "ledger_inv s \<longleftrightarrow> repo_inv s \<and>
     (\<forall>cid r c. get_copy s cid = Some (r, c) \<longrightarrow> copy_consistent c) \<and>
     (\<forall>cid u. holder s cid = Some u \<longleftrightarrow> cid \<in> loans s u) \<and>
     (\<forall>i u. get_user s i = Some u \<longrightarrow> within_limit u)"

lemma ledger_repo: "ledger_inv s \<Longrightarrow> repo_inv s"
  by (simp add: ledger_inv_def)

lemma get_user_id: "repo_inv s \<Longrightarrow> get_user s i = Some u \<Longrightarrow> us_user_id u = i \<and> finite (us_active u)"
  by (simp add: repo_inv_def users_ok_def get_user_def)

lemma locks_lookups [simp]:
  "get_copy (s\<lparr>rp_locks := l\<rparr>) i = get_copy s i" "get_user (s\<lparr>rp_locks := l\<rparr>) u = get_user s u" "get_book (s\<lparr>rp_locks := l\<rparr>) b = get_book s b"
  by (simp_all add: get_copy_def get_user_def get_book_def split: option.splits)

lemma locks_frame [simp]:
  "holder (s\<lparr>rp_locks := l\<rparr>) i = holder s i" "loans (s\<lparr>rp_locks := l\<rparr>) u = loans s u"
  by (simp_all add: holder_def loans_def)

lemma locks_repo [simp]: "repo_inv (s\<lparr>rp_locks := l\<rparr>) = repo_inv s"
  by (rule repo_inv_cong) simp_all

lemma ledger_locks [simp]: "ledger_inv (s\<lparr>rp_locks := l\<rparr>) = ledger_inv s"
  by (simp add: ledger_inv_def)

lemma ledger_cong:
  assumes "rp_heap s' = rp_heap s" "rp_next s' = rp_next s" "rp_books s' = rp_books s" "rp_copies s' = rp_copies s" "rp_users s' = rp_users s"
  shows "ledger_inv s' = ledger_inv s"
proof -
  have "get_copy s' = get_copy s" "get_user s' = get_user s" using assms by (auto simp: get_copy_def get_user_def fun_eq_iff split: option.splits)
  moreover have "repo_inv s' = repo_inv s" using assms by (rule repo_inv_cong)
  ultimately show ?thesis by (simp add: ledger_inv_def holder_def loans_def)
qed

lemma same_repo_ledger: "same_repo s s' \<Longrightarrow> ledger_inv s' = ledger_inv s"
  unfolding same_repo_def by (rule ledger_cong) auto

text \<open>The shape of a locking section when no lock is held.\<close>

lemma locking_section_free:
  assumes "no_locks s"
  obtains l where "locking_section sf cid body s =
    (let (r, s') = body (s\<lparr>rp_locks := l\<rparr>)
     in (r, s'\<lparr>rp_locks := (rp_locks s')\<lparr>lm_mutexes := dset (lm_mutexes (rp_locks s')) cid False\<rparr>\<rparr>))"
    "\<forall>r. mutex_locked l r \<longleftrightarrow> r = cid"
proof -
  let ?lm = "snd (get_resource_mutex (rp_locks s) cid)"
  have f: "get_resource_mutex (rp_locks s) cid = (False, ?lm)"
    using assms get_resource_mutex_fst [of "rp_locks s" cid] by (metis no_locks_def prod.collapse)
  show ?thesis
  proof (rule that)
    show "locking_section sf cid body s =
      (let (r, s') = body (s\<lparr>rp_locks := ?lm\<lparr>lm_mutexes := dset (lm_mutexes ?lm) cid True\<rparr>\<rparr>)
       in (r, s'\<lparr>rp_locks := (rp_locks s')\<lparr>lm_mutexes := dset (lm_mutexes (rp_locks s')) cid False\<rparr>\<rparr>))"
      by (subst locking_section_def, subst f) simp
    show "\<forall>r. mutex_locked (?lm\<lparr>lm_mutexes := dset (lm_mutexes ?lm) cid True\<rparr>) r \<longleftrightarrow> r = cid"
      using assms by (simp add: no_locks_def)
  qed
qed

text \<open>
  Updating one copy and one user together, the pattern of both circulation handlers: the copy changes
  hands exactly as the user's set of loans does.
\<close>

lemma ledger_update:
  assumes inv: "ledger_inv s" and c: "get_copy s cid = Some (r, c)" and u: "get_user s i = Some u"
    and ids: "cp_copy_id c' = cp_copy_id c" "cp_book_isbn c' = cp_book_isbn c" "copy_consistent c'"
    and u': "us_user_id u' = i" "within_limit u'" "finite (us_active u')"
    and old: "\<And>v. v \<noteq> i \<Longrightarrow> holder s cid \<noteq> Some v"
    and new: "us_active u' = (if copy_status c' = ISSUED \<and> cp_borrower c' = Some i then insert cid (us_active u) else us_active u - {cid})"
    and only: "\<And>v. copy_status c' = ISSUED \<Longrightarrow> cp_borrower c' = Some v \<Longrightarrow> v = i"
    and st: "rp_heap s' = (rp_heap s)(r := Some c')" "rp_users s' = dset (rp_users s) i u'" "rp_copies s' = rp_copies s"
      "rp_books s' = rp_books s" "rp_next s' = rp_next s"
  shows "ledger_inv s'"
proof -
  have repo: "repo_inv s" by (rule ledger_repo [OF inv])
  let ?t = "save_user (heap_put r c' s) u'"
  have "repo_inv ?t" by (rule save_user_inv [OF heap_put_inv [OF repo c ids(1,2)] u'(3)])
  then have repo': "repo_inv s'" using repo_inv_cong [of s' ?t] st u'(1) by (simp add: save_user_def)
  have cp: "get_copy s' j = (if j = cid then Some (r, c') else get_copy s j)" for j
    using get_copy_heap_put [OF repo c, of c' j] get_copy_cong [of s' "heap_put r c' s" j] st by simp
  have us: "get_user s' j = (if j = i then Some u' else get_user s j)" for j
    by (simp add: get_user_def st(2))
  have hold: "holder s' j = (if j = cid then (if copy_status c' = ISSUED then cp_borrower c' else None) else holder s j)" for j
    by (simp add: holder_def cp)
  have lo: "loans s' v = (if v = i then us_active u' else loans s v)" for v by (simp add: loans_def us)
  have led: "holder s j = Some v \<longleftrightarrow> j \<in> loans s v" for j v using inv by (simp add: ledger_inv_def)
  have i: "loans s i = us_active u" by (simp add: loans_def u)
  have "holder s' j = Some v \<longleftrightarrow> j \<in> loans s' v" for j v
  proof (cases "j = cid")
    case True
    have "cid \<notin> loans s v" if "v \<noteq> i" using old [OF that] led by blast
    moreover have "cid \<in> us_active u' \<longleftrightarrow> copy_status c' = ISSUED \<and> cp_borrower c' = Some i" by (simp add: new)
    moreover have "holder s' j = Some v \<longleftrightarrow> copy_status c' = ISSUED \<and> cp_borrower c' = Some v" by (simp add: hold True)
    moreover have "j \<in> loans s' v \<longleftrightarrow> (if v = i then cid \<in> us_active u' else cid \<in> loans s v)" by (simp add: lo True)
    ultimately show ?thesis using only [of v] by (cases "v = i") (simp_all, blast)
  next
    case False
    then have "j \<in> us_active u' \<longleftrightarrow> j \<in> us_active u" by (simp add: new)
    then have "j \<in> loans s' v \<longleftrightarrow> j \<in> loans s v" by (simp add: lo i)
    then show ?thesis using False led [of j v] by (simp add: hold)
  qed
  moreover have "copy_consistent d" if "get_copy s' j = Some (x, d)" for j x d
    using that ids(3) inv unfolding ledger_inv_def by (metis cp old.prod.inject option.inject)
  moreover have "within_limit v" if "get_user s' j = Some v" for j v
    using that u'(2) inv unfolding ledger_inv_def by (metis us option.inject)
  ultimately show ?thesis using repo' unfolding ledger_inv_def by blast
qed

text \<open>Changing a copy that nobody holds before or after.\<close>

lemma ledger_shelf:
  assumes inv: "ledger_inv s" and c: "get_copy s cid = Some (r, c)" "copy_status c \<noteq> ISSUED"
    and ids: "cp_copy_id c' = cp_copy_id c" "cp_book_isbn c' = cp_book_isbn c" "copy_consistent c'" "copy_status c' \<noteq> ISSUED"
    and st: "rp_heap s' = (rp_heap s)(r := Some c')" "rp_users s' = rp_users s" "rp_copies s' = rp_copies s"
      "rp_books s' = rp_books s" "rp_next s' = rp_next s"
  shows "ledger_inv s'"
proof -
  have repo: "repo_inv s" by (rule ledger_repo [OF inv])
  have repo': "repo_inv s'"
    using heap_put_inv [OF repo c(1) ids(1,2)] repo_inv_cong [of s' "heap_put r c' s"] st by simp
  have cp: "get_copy s' j = (if j = cid then Some (r, c') else get_copy s j)" for j
    using get_copy_heap_put [OF repo c(1), of c' j] get_copy_cong [of s' "heap_put r c' s" j] st by simp
  have us: "get_user s' j = get_user s j" for j by (simp add: get_user_def st(2))
  have "holder s' j = holder s j" for j using c ids(4) by (auto simp: holder_def cp)
  moreover have "loans s' v = loans s v" for v by (simp add: loans_def us)
  moreover have "copy_consistent d" if "get_copy s' j = Some (x, d)" for j x d
    using that ids(3) inv unfolding ledger_inv_def by (metis cp old.prod.inject option.inject)
  ultimately show ?thesis using repo' inv unfolding ledger_inv_def by (simp add: us)
qed

section \<open>Issue: every outcome\<close>

lemma hook_irrelevant [simp]:
  "same_repo s (s\<lparr>lb_forecaster := f\<rparr>)" "same_repo s (s\<lparr>lb_rebalancer := rb\<rparr>)" "same_repo s (s\<lparr>lb_reservations := rm, lb_dispatcher := d\<rparr>)"
  "same_repo s (s\<lparr>lb_allocation_queues := q\<rparr>)" "same_repo s (s\<lparr>lb_reservations := rm\<rparr>)" "same_repo s (save_record s tx)"
  by (simp_all add: same_repo_def save_record_def)

lemma issue_section_raise: "issue_section env cid uid days s = (Inl e, s') \<Longrightarrow> s' = s"
  by (auto simp: issue_section_def Let_def split: option.splits if_splits sum.splits)

definition issue_guard :: "library \<Rightarrow> string \<Rightarrow> string \<Rightarrow> copy_ref \<Rightarrow> book_copy \<Rightarrow> user \<Rightarrow> bool" where
  "issue_guard s cid uid r c u \<longleftrightarrow> get_user s uid = Some u \<and> can_borrow u \<and> get_copy s cid = Some (r, c) \<and>
     (copy_status c = AVAILABLE \<or> copy_status c = RESERVED \<and> cp_reserver c = Some uid)"

definition issued_copy :: "book_copy \<Rightarrow> string \<Rightarrow> book_copy" where
  "issued_copy c uid = c\<lparr>cp_borrower := Some uid, cp_reserver := (if copy_status c = RESERVED then None else cp_reserver c),
     cp_state := IssuedState, cp_borrow_count := cp_borrow_count c + 1\<rparr>"

lemma check_out_guarded:
  "copy_status c = AVAILABLE \<or> copy_status c = RESERVED \<and> cp_reserver c = Some uid \<Longrightarrow> copy_check_out c uid = Inr (issued_copy c uid)"
  by (auto simp: issued_copy_def)

lemma issue_section_ok:
  assumes "repo_inv s" "issue_section env cid uid days s = (Inr (tx, c', due), s')"
  obtains r c u where "issue_guard s cid uid r c u" "c' = issued_copy c uid" "due = ev_now env + days * 86400"
    "tx = tx_record env cid (cp_book_isbn c) uid due"
    "rp_heap s' = (rp_heap s)(r := Some (issued_copy c uid))"
    "rp_users s' = dset (rp_users s) uid (add_borrow (ev_now env) u cid (cp_book_isbn c))"
    "rp_copies s' = rp_copies s" "rp_books s' = rp_books s" "rp_next s' = rp_next s" "rp_locks s' = rp_locks s"
    "rp_records s' = rp_records s @ [tx]"
    "lb_outbox s' = lb_outbox s @ [fst (save_event (ev_now env) (ev_uuid12 env) (lb_outbox s) ''copy.issued''
        [(''copy_id'', JStr cid), (''isbn'', JStr (cp_book_isbn c)), (''user_id'', JStr uid),
         (''due_date'', JInt due), (''transaction_id'', JStr (''TX-'' @ ev_uuid8 env))])]"
    "lb_reservations s' = lb_reservations s" "lb_allocation_queues s' = lb_allocation_queues s"
    "lb_branch_mgr s' = lb_branch_mgr s" "lb_cache s' = snd (cache_invalidate (lb_cache s) (''book:'' @ cp_book_isbn c))"
proof -
  from assms(2) obtain u r c where g: "issue_guard s cid uid r c u"
    by (auto simp: issue_section_def issue_guard_def Let_def split: option.splits if_splits sum.splits)
  let ?c' = "issued_copy c uid"
  have out: "copy_check_out c uid = Inr ?c'" using g check_out_guarded by (auto simp: issue_guard_def)
  have ids: "cp_book_isbn ?c' = cp_book_isbn c" "cp_copy_id ?c' = cp_copy_id c" by (simp_all add: issued_copy_def)
  have gc: "get_copy s cid = Some (r, c)" "get_user s uid = Some u" using g by (auto simp: issue_guard_def)
  have id: "us_user_id u = uid" using get_user_id [OF assms(1) gc(2)] by simp
  let ?t = "save_record (heap_put r ?c' s) tx"
  have "repo_inv ?t"
    using heap_put_inv [OF assms(1) gc(1) ids(2,1)] by (subst same_repo_inv [of "heap_put r ?c' s"]) simp_all
  moreover have "get_copy ?t cid = Some (r, ?c')"
    using get_copy_heap_put [OF assms(1) gc(1), of ?c' cid] same_repo_lookups [of "heap_put r ?c' s" ?t cid] by simp
  ultimately have save: "save_copy ?t r = ?t" by (rule save_copy_idem)
  have c': "c' = ?c'" "due = ev_now env + days * 86400" "tx = tx_record env cid (cp_book_isbn c) uid due"
    using assms(2) g out ids by (auto simp: issue_section_def issue_guard_def Let_def)
  have s': "s' = snd (issue_section env cid uid days s)" using assms(2) by simp
  have st: "issue_section env cid uid days s = (Inr (tx, ?c', due),
      let s = save_user ?t (add_borrow (ev_now env) u cid (cp_book_isbn c));
          s = lib_save_event env s ''copy.issued''
                        [(''copy_id'', JStr cid), (''isbn'', JStr (cp_book_isbn c)), (''user_id'', JStr uid),
                         (''due_date'', JInt due), (''transaction_id'', JStr (''TX-'' @ ev_uuid8 env))];
          s = s\<lparr>lb_forecaster := record_checkout (lb_forecaster s) (cp_book_isbn c) (date_of (ev_now env)) (Some (cp_branch_id ?c'))\<rparr>;
          s = s\<lparr>lb_rebalancer := snd (record_checkout_hook (ev_now env) (lb_rebalancer s) cid (cp_branch_id ?c'))\<rparr>
      in lib_invalidate s (''book:'' @ cp_book_isbn c))"
    using g out ids save c' by (auto simp: issue_section_def issue_guard_def Let_def)
  show ?thesis
    by (rule that [OF g]) (use c' s' st id in \<open>simp_all add: Let_def lib_invalidate_def lib_save_event_def save_user_def
        save_record_def heap_put_def save_event_def add_borrow_def\<close>)
qed

lemma issued_copy_consistent: "copy_consistent c \<Longrightarrow> copy_status c = AVAILABLE \<or> copy_status c = RESERVED \<Longrightarrow> copy_consistent (issued_copy c uid)"
  by (cases "cp_state c") (auto simp: copy_consistent_def issued_copy_def copy_status_def)

lemma can_borrow_limit:
  assumes "can_borrow u" "within_limit u" "finite (us_active u)"
  shows "within_limit (add_borrow now u cid isbn)"
proof -
  have "card (insert cid (us_active u)) \<le> Suc (card (us_active u))" using assms(3) by (simp add: card_insert_if)
  then show ?thesis using assms(1) by (auto simp: can_borrow_def within_limit_def add_borrow_def split: if_splits)
qed

lemma issue_section_ledger:
  assumes inv: "ledger_inv s" and ok: "issue_section env cid uid days s = (Inr (tx, c', due), s')"
  shows "ledger_inv s'"
proof -
  have repo: "repo_inv s" by (rule ledger_repo [OF inv])
  obtain r c u where g: "issue_guard s cid uid r c u"
    and st: "rp_heap s' = (rp_heap s)(r := Some (issued_copy c uid))"
    "rp_users s' = dset (rp_users s) uid (add_borrow (ev_now env) u cid (cp_book_isbn c))"
    "rp_copies s' = rp_copies s" "rp_books s' = rp_books s" "rp_next s' = rp_next s"
    by (rule issue_section_ok [OF repo ok])
  have gc: "get_copy s cid = Some (r, c)" "get_user s uid = Some u" using g by (auto simp: issue_guard_def)
  have u: "us_user_id u = uid" "finite (us_active u)" "within_limit u"
    using get_user_id [OF repo gc(2)] inv gc(2) by (auto simp: ledger_inv_def)
  have con: "copy_consistent (issued_copy c uid)"
    using inv gc(1) g by (intro issued_copy_consistent) (auto simp: ledger_inv_def issue_guard_def)
  have free: "holder s cid = None" using g gc by (auto simp: holder_def issue_guard_def)
  show ?thesis
  proof (rule ledger_update [OF inv gc _ _ con _ _ _ _ _ _ st])
    show "within_limit (add_borrow (ev_now env) u cid (cp_book_isbn c))"
      using g u by (intro can_borrow_limit) (auto simp: issue_guard_def)
  qed (use u free in \<open>auto simp: issued_copy_def add_borrow_def\<close>)
qed

text \<open>The whole handler, under no lock.\<close>

lemma issue_raise:
  assumes "no_locks s" "issue_physical_book env s cid uid actor days = (Inl e, s')"
  shows "\<exists>l. s' = s\<lparr>rp_locks := l\<rparr> \<and> no_locks s'"
proof -
  obtain l where l: "locking_section (ev_show_float env) cid (issue_section env cid uid days) s =
    (let (r, s') = issue_section env cid uid days (s\<lparr>rp_locks := l\<rparr>)
     in (r, s'\<lparr>rp_locks := (rp_locks s')\<lparr>lm_mutexes := dset (lm_mutexes (rp_locks s')) cid False\<rparr>\<rparr>))"
    "\<forall>r. mutex_locked l r \<longleftrightarrow> r = cid"
    by (rule locking_section_free [OF assms(1), where sf = "ev_show_float env" and cid = cid and body = "issue_section env cid uid days"])
  obtain x t where t: "issue_section env cid uid days (s\<lparr>rp_locks := l\<rparr>) = (Inl x, t)"
    using assms(2) l(1) by (auto simp: issue_physical_book_def Let_def split: prod.splits sum.splits)
  then have "t = s\<lparr>rp_locks := l\<rparr>" by (rule issue_section_raise)
  then have "s' = s\<lparr>rp_locks := l\<lparr>lm_mutexes := dset (lm_mutexes l) cid False\<rparr>\<rparr>"
    using assms(2) l(1) t by (simp add: issue_physical_book_def)
  then show ?thesis using l(2) by (auto simp: no_locks_def)
qed

lemma issue_refused:
  assumes "no_locks s" "issue_physical_book env s cid uid actor days = (Inl e, s')"
  shows "\<nexists>r c u. issue_guard s cid uid r c u"
proof clarify
  fix r c u assume g: "issue_guard s cid uid r c u"
  obtain l where l: "locking_section (ev_show_float env) cid (issue_section env cid uid days) s =
    (let (r, s') = issue_section env cid uid days (s\<lparr>rp_locks := l\<rparr>)
     in (r, s'\<lparr>rp_locks := (rp_locks s')\<lparr>lm_mutexes := dset (lm_mutexes (rp_locks s')) cid False\<rparr>\<rparr>))"
    by (rule locking_section_free [OF assms(1), where sf = "ev_show_float env" and cid = cid and body = "issue_section env cid uid days"])
  have "copy_check_out c uid = Inr (issued_copy c uid)" using g check_out_guarded by (auto simp: issue_guard_def)
  then have "is_ok (fst (issue_section env cid uid days (s\<lparr>rp_locks := l\<rparr>)))"
    using g by (auto simp: issue_section_def issue_guard_def Let_def)
  then show False using assms(2) l by (auto simp: issue_physical_book_def Let_def is_ok_def split: prod.splits sum.splits)
qed

lemma issue_ok:
  assumes "no_locks s" "repo_inv s" "issue_physical_book env s cid uid actor days = (Inr tx, s')"
  obtains r c u where "issue_guard s cid uid r c u"
    "tx = tx_record env cid (cp_book_isbn c) uid (ev_now env + days * 86400)"
    "rp_heap s' = (rp_heap s)(r := Some (issued_copy c uid))"
    "rp_users s' = dset (rp_users s) uid (add_borrow (ev_now env) u cid (cp_book_isbn c))"
    "rp_copies s' = rp_copies s" "rp_books s' = rp_books s" "rp_next s' = rp_next s" "no_locks s'"
    "rp_records s' = rp_records s @ [tx]"
    "lb_outbox s' = lb_outbox s @ [fst (save_event (ev_now env) (ev_uuid12 env) (lb_outbox s) ''copy.issued''
        [(''copy_id'', JStr cid), (''isbn'', JStr (cp_book_isbn c)), (''user_id'', JStr uid),
         (''due_date'', JInt (ev_now env + days * 86400)), (''transaction_id'', JStr (''TX-'' @ ev_uuid8 env))])]"
    "lb_reservations s' = lb_reservations s" "lb_allocation_queues s' = lb_allocation_queues s"
    "lb_branch_mgr s' = lb_branch_mgr s" "ledger_inv s \<Longrightarrow> ledger_inv s'"
    "lb_cache s' = snd (cache_invalidate (lb_cache s) (''book:'' @ cp_book_isbn c))"
proof -
  obtain l where l: "locking_section (ev_show_float env) cid (issue_section env cid uid days) s =
    (let (r, s') = issue_section env cid uid days (s\<lparr>rp_locks := l\<rparr>)
     in (r, s'\<lparr>rp_locks := (rp_locks s')\<lparr>lm_mutexes := dset (lm_mutexes (rp_locks s')) cid False\<rparr>\<rparr>))"
    "\<forall>r. mutex_locked l r \<longleftrightarrow> r = cid"
    by (rule locking_section_free [OF assms(1), where sf = "ev_show_float env" and cid = cid and body = "issue_section env cid uid days"])
  obtain c' due t where t: "issue_section env cid uid days (s\<lparr>rp_locks := l\<rparr>) = (Inr (tx, c', due), t)"
    using assms(3) l(1) by (auto simp: issue_physical_book_def Let_def split: prod.splits sum.splits)
  let ?t = "t\<lparr>rp_locks := (rp_locks t)\<lparr>lm_mutexes := dset (lm_mutexes (rp_locks t)) cid False\<rparr>\<rparr>"
  have same: "same_repo ?t s'" "rp_records s' = rp_records t" "lb_outbox s' = lb_outbox t" "rp_locks s' = rp_locks ?t"
    "lb_reservations s' = lb_reservations t" "lb_allocation_queues s' = lb_allocation_queues t" "lb_branch_mgr s' = lb_branch_mgr t" "lb_cache s' = lb_cache t"
    using assms(3) l(1) t by (auto simp: issue_physical_book_def Let_def same_repo_def lib_dispatch_def lib_log_def)
  have repo: "repo_inv (s\<lparr>rp_locks := l\<rparr>)" using assms(2) by simp
  have led: "ledger_inv s'" if "ledger_inv s"
    using that issue_section_ledger [OF _ t] same_repo_ledger [OF same(1)] by simp
  show ?thesis
  proof (rule issue_section_ok [OF repo t], goal_cases)
    case (1 r c u)
    have "issue_guard s cid uid r c u" using 1(1) by (simp add: issue_guard_def)
    moreover have "no_locks s'" using l(2) 1(10) same(4) by (simp add: no_locks_def)
    ultimately show ?thesis using 1 same led by (intro that [of r c u]) (simp_all add: same_repo_def)
  qed
qed

section \<open>Return: every outcome\<close>

lemma record_return_user [simp]:
  "us_user_id (record_return now u cid l d) = us_user_id u" "us_active (record_return now u cid l d) = us_active u - {cid}"
  "us_max_borrow_limit (record_return now u cid l d) = us_max_borrow_limit u"
  by (simp_all add: record_return_def)

lemma record_return_limit: "within_limit u \<Longrightarrow> finite (us_active u) \<Longrightarrow> within_limit (record_return now u cid l d)"
  using card_Diff1_le [of "us_active u" cid] by (auto simp: within_limit_def)

lemma borrowed_is_issued:
  assumes "ledger_inv s" "get_copy s cid = Some (r, c)" "truthy (cp_borrower c)"
  obtains b u where "cp_borrower c = Some b" "copy_status c = ISSUED" "get_user s b = Some u" "cid \<in> us_active u" "holder s cid = Some b"
proof -
  have con: "copy_consistent c" using assms by (simp add: ledger_inv_def)
  obtain b where b: "cp_borrower c = Some b" using assms(3) by (cases "cp_borrower c") auto
  have st: "copy_status c = ISSUED" using con b by (auto simp: copy_consistent_def split: book_status.splits)
  have h: "holder s cid = Some b" using assms(2) b st by (simp add: holder_def)
  then have "cid \<in> loans s b" using assms(1) by (simp add: ledger_inv_def)
  then show ?thesis using that b st h by (auto simp: loans_def split: option.splits)
qed

definition shelved :: "book_copy \<Rightarrow> string option \<Rightarrow> book_copy" where
  "shelved c next_user = c\<lparr>cp_borrower := None, cp_reserver := (case next_user of None \<Rightarrow> cp_reserver c | Some u \<Rightarrow> Some u),
     cp_state := (case next_user of None \<Rightarrow> AvailableState | Some _ \<Rightarrow> ReservedState)\<rparr>"

lemma shelved_consistent: "copy_consistent c \<Longrightarrow> copy_status c = ISSUED \<Longrightarrow> copy_consistent (shelved c n)"
  by (cases n) (auto simp: copy_consistent_def shelved_def copy_status_def)

lemma return_section_raise:
  assumes "ledger_inv s" "return_section env cid actor late dam s = (Inl e, s')"
  shows "s' = s \<and> \<not> truthy (holder s cid)"
proof (cases "get_copy s cid")
  case None
  then show ?thesis using assms(2) by (simp add: return_section_def holder_def)
next
  case (Some p)
  obtain r c where p: "p = (r, c)" by fastforce
  show ?thesis
  proof (cases "truthy (cp_borrower c)")
    case False
    then show ?thesis using assms Some p
      by (auto simp: return_section_def holder_def)
  next
    case True
    obtain b u where b: "cp_borrower c = Some b" "copy_status c = ISSUED"
      by (rule borrowed_is_issued [OF assms(1) Some [unfolded p] True])
    have "copy_return_book c = Inr (c\<lparr>cp_borrower := None, cp_state := AvailableState\<rparr>)" using b by simp
    then show ?thesis using assms(2) Some p True b
      by (auto simp: return_section_def Let_def split: prod.splits option.splits sum.splits)
  qed
qed

lemma return_section_ok:
  assumes "ledger_inv s" "return_section env cid actor late dam s = (Inr out, s')"
  obtains r c b u assigned where "get_copy s cid = Some (r, c)" "cp_borrower c = Some b" "copy_status c = ISSUED" "get_user s b = Some u"
    "fst (handle_copy_returned (ev_strftime env) (ev_now env) (lb_reservations s) (Some (lb_dispatcher s)) (cp_book_isbn c) cid 48) = assigned"
    "lb_reservations s' = fst (snd (handle_copy_returned (ev_strftime env) (ev_now env) (lb_reservations s) (Some (lb_dispatcher s)) (cp_book_isbn c) cid 48))"
    "rp_heap s' = (rp_heap s)(r := Some (shelved c (map_option re_user_id assigned)))"
    "rp_users s' = dset (rp_users s) b (record_return (ev_now env) u cid late dam)"
    "rp_copies s' = rp_copies s" "rp_books s' = rp_books s" "rp_next s' = rp_next s" "rp_locks s' = rp_locks s"
    "rp_records s' = rp_records s" "lb_allocation_queues s' = lb_allocation_queues s"
    "length (lb_outbox s') = Suc (length (lb_outbox s))" "lb_branch_mgr s' = lb_branch_mgr s"
    "dget out ''previous_borrower'' = Some (JStr b)" "lb_cache s' = snd (cache_invalidate (lb_cache s) (''book:'' @ cp_book_isbn c))"
proof -
  obtain r c where c: "get_copy s cid = Some (r, c)" and t: "truthy (cp_borrower c)"
    using assms(2) by (auto simp: return_section_def split: option.splits if_splits)
  obtain b u where b: "cp_borrower c = Some b" "copy_status c = ISSUED" "get_user s b = Some u"
    by (rule borrowed_is_issued [OF assms(1) c t])
  have repo: "repo_inv s" by (rule ledger_repo [OF assms(1)])
  have u: "us_user_id u = b" "finite (us_active u)" using get_user_id [OF repo b(3)] by auto
  let ?u = "record_return (ev_now env) u cid late dam"
  let ?c1 = "c\<lparr>cp_borrower := None, cp_state := AvailableState\<rparr>"
  let ?s1 = "save_user s ?u"
  have ret: "copy_return_book c = Inr ?c1" using b by simp
  have repo1: "repo_inv ?s1" and c1: "get_copy ?s1 cid = Some (r, c)"
    using save_user_inv [OF repo, of ?u] u c get_copy_cong [of ?s1 s cid] by auto
  let ?s2 = "heap_put r ?c1 ?s1"
  have repo2: "repo_inv ?s2" and c2: "get_copy ?s2 cid = Some (r, ?c1)"
    using heap_put_inv [OF repo1 c1, of ?c1] get_copy_heap_put [OF repo1 c1, of ?c1 cid] by auto
  have save2: "save_copy ?s2 r = ?s2" by (rule save_copy_idem [OF repo2 c2])
  obtain assigned rm disp where h: "handle_copy_returned (ev_strftime env) (ev_now env) (lb_reservations s) (Some (lb_dispatcher s))
      (cp_book_isbn c) cid 48 = (assigned, rm, disp)" by (cases "handle_copy_returned (ev_strftime env) (ev_now env) (lb_reservations s) (Some (lb_dispatcher s))
      (cp_book_isbn c) cid 48") auto
  have lb: "lb_reservations ?s2 = lb_reservations s" "lb_dispatcher ?s2 = lb_dispatcher s"
    by (simp_all add: heap_put_def save_user_def)
  let ?s3 = "?s2\<lparr>lb_reservations := rm, lb_dispatcher := the disp\<rparr>"
  have repo3: "repo_inv ?s3" and c3: "get_copy ?s3 cid = Some (r, ?c1)"
    using same_repo_inv [of ?s2 ?s3] same_repo_lookups [of ?s2 ?s3 cid] repo2 c2 by auto
  let ?c4 = "\<lambda>x. ?c1\<lparr>cp_reserver := Some x, cp_state := ReservedState\<rparr>"
  have save4: "save_copy (heap_put r (?c4 x) ?s3) r = heap_put r (?c4 x) ?s3" for x
    by (rule save_copy_idem [OF heap_put_inv [OF repo3 c3], of _ cid]) (simp_all add: get_copy_heap_put [OF repo3 c3])
  have run: "(out, s') = (case assigned of
      None \<Rightarrow> (out, lib_log env (lib_invalidate (lib_save_event env ?s3 ''copy.returned''
          [(''copy_id'', JStr cid), (''isbn'', JStr (cp_book_isbn c)), (''user_id'', JStr b), (''is_late'', JBool late), (''is_damaged'', JBool dam),
           (''assigned_reservation'', assigned_json assigned)]) (''book:'' @ cp_book_isbn c)) actor ''RETURN_BOOK'' cid
          [(''previous_borrower'', JStr b), (''is_late'', JBool late), (''is_damaged'', JBool dam), (''assigned_reservation'', assigned_json assigned)])
    | Some e \<Rightarrow> (out, lib_log env (lib_invalidate (lib_save_event env (heap_put r (?c4 (re_user_id e)) ?s3) ''copy.returned''
          [(''copy_id'', JStr cid), (''isbn'', JStr (cp_book_isbn c)), (''user_id'', JStr b), (''is_late'', JBool late), (''is_damaged'', JBool dam),
           (''assigned_reservation'', assigned_json assigned)]) (''book:'' @ cp_book_isbn c)) actor ''RETURN_BOOK'' cid
          [(''previous_borrower'', JStr b), (''is_late'', JBool late), (''is_damaged'', JBool dam), (''assigned_reservation'', assigned_json assigned)]))
     \<and> dget out ''previous_borrower'' = Some (JStr b)"
    using assms(2) c t b ret save2 h lb save4
    by (cases assigned) (auto simp: return_section_def Let_def)
  show ?thesis
    by (rule that [OF c b(1,2,3), of assigned])
       (use run h u in \<open>auto simp: shelved_def lib_log_def lib_invalidate_def lib_save_event_def heap_put_def save_user_def
          save_event_def Let_def split: option.splits\<close>)
qed

lemma return_section_ledger:
  assumes inv: "ledger_inv s" and ok: "return_section env cid actor late dam s = (Inr out, s')"
  shows "ledger_inv s'"
proof -
  have repo: "repo_inv s" by (rule ledger_repo [OF inv])
  obtain r c b u and assigned :: "reservation_entry option" where c: "get_copy s cid = Some (r, c)" "cp_borrower c = Some b" "copy_status c = ISSUED" "get_user s b = Some u"
    and st: "rp_heap s' = (rp_heap s)(r := Some (shelved c (map_option re_user_id assigned)))"
    "rp_users s' = dset (rp_users s) b (record_return (ev_now env) u cid late dam)"
    "rp_copies s' = rp_copies s" "rp_books s' = rp_books s" "rp_next s' = rp_next s"
    by (rule return_section_ok [OF inv ok])
  have u: "us_user_id u = b" "finite (us_active u)" "within_limit u"
    using get_user_id [OF repo c(4)] inv c(4) by (auto simp: ledger_inv_def)
  have con: "copy_consistent (shelved c (map_option re_user_id assigned))"
    using inv c by (intro shelved_consistent) (auto simp: ledger_inv_def)
  have h: "holder s cid = Some b" using c by (simp add: holder_def)
  have st': "copy_status (shelved c (map_option re_user_id assigned)) \<noteq> ISSUED"
    by (simp add: shelved_def copy_status_def split: option.splits)
  show ?thesis
  proof (rule ledger_update [OF inv c(1,4) _ _ con _ _ _ _ _ _ st])
    show "within_limit (record_return (ev_now env) u cid late dam)" using u by (intro record_return_limit)
  qed (use u h st' in \<open>auto simp: shelved_def\<close>)
qed

lemma return_shape:
  assumes "no_locks s" "return_physical_book env s cid actor late dam = (x, s')"
  obtains l t where "return_section env cid actor late dam (s\<lparr>rp_locks := l\<rparr>) = (x, t)"
    "s' = t\<lparr>rp_locks := (rp_locks t)\<lparr>lm_mutexes := dset (lm_mutexes (rp_locks t)) cid False\<rparr>\<rparr>"
    "\<forall>r. mutex_locked l r \<longleftrightarrow> r = cid"
proof -
  obtain l where l: "locking_section (ev_show_float env) cid (return_section env cid actor late dam) s =
    (let (r, s') = return_section env cid actor late dam (s\<lparr>rp_locks := l\<rparr>)
     in (r, s'\<lparr>rp_locks := (rp_locks s')\<lparr>lm_mutexes := dset (lm_mutexes (rp_locks s')) cid False\<rparr>\<rparr>))"
    "\<forall>r. mutex_locked l r \<longleftrightarrow> r = cid"
    by (rule locking_section_free [OF assms(1), where sf = "ev_show_float env" and cid = cid and body = "return_section env cid actor late dam"])
  then show ?thesis using assms(2) that [of l]
    by (auto simp: return_physical_book_def Let_def split: prod.splits)
qed

lemma return_raise:
  assumes "no_locks s" "ledger_inv s" "return_physical_book env s cid actor late dam = (Inl e, s')"
  shows "(\<exists>l. s' = s\<lparr>rp_locks := l\<rparr>) \<and> no_locks s' \<and> \<not> truthy (holder s cid)"
proof (rule return_shape [OF assms(1,3)], goal_cases)
  case (1 l t)
  have "t = s\<lparr>rp_locks := l\<rparr> \<and> \<not> truthy (holder s cid)" using return_section_raise [OF _ 1(1)] assms(2) by simp
  then show ?case using 1 by (auto simp: no_locks_def)
qed

lemma return_ok:
  assumes "no_locks s" "ledger_inv s" "return_physical_book env s cid actor late dam = (Inr out, s')"
  obtains r c b u assigned where "get_copy s cid = Some (r, c)" "cp_borrower c = Some b" "copy_status c = ISSUED" "get_user s b = Some u"
    "fst (handle_copy_returned (ev_strftime env) (ev_now env) (lb_reservations s) (Some (lb_dispatcher s)) (cp_book_isbn c) cid 48) = assigned"
    "lb_reservations s' = fst (snd (handle_copy_returned (ev_strftime env) (ev_now env) (lb_reservations s) (Some (lb_dispatcher s)) (cp_book_isbn c) cid 48))"
    "rp_heap s' = (rp_heap s)(r := Some (shelved c (map_option re_user_id assigned)))"
    "rp_users s' = dset (rp_users s) b (record_return (ev_now env) u cid late dam)"
    "rp_copies s' = rp_copies s" "rp_books s' = rp_books s" "rp_next s' = rp_next s" "no_locks s'"
    "rp_records s' = rp_records s" "lb_allocation_queues s' = lb_allocation_queues s"
    "length (lb_outbox s') = Suc (length (lb_outbox s))" "lb_branch_mgr s' = lb_branch_mgr s"
    "dget out ''previous_borrower'' = Some (JStr b)" "ledger_inv s'"
    "lb_cache s' = snd (cache_invalidate (lb_cache s) (''book:'' @ cp_book_isbn c))"
proof (rule return_shape [OF assms(1,3)], goal_cases)
  case (1 l t)
  have inv: "ledger_inv (s\<lparr>rp_locks := l\<rparr>)" using assms(2) by simp
  have led: "ledger_inv s'" using return_section_ledger [OF inv 1(2)] 1(3) by simp
  show ?case
  proof (rule return_section_ok [OF inv 1(2)], goal_cases)
    case (1 r c b u assigned)
    note facts = this
    have "no_locks s'" using \<open>\<forall>r. mutex_locked l r \<longleftrightarrow> r = cid\<close> facts(12) \<open>s' = _\<close> by (simp add: no_locks_def)
    then show ?thesis using facts led \<open>s' = _\<close> by (intro that [of r c b u assigned]) simp_all
  qed
qed

section \<open>Properties of the desk\<close>


text \<open>A small library for the witnesses: one physical title with one copy, and two students.\<close>

definition demo_book :: "copy_ref list \<Rightarrow> book" where
  "demo_book refs = \<lparr>bk_isbn = ''I1'', bk_title = ''T'', bk_authors = [''A''], bk_category = ''General'', bk_publication_year = 2024,
     bk_publisher = ''P'', bk_description = [], bk_rating = 4, bk_difficulty_level = ''Intermediate'', bk_keywords = [],
     bk_borrow_history_count = 0, bk_details = PhysicalBook 500 400 (map (\<lambda>r. (''C1'', r)) refs)\<rparr>"

definition demo_student :: "string \<Rightarrow> user" where
  "demo_student i = new_student i ''N'' ''e'' 1 ''CS'' None ''h'' ''B1'' 3"

definition demo_env :: call_env where
  "demo_env = \<lparr>ev_now = 0, ev_uuid8 = ''0A'', ev_uuid12 = ''0B'', ev_pay = \<lparr>pe_uuid = ''u'', pe_hex10 = ''h'', pe_now = 0, pe_show_float = \<lambda>_. []\<rparr>,
     ev_strftime = \<lambda>_. [], ev_strfdate = \<lambda>_. [], ev_show_float = \<lambda>_. [], ev_show_money = \<lambda>_. []\<rparr>"

definition demo_library :: library where
  "demo_library = build_in_memory_container\<lparr>rp_heap := Map.empty(0 \<mapsto> new_copy ''C1'' ''I1'' ''B1'' ''A1'' 500), rp_next := 1,
     rp_books := [(''I1'', demo_book [0])], rp_copies := [(''C1'', 0)],
     rp_users := [(''U1'', demo_student ''U1''), (''U2'', demo_student ''U2'')]\<rparr>"

lemma demo_simps [simp]:
  "rp_heap demo_library = Map.empty(0 \<mapsto> new_copy ''C1'' ''I1'' ''B1'' ''A1'' 500)" "rp_next demo_library = 1"
  "rp_books demo_library = [(''I1'', demo_book [0])]" "rp_copies demo_library = [(''C1'', 0)]"
  "rp_users demo_library = [(''U1'', demo_student ''U1''), (''U2'', demo_student ''U2'')]"
  "rp_locks demo_library = new_lock_mgr" "lb_reservations demo_library = new_reservation_mgr"
  "lb_allocation_queues demo_library = []" "lb_outbox demo_library = []"
  by (simp_all add: demo_library_def build_in_memory_container_def)

lemma demo_student_simps [simp]: "us_user_id (demo_student i) = i" "us_active (demo_student i) = {}" "can_borrow (demo_student i)"
  by (simp_all add: demo_student_def new_student_def new_user_def can_borrow_def)

lemma demo_locks: "no_locks demo_library"
  by (simp add: no_locks_def mutex_locked_def new_lock_mgr_def)

lemma demo_get_copy: "get_copy demo_library i = (if i = ''C1'' then Some (0, new_copy ''C1'' ''I1'' ''B1'' ''A1'' 500) else None)"
  by (simp add: get_copy_def)

lemma demo_get_user: "get_user demo_library i = (if i = ''U1'' \<or> i = ''U2'' then Some (demo_student i) else None)"
  by (simp add: get_user_def)

lemma demo_repo: "repo_inv demo_library"
  by (auto simp: repo_inv_def copies_ok_def books_ok_def users_ok_def dict_wf_def demo_book_def copies_of_def new_copy_def
      split: if_splits)

lemma demo_ledger: "ledger_inv demo_library"
proof -
  have "holder demo_library i = None" for i by (simp add: holder_def demo_get_copy)
  moreover have "loans demo_library u = {}" for u by (simp add: loans_def demo_get_user)
  ultimately show ?thesis unfolding ledger_inv_def
    using demo_repo by (auto simp: demo_get_copy demo_get_user within_limit_def split: if_splits)
qed

lemma demo_guard: "issue_guard demo_library ''C1'' ''U1'' 0 (new_copy ''C1'' ''I1'' ''B1'' ''A1'' 500) (demo_student ''U1'')"
  by (simp add: issue_guard_def demo_get_copy demo_get_user)


lemma demo_issue:
  obtains tx s' where "issue_physical_book demo_env demo_library ''C1'' ''U1'' ''LIB'' 14 = (Inr tx, s')"
proof -
  obtain l where l: "locking_section (ev_show_float demo_env) ''C1'' (issue_section demo_env ''C1'' ''U1'' 14) demo_library =
    (let (r, s') = issue_section demo_env ''C1'' ''U1'' 14 (demo_library\<lparr>rp_locks := l\<rparr>)
     in (r, s'\<lparr>rp_locks := (rp_locks s')\<lparr>lm_mutexes := dset (lm_mutexes (rp_locks s')) ''C1'' False\<rparr>\<rparr>))"
    by (rule locking_section_free [OF demo_locks, where sf = "ev_show_float demo_env" and cid = "''C1''" and body = "issue_section demo_env ''C1'' ''U1'' 14"])
  obtain x t where t: "issue_section demo_env ''C1'' ''U1'' 14 (demo_library\<lparr>rp_locks := l\<rparr>) = (Inr x, t)"
    by (simp add: issue_section_def demo_get_copy demo_get_user Let_def)
  obtain tx c due where "x = (tx, c, due)" by (cases x)
  with t l show ?thesis by (intro that) (simp add: issue_physical_book_def Let_def)
qed

text \<open>
  C3: no copy is checked out twice. Right after a successful checkout the copy is held by that user, and
  every further checkout of it, by anyone, raises and leaves the library as it was; an eligible user is told
  that the copy is issued.
\<close>

theorem no_double_checkout:
  assumes "no_locks s" "ledger_inv s" "issue_physical_book env s cid uid actor days = (Inr tx, s1)"
  shows "holder s1 cid = Some uid \<and> (\<exists>e l. issue_physical_book env' s1 cid v actor' days' = (Inl e, s1\<lparr>rp_locks := l\<rparr>) \<and>
    ((\<exists>w. get_user s1 v = Some w \<and> can_borrow w) \<longrightarrow> e = CopyUnavailableError cid (Some ''ISSUED'')))"
proof -
  have repo: "repo_inv s" by (rule ledger_repo [OF assms(2)])
  show ?thesis
  proof (rule issue_ok [OF assms(1) repo assms(3)], goal_cases)
    case (1 r c u)
    have gc: "get_copy s cid = Some (r, c)" using 1(1) by (simp add: issue_guard_def)
    have c1: "get_copy s1 cid = Some (r, issued_copy c uid)"
      using get_copy_heap_put [OF repo gc, of "issued_copy c uid" cid] get_copy_cong [of s1 "heap_put r (issued_copy c uid) s" cid] 1(3,5) by simp
    have st: "copy_status (issued_copy c uid) = ISSUED" "cp_borrower (issued_copy c uid) = Some uid" by (simp_all add: issued_copy_def)
    obtain l where l: "locking_section (ev_show_float env') cid (issue_section env' cid v days') s1 =
      (let (r, s') = issue_section env' cid v days' (s1\<lparr>rp_locks := l\<rparr>)
       in (r, s'\<lparr>rp_locks := (rp_locks s')\<lparr>lm_mutexes := dset (lm_mutexes (rp_locks s')) cid False\<rparr>\<rparr>))"
      by (rule locking_section_free [OF 1(8), where sf = "ev_show_float env'" and cid = cid and body = "issue_section env' cid v days'"])
    have "\<exists>e. issue_section env' cid v days' (s1\<lparr>rp_locks := l\<rparr>) = (Inl e, s1\<lparr>rp_locks := l\<rparr>) \<and>
        ((\<exists>w. get_user s1 v = Some w \<and> can_borrow w) \<longrightarrow> e = CopyUnavailableError cid (Some ''ISSUED''))"
      using c1 st by (auto simp: issue_section_def split: option.splits)
    then have "\<exists>e l. issue_physical_book env' s1 cid v actor' days' = (Inl e, s1\<lparr>rp_locks := l\<rparr>) \<and>
      ((\<exists>w. get_user s1 v = Some w \<and> can_borrow w) \<longrightarrow> e = CopyUnavailableError cid (Some ''ISSUED''))"
      using l by (auto simp: issue_physical_book_def Let_def)
    then show ?thesis using c1 st by (simp add: holder_def)
  qed
qed

theorem no_double_checkout_witness:
  "\<exists>tx s1. issue_physical_book demo_env demo_library ''C1'' ''U1'' ''LIB'' 14 = (Inr tx, s1) \<and> holder s1 ''C1'' = Some ''U1'' \<and>
     \<not> is_ok (fst (issue_physical_book demo_env s1 ''C1'' ''U2'' ''LIB'' 14))"
proof (rule demo_issue)
  fix tx s1 assume run: "issue_physical_book demo_env demo_library ''C1'' ''U1'' ''LIB'' 14 = (Inr tx, s1)"
  from no_double_checkout [OF demo_locks demo_ledger run, where env' = demo_env and v = "''U2''" and actor' = "''LIB''" and days' = 14] run show ?thesis by auto
qed

text \<open>
  C4: a returned copy goes to the next waiting user. A return of an issued copy by a library in a consistent
  state always succeeds; it takes the copy off the borrower's loans, and, if users wait for the title, keeps
  the copy for the first of them, whom it takes off the waiting list, so that nobody else can check it out;
  otherwise the copy is available again.
\<close>

theorem return_serves_next_in_line:
  assumes "no_locks s" "ledger_inv s" "res_inv (lb_reservations s)" "truthy (holder s cid)"
  shows "\<exists>out s' r c c'. return_physical_book env s cid actor late dam = (Inr out, s') \<and>
    get_copy s cid = Some (r, c) \<and> get_copy s' cid = Some (r, c') \<and>
    cid \<notin> loans s' (the (holder s cid)) \<and> holder s' cid = None \<and>
    (case wait_list (lb_reservations s) (cp_book_isbn c) of
       [] \<Rightarrow> copy_status c' = AVAILABLE
     | w # ws \<Rightarrow> copy_status c' = RESERVED \<and> cp_reserver c' = Some w \<and> wait_list (lb_reservations s') (cp_book_isbn c) = ws \<and>
         (\<forall>v r c u. issue_guard s' cid v r c u \<longrightarrow> v = w))"
proof -
  obtain x s' where run: "return_physical_book env s cid actor late dam = (x, s')" by fastforce
  obtain out where x: "x = Inr out"
    using return_raise [OF assms(1,2)] run assms(4) by (cases x) auto
  have repo: "repo_inv s" by (rule ledger_repo [OF assms(2)])
  show ?thesis
  proof (rule return_ok [OF assms(1,2) run [unfolded x]], goal_cases)
    case (1 r c b u assigned)
    let ?c' = "shelved c (map_option re_user_id assigned)"
    have c': "get_copy s' cid = Some (r, ?c')"
      using get_copy_heap_put [OF repo 1(1), of ?c' cid] get_copy_cong [of s' "heap_put r ?c' s" cid] 1(7,9) by simp
    have as: "map_option re_user_id assigned = (case wait_list (lb_reservations s) (cp_book_isbn c) of [] \<Rightarrow> None | w # _ \<Rightarrow> Some w)"
      using handle_result [OF assms(3), of "ev_strftime env" "ev_now env" "Some (lb_dispatcher s)" "cp_book_isbn c" cid 48] 1(5) by simp
    have wl: "wait_list (lb_reservations s') (cp_book_isbn c) = tl (wait_list (lb_reservations s) (cp_book_isbn c))"
      using handle_wait_list [OF assms(3)] 1(6) by simp
    have h: "holder s cid = Some b" using 1 by (simp add: holder_def)
    have "cid \<notin> loans s' b" by (simp add: loans_def get_user_def 1(8))
    moreover have "holder s' cid = None" using c' by (simp add: holder_def shelved_def copy_status_def split: option.splits)
    moreover have "case wait_list (lb_reservations s) (cp_book_isbn c) of
         [] \<Rightarrow> copy_status ?c' = AVAILABLE
       | w # ws \<Rightarrow> copy_status ?c' = RESERVED \<and> cp_reserver ?c' = Some w \<and> wait_list (lb_reservations s') (cp_book_isbn c) = ws \<and>
           (\<forall>v r c u. issue_guard s' cid v r c u \<longrightarrow> v = w)"
      using c' as wl by (auto simp: shelved_def copy_status_def issue_guard_def split: list.splits)
    ultimately show ?thesis using run x 1(1) c' h by (intro exI [of _ out] exI [of _ s'] exI [of _ r] exI [of _ c] exI [of _ ?c']) simp
  qed
qed

theorem return_serves_next_in_line_witness:
  "\<exists>s1 out s2. holder s1 ''C1'' = Some ''U1'' \<and> return_physical_book demo_env s1 ''C1'' ''LIB'' False False = (Inr out, s2) \<and> holder s2 ''C1'' = None"
proof (rule demo_issue)
  fix tx s1 assume run: "issue_physical_book demo_env demo_library ''C1'' ''U1'' ''LIB'' 14 = (Inr tx, s1)"
  show ?thesis
  proof (rule issue_ok [OF demo_locks demo_repo run], goal_cases)
    case (1 r c u)
    have "get_copy s1 ''C1'' = Some (0, issued_copy c ''U1'')" using 1 by (simp add: get_copy_def issue_guard_def)
    then have h: "holder s1 ''C1'' = Some ''U1''" by (simp add: holder_def issued_copy_def)
    have "ledger_inv s1" "res_inv (lb_reservations s1)" using 1 demo_ledger by simp_all
    with return_serves_next_in_line [OF 1(8) this, where cid = "''C1''" and env = demo_env and actor = "''LIB''" and late = False and dam = False] h show ?thesis by auto
  qed
qed

section \<open>Smart allocation\<close>

lemma available_copy:
  assumes "repo_inv s" "get_book s isbn = Some b" "c \<in> set (get_available_copies (rp_heap s) b None)"
  shows "\<exists>r. get_copy s (cp_copy_id c) = Some (r, c) \<and> copy_status c = AVAILABLE"
proof -
  from assms(3) obtain r where r: "r \<in> set (dvalues (copies_of b))" "rp_heap s r = Some c" "copy_status c = AVAILABLE"
    by (force simp: get_available_copies_def heap_copies_def map_filter_def)
  have b: "dget (rp_books s) isbn = Some b" using assms(2) by (simp add: get_book_def)
  then have "dict_wf (copies_of b)" using assms(1) by (simp add: repo_inv_def books_ok_def)
  then obtain cid where "dget (copies_of b) cid = Some r" using r(1) in_dvalues by metis
  then have "dget (rp_copies s) cid = Some r" using assms(1) b unfolding repo_inv_def books_ok_def by blast
  moreover have "cp_copy_id c = cid" using assms(1) calculation r(2) unfolding repo_inv_def copies_ok_def by fastforce
  ultimately show ?thesis using r by (auto simp: get_copy_Some)
qed

text \<open>
  An allocation drop serves the request of highest priority and no other, and it consumes that request
  whatever happens. When the requester is still eligible, the first available copy is issued to that user;
  when the requester has meanwhile reached the borrow limit or owes too much, the drop raises, nothing is
  issued, and the request is gone from the queue all the same.
\<close>

theorem allocation_drop_outcome:
  assumes "no_locks s" "repo_inv s" "dget (lb_allocation_queues s) isbn = Some q" "aq_heap q \<noteq> []"
    "get_book s isbn = Some b" "is_physical b" "get_available_copies (rp_heap s) b None = c # cs"
    "pop_highest_priority q = (Some req, q')"
  shows "case process_smart_allocation_drop env s isbn of (x, s') \<Rightarrow>
    dget (lb_allocation_queues s') isbn = Some q' \<and>
    (case get_user s (rq_user_id req) of
       Some u \<Rightarrow> if can_borrow u
         then (\<exists>out. x = Inr (Some out) \<and> dget out ''assigned_user_id'' = Some (JStr (rq_user_id req))) \<and>
              holder s' (cp_copy_id c) = Some (rq_user_id req)
         else x = Inl (UserNotEligibleError (rq_user_id req) ''borrow limit reached or unpaid fines'') \<and> same_repo s s'
     | None \<Rightarrow> x = Inl (UserNotFoundError (rq_user_id req)) \<and> same_repo s s')"
proof -
  let ?s = "s\<lparr>lb_allocation_queues := dset (lb_allocation_queues s) isbn q'\<rparr>"
  let ?u = "rq_user_id req" and ?i = "cp_copy_id c"
  obtain r where gc: "get_copy s ?i = Some (r, c)" "copy_status c = AVAILABLE"
    using available_copy [OF assms(2,5), of c] assms(7) by auto
  have same: "same_repo s ?s" by simp
  have look: "get_copy ?s i = get_copy s i" "get_user ?s v = get_user s v" for i v using same_repo_lookups [OF same] by auto
  have locks: "no_locks ?s" and repo: "repo_inv ?s" using assms(1,2) same_repo_inv [OF same] by (simp_all add: no_locks_def)
  obtain x t where run: "issue_physical_book env ?s ?i ?u ''SMART_ALLOCATOR'' 14 = (x, t)" by fastforce
  have drop: "process_smart_allocation_drop env s isbn =
    (case x of Inl e \<Rightarrow> (Inl e, t) | Inr tx \<Rightarrow> (Inr (Some [(''assigned_user_id'', JStr ?u), (''user_name'', JStr (rq_user_name req)),
       (''copy_id'', JStr ?i), (''priority'', JFloat (rq_actual_priority req)), (''transaction'', JObj tx)]), t))"
    using assms(3-8) run by (simp add: process_smart_allocation_drop_def queue_size_def Let_def split: sum.splits)
  obtain l where l: "locking_section (ev_show_float env) ?i (issue_section env ?i ?u 14) ?s =
    (let (r, s') = issue_section env ?i ?u 14 (?s\<lparr>rp_locks := l\<rparr>)
     in (r, s'\<lparr>rp_locks := (rp_locks s')\<lparr>lm_mutexes := dset (lm_mutexes (rp_locks s')) ?i False\<rparr>\<rparr>))"
    by (rule locking_section_free [OF locks, where sf = "ev_show_float env" and cid = ?i and body = "issue_section env ?i ?u 14"])
  show ?thesis
  proof (cases "\<exists>u. get_user s ?u = Some u \<and> can_borrow u")
    case True
    then obtain u where u: "get_user s ?u = Some u" "can_borrow u" by blast
    then have "is_ok (fst (issue_section env ?i ?u 14 (?s\<lparr>rp_locks := l\<rparr>)))"
      using gc look by (simp add: issue_section_def Let_def)
    then obtain tx where x: "x = Inr tx"
      using run l by (cases x) (auto simp: issue_physical_book_def Let_def is_ok_def split: prod.splits sum.splits)
    show ?thesis
    proof (rule issue_ok [OF locks repo run [unfolded x]], goal_cases)
      case (1 r' c' u')
      have g: "get_copy ?s ?i = Some (r', c')" using 1(1) by (simp add: issue_guard_def)
      have "get_copy t ?i = Some (r', issued_copy c' ?u)"
        using get_copy_heap_put [OF repo g, of "issued_copy c' ?u" ?i] get_copy_cong [of t "heap_put r' (issued_copy c' ?u) ?s" ?i] 1(3,5) by simp
      then show ?thesis using drop x u 1(12) by (simp add: holder_def issued_copy_def)
    qed
  next
    case False
    then obtain e where e: "issue_section env ?i ?u 14 (?s\<lparr>rp_locks := l\<rparr>) = (Inl e, ?s\<lparr>rp_locks := l\<rparr>)"
      "e = (case get_user s ?u of Some u \<Rightarrow> UserNotEligibleError ?u ''borrow limit reached or unpaid fines'' | None \<Rightarrow> UserNotFoundError ?u)"
      using look by (cases "get_user s ?u") (simp_all add: issue_section_def)
    then have x: "x = Inl e" "t = ?s\<lparr>rp_locks := rp_locks t\<rparr>"
      using run l by (auto simp: issue_physical_book_def Let_def)
    have "same_repo s t" "lb_allocation_queues t = lb_allocation_queues ?s" by (subst x(2), simp add: same_repo_def)+
    then show ?thesis using drop x(1) False e(2) by (cases "get_user s ?u") auto
  qed
qed

lemma demo_queue:
  obtains q q' req where "pop_highest_priority q = (Some req, q')" "aq_heap q \<noteq> []" "rq_user_id req = ''U1''"
proof -
  let ?q = "snd (enqueue 0 0 (new_queue ''I1'') ''R1'' (demo_student ''U1'') ''B1'' (Some 1))"
  show ?thesis
    by (rule that [of ?q "fst (the (heappop rq_key (aq_heap ?q)))" "?q\<lparr>aq_heap := snd (the (heappop rq_key (aq_heap ?q)))\<rparr>"])
       (simp_all add: enqueue_def Let_def new_queue_def pop_highest_priority_def heappush_def heappop_def siftdown.simps)
qed

theorem allocation_drop_outcome_witness:
  "\<exists>s out s'. process_smart_allocation_drop demo_env s ''I1'' = (Inr (Some out), s') \<and> holder s' ''C1'' = Some ''U1''"
proof (rule demo_queue)
  fix q q' req assume q: "pop_highest_priority q = (Some req, q')" "aq_heap q \<noteq> []" "rq_user_id req = ''U1''"
  let ?s = "demo_library\<lparr>lb_allocation_queues := [(''I1'', q)]\<rparr>"
  have same: "same_repo demo_library ?s" by simp
  have look: "get_copy ?s i = get_copy demo_library i" "get_user ?s v = get_user demo_library v" for i v using same_repo_lookups [OF same] by auto
  have locks: "no_locks ?s" and repo: "repo_inv ?s" using demo_locks demo_repo same_repo_inv [OF same] by (simp_all add: no_locks_def)
  have qd: "dget (lb_allocation_queues ?s) ''I1'' = Some q" and bk: "get_book ?s ''I1'' = Some (demo_book [0])" "is_physical (demo_book [0])"
    by (simp_all add: get_book_def demo_book_def)
  have av: "get_available_copies (rp_heap ?s) (demo_book [0]) None = [new_copy ''C1'' ''I1'' ''B1'' ''A1'' 500]"
    by (simp add: get_available_copies_def heap_copies_def copies_of_def demo_book_def map_filter_def)
  show ?thesis
    using allocation_drop_outcome [OF locks repo qd q(2) bk av q(1), of demo_env] q(3) look
    by (auto simp: demo_get_user new_copy_def split: prod.splits)
qed

end
