(* ===== verification/Billing.thy ===== *)
theory Billing
  imports Circulation
begin

text \<open>
  The billing service of \<^verbatim>\<open>libflow/services/billing_service.py\<close>: projected fines, charging a fine and
  paying one. The payment processor of the service holds the strategy of the last call, which every call
  sets again before it pays, so it is not part of the state.
\<close>

definition set_fine_strategy :: "library \<Rightarrow> fine_strategy \<Rightarrow> library" where
  "set_fine_strategy s strategy = s\<lparr>lb_fine_strategy := strategy\<rparr>"

definition late_returns :: "user \<Rightarrow> int" where
  "late_returns u = int (length (filter be_is_late (us_history u)))"

definition calculate_projected_fine :: "library \<Rightarrow> string \<Rightarrow> string \<Rightarrow> int \<Rightarrow> py_float" where
  "calculate_projected_fine s isbn user_id overdue_days =
     (case (get_book s isbn, get_user s user_id) of
        (Some b, Some u) \<Rightarrow>
          calculate_fine (lb_fine_strategy s) overdue_days
            \<lparr>fb_pending_reservations_count = Some (int (get_waiting_count (lb_reservations s) isbn)), fb_rating = Some (bk_rating b)\<rparr>
            \<lparr>fu_past_late_returns_count = Some (late_returns u)\<rparr>
      | _ \<Rightarrow> 0)"

definition fine_message :: "call_env \<Rightarrow> py_float \<Rightarrow> string \<Rightarrow> py_float \<Rightarrow> string" where
  "fine_message env amount isbn balance =
     ''Overdue fine of $'' @ ev_show_money env amount @ '' accrued for book '' @ quoted isbn @
     ''. Total balance: $'' @ ev_show_money env balance @ ''.''"

definition charge_fine ::
  "call_env \<Rightarrow> library \<Rightarrow> string \<Rightarrow> string \<Rightarrow> int \<Rightarrow> string \<Rightarrow> (exn + (string, json) dict) \<times> library" where
  "charge_fine env s user_id isbn overdue_days actor_id =
     (let fine_amount = calculate_projected_fine s isbn user_id overdue_days in
      case get_user s user_id of
        None \<Rightarrow> (Inl (UserNotFoundError user_id), s)
      | Some u \<Rightarrow>
          let u = add_fine u fine_amount;
              s = save_user s u;
              s = lib_dispatch env s ''OVERDUE_FINE_ACCRUED'' user_id (fine_message env fine_amount isbn (us_fines u))
                    [(''isbn'', JStr isbn), (''amount'', JFloat fine_amount), (''balance'', JFloat (us_fines u))];
              s = lib_log env s actor_id ''CHARGE_FINE'' user_id
                    [(''isbn'', JStr isbn), (''fine_amount'', JFloat fine_amount), (''new_balance'', JFloat (us_fines u))]
          in (Inr [(''user_id'', JStr user_id), (''fine_charged'', JFloat fine_amount), (''total_unpaid_balance'', JFloat (us_fines u))], s))"

definition payment_strategy_of :: "string \<Rightarrow> payment_strategy option" where
  "payment_strategy_of payment_method =
     (let m = py_upper payment_method in
      if m = ''UPI'' then Some UpiPaymentStrategy
      else if m = ''CARD'' \<or> m = ''CREDIT_CARD'' \<or> m = ''DEBIT_CARD'' then Some CardPaymentStrategy
      else if m = ''WALLET'' then Some WalletPaymentStrategy
      else None)"

definition service_pay_fine ::
  "call_env \<Rightarrow> library \<Rightarrow> string \<Rightarrow> py_float \<Rightarrow> string \<Rightarrow> (string, string) dict option \<Rightarrow> (exn + (string, json) dict) \<times> library" where
  "service_pay_fine env s user_id amount payment_method payment_metadata =
     (case get_user s user_id of
        None \<Rightarrow> (Inl (UserNotFoundError user_id), s)
      | Some u \<Rightarrow>
          (case payment_strategy_of payment_method of
             None \<Rightarrow> (Inl (InsufficientInputError (''Unsupported payment method '' @ quoted payment_method @ ''.'')), s)
           | Some strategy \<Rightarrow>
               (case execute_payment strategy (ev_pay env) amount user_id payment_metadata (lb_user_wallets s) of
                  (Inl e, ws) \<Rightarrow> (Inl e, s\<lparr>lb_user_wallets := ws\<rparr>)
                | (Inr tx, ws) \<Rightarrow>
                    let s = s\<lparr>lb_user_wallets := ws\<rparr>
                    in if completed tx
                       then let (paid, u) = pay_fine u amount;
                                tx' = dset (dset tx ''applied_to_fine'' (JFloat paid)) ''remaining_unpaid_balance'' (JFloat (us_fines u));
                                s = save_user s u;
                                s = lib_log env s user_id ''PAY_FINE'' (case dget tx ''transaction_id'' of Some (JStr i) \<Rightarrow> i | _ \<Rightarrow> [])
                                      [(''amount'', JFloat amount), (''method'', JStr (py_upper payment_method)),
                                       (''remaining_balance'', JFloat (us_fines u))]
                            in (Inr tx', s)
                       else (Inr tx, s))))"

section \<open>Billing keeps the ledger\<close>

lemma save_user_ledger:
  assumes "ledger_inv s" "get_user s i = Some u" "us_user_id u' = us_user_id u" "us_active u' = us_active u"
    "us_max_borrow_limit u' = us_max_borrow_limit u"
  shows "ledger_inv (save_user s u')"
proof -
  have repo: "repo_inv s" by (rule ledger_repo [OF assms(1)])
  have u: "us_user_id u = i" "finite (us_active u)" using get_user_id [OF repo assms(2)] by auto
  have gu: "get_user (save_user s u') j = (if j = i then Some u' else get_user s j)" for j
    using u assms(3) by (simp add: get_user_save_user)
  have "get_copy (save_user s u') j = get_copy s j" for j by (rule get_copy_cong) simp_all
  moreover have "holder (save_user s u') j = holder s j" for j by (simp add: holder_def calculation)
  moreover have "loans (save_user s u') j = loans s j" for j using assms(2,4) by (simp add: loans_def gu)
  moreover have "within_limit v" if "get_user (save_user s u') j = Some v" for j v
  proof (cases "j = i")
    case True
    have "within_limit u" using assms(1,2) by (simp add: ledger_inv_def)
    then show ?thesis using that True assms(4,5) by (simp add: gu within_limit_def)
  qed (use that assms(1) in \<open>simp add: gu ledger_inv_def\<close>)
  moreover have "repo_inv (save_user s u')" using save_user_inv [OF repo] assms(4) u by simp
  ultimately show ?thesis using assms(1) unfolding ledger_inv_def by simp
qed

lemma charge_fine_ok:
  assumes "charge_fine env s uid isbn days actor = (Inr out, s')"
  obtains u where "get_user s uid = Some u" "same_repo (save_user s (add_fine u (calculate_projected_fine s isbn uid days))) s'"
    "rp_locks s' = rp_locks s" "lb_reservations s' = lb_reservations s" "lb_allocation_queues s' = lb_allocation_queues s"
  using assms that
  by (auto simp: charge_fine_def Let_def same_repo_def lib_dispatch_def lib_log_def save_user_def split: option.splits)

lemma charge_fine_raise: "charge_fine env s uid isbn days actor = (Inl e, s') \<Longrightarrow> s' = s"
  by (auto simp: charge_fine_def Let_def split: option.splits)

lemma pay_fine_state:
  assumes "service_pay_fine env s uid amount m meta = (x, s')"
  shows "same_repo s s' \<and> rp_locks s' = rp_locks s \<and> lb_reservations s' = lb_reservations s \<and> lb_allocation_queues s' = lb_allocation_queues s \<or>
    (\<exists>u. get_user s uid = Some u \<and> same_repo (save_user s (snd (pay_fine u amount))) s' \<and> rp_locks s' = rp_locks s \<and>
      lb_reservations s' = lb_reservations s \<and> lb_allocation_queues s' = lb_allocation_queues s)"
  using assms
  by (auto simp: service_pay_fine_def Let_def same_repo_def lib_log_def save_user_def pay_fine_def
      split: option.splits prod.splits sum.splits if_splits)



end
