(* ===== verification/Rebalancer.thy ===== *)
theory Rebalancer
  imports Circulation
begin

text \<open>
  The rebalancing engine of \<^verbatim>\<open>libflow/ai/rebalancer.py\<close> and the transfer route of
  \<^verbatim>\<open>libflow/api/routers/branches.py\<close>. Candidate transfers are collected title by title, destination by
  destination and source by source, kept in a heap ordered by their (inverted) utility, and selected in
  the order in which the heap gives them out. \<open>math.hypot\<close> is a parameter, since its results are
  irrational; nothing is assumed about it.
\<close>

section \<open>Planning\<close>

record transfer_candidate =
  tc_priority :: py_float
  tc_isbn :: string
  tc_copy_id :: string
  tc_source_branch_id :: string
  tc_dest_branch_id :: string
  tc_predicted_gain :: py_float
  tc_transit_cost :: py_float

record plan_item =
  pi_isbn :: string
  pi_copy_id :: string
  pi_source_branch_id :: string
  pi_dest_branch_id :: string
  pi_utility_score :: py_float
  pi_transit_cost :: py_float

definition branch_distance :: "(py_float \<Rightarrow> py_float \<Rightarrow> py_float) \<Rightarrow> library_branch \<Rightarrow> library_branch \<Rightarrow> py_float" where
  "branch_distance hypot b1 b2 =
     py_round (hypot (br_latitude b1 - br_latitude b2) (br_longitude b1 - br_longitude b2) * 111) 1"

definition branches_by_id :: "library_branch list \<Rightarrow> (string, library_branch) dict" where
  "branches_by_id bs = foldl (\<lambda>d b. dset d (br_branch_id b) b) [] bs"

definition in_flight_counts :: "(string, library_branch) dict \<Rightarrow> branch_mgr \<Rightarrow> (string, int) dict" where
  "in_flight_counts branches bm =
     foldl (\<lambda>d t. if tr_status t = TRF_IN_TRANSIT
                  then dset d (tr_dest_branch_id t) (dget_default d (tr_dest_branch_id t) 0 + 1) else d)
       (map (\<lambda>b. (b, 0)) (dkeys branches)) (dvalues (bm_transfers bm))"

definition copies_at :: "copy_heap \<Rightarrow> book \<Rightarrow> string \<Rightarrow> book_copy list" where
  "copies_at h b branch_id = filter (\<lambda>c. cp_branch_id c = branch_id \<and> copy_status c = AVAILABLE) (heap_copies h (copies_of b))"

definition needs_stock :: "demand_metrics \<Rightarrow> nat \<Rightarrow> bool" where
  "needs_stock m dest_avail \<longleftrightarrow>
     dm_demand_category m = SURGE \<and> dest_avail \<le> 1 \<or> dm_demand_category m = MODERATE \<and> dest_avail = 0"

definition demand_weight :: "demand_metrics \<Rightarrow> py_float" where
  "demand_weight m = (if dm_demand_category m = SURGE then 250 else 150)"

definition source_candidate ::
  "(py_float \<Rightarrow> py_float \<Rightarrow> py_float) \<Rightarrow> copy_heap \<Rightarrow> book \<Rightarrow> py_float \<Rightarrow> string \<times> library_branch \<Rightarrow> string \<times> library_branch \<Rightarrow> transfer_candidate option" where
  "source_candidate hypot h b weight dest source =
     (if fst source = fst dest then None
      else case copies_at h b (fst source) of
        c # _ # _ \<Rightarrow>
          let transit_cost = branch_distance hypot (snd source) (snd dest) * (1/20); utility = weight - transit_cost
          in if utility \<le> 0 then None
             else Some \<lparr>tc_priority = - utility, tc_isbn = bk_isbn b, tc_copy_id = cp_copy_id c,
                        tc_source_branch_id = fst source, tc_dest_branch_id = fst dest,
                        tc_predicted_gain = weight, tc_transit_cost = transit_cost\<rparr>
      | _ \<Rightarrow> None)"

definition dest_candidates ::
  "(py_float \<Rightarrow> py_float \<Rightarrow> py_float) \<Rightarrow> date \<Rightarrow> library \<Rightarrow> (string, library_branch) dict \<Rightarrow> (string, int) dict \<Rightarrow> book \<Rightarrow> string \<times> library_branch \<Rightarrow> transfer_candidate list" where
  "dest_candidates hypot ref_date s branches in_flight b dest =
     (if dget_default in_flight (fst dest) 0 \<ge> rb_max_transfers_per_branch (lb_rebalancer s) then []
      else let m = forecast_demand_at_branch (lb_forecaster s) (bk_isbn b) (fst dest) ref_date
           in if \<not> needs_stock m (length (copies_at (rp_heap s) b (fst dest))) then []
              else List.map_filter (source_candidate hypot (rp_heap s) b (demand_weight m) dest) branches)"

definition plan_candidates ::
  "(py_float \<Rightarrow> py_float \<Rightarrow> py_float) \<Rightarrow> date \<Rightarrow> library \<Rightarrow> (string, library_branch) dict \<Rightarrow> (string, int) dict \<Rightarrow> transfer_candidate list" where
  "plan_candidates hypot ref_date s branches in_flight =
     concat (map (\<lambda>b. if is_physical b then concat (map (dest_candidates hypot ref_date s branches in_flight b) branches) else [])
       (list_books s))"

fun select_loop ::
  "int \<Rightarrow> transfer_candidate list \<Rightarrow> string set \<Rightarrow> (string, int) dict \<Rightarrow> plan_item list" where
  "select_loop m [] allocated in_flight = []"
| "select_loop m (cand # cands) allocated in_flight =
     (if tc_copy_id cand \<in> allocated then select_loop m cands allocated in_flight
      else if dget_default in_flight (tc_dest_branch_id cand) 0 \<ge> m then select_loop m cands allocated in_flight
      else \<lparr>pi_isbn = tc_isbn cand, pi_copy_id = tc_copy_id cand, pi_source_branch_id = tc_source_branch_id cand,
            pi_dest_branch_id = tc_dest_branch_id cand, pi_utility_score = py_round (- tc_priority cand) 2,
            pi_transit_cost = py_round (tc_transit_cost cand) 2\<rparr> #
           select_loop m cands (insert (tc_copy_id cand) allocated)
             (dset in_flight (tc_dest_branch_id cand) (dget_default in_flight (tc_dest_branch_id cand) 0 + 1)))"

definition calculate_rebalancing_plan :: "(py_float \<Rightarrow> py_float \<Rightarrow> py_float) \<Rightarrow> date \<Rightarrow> library \<Rightarrow> plan_item list" where
  "calculate_rebalancing_plan hypot ref_date s =
     (let branches = branches_by_id (list_branches s);
          in_flight = in_flight_counts branches (lb_branch_mgr s);
          heap = foldl (heappush tc_priority) [] (plan_candidates hypot ref_date s branches in_flight)
      in select_loop (rb_max_transfers_per_branch (lb_rebalancer s)) (heap_drain tc_priority heap) {} in_flight)"

section \<open>Execution\<close>

definition start_tracking :: "timestamp \<Rightarrow> rebalancer \<Rightarrow> transfer_request \<Rightarrow> rebalancer" where
  "start_tracking now rb t =
     rb\<lparr>rb_transfers_tracked := dset (rb_transfers_tracked rb) (tr_transfer_id t)
          \<lparr>tk_transfer_id = tr_transfer_id t, tk_copy_id = tr_copy_id t, tk_isbn = tr_isbn t,
           tk_source_branch_id = tr_source_branch_id t, tk_dest_branch_id = tr_dest_branch_id t,
           tk_requested_at = now, tk_arrived_at = None, tk_borrowed_at = None, tk_status = ''IN_TRANSIT''\<rparr>,
        rb_copy_to_transfer := dset (rb_copy_to_transfer rb) (tr_copy_id t) (tr_transfer_id t)\<rparr>"

text \<open>The transfers of a plan, with the fresh identifier of each; an exception ends the run half way.\<close>

fun execute_rebalancing_plan ::
  "timestamp \<Rightarrow> (plan_item \<times> string) list \<Rightarrow> library \<Rightarrow> (exn + (string, json) dict list) \<times> library" where
  "execute_rebalancing_plan now [] s = (Inr [], s)"
| "execute_rebalancing_plan now ((item, uuid8) # plan) s =
     (case get_copy s (pi_copy_id item) of
        None \<Rightarrow> execute_rebalancing_plan now plan s
      | Some (r, c) \<Rightarrow>
          if copy_status c \<noteq> AVAILABLE then execute_rebalancing_plan now plan s
          else (case request_transfer now uuid8 (lb_branch_mgr s) c (pi_dest_branch_id item) ''AUTONOMOUS_REBALANCER'' of
                  (Inl e, bm) \<Rightarrow> (Inl e, s\<lparr>lb_branch_mgr := bm\<rparr>)
                | (Inr (t, c), bm) \<Rightarrow>
                    let s = save_copy (heap_put r c (s\<lparr>lb_branch_mgr := bm\<rparr>)) r;
                        s = s\<lparr>lb_rebalancer := start_tracking now (lb_rebalancer s) t\<rparr>;
                        s = lib_publish s ''transfer.requested''
                          [(''transfer_id'', JStr (tr_transfer_id t)), (''copy_id'', JStr (cp_copy_id c)), (''isbn'', JStr (cp_book_isbn c)),
                           (''source_branch_id'', JStr (tr_source_branch_id t)), (''dest_branch_id'', JStr (tr_dest_branch_id t)),
                           (''requested_by'', JStr ''AUTONOMOUS_REBALANCER'')]
                    in case execute_rebalancing_plan now plan s of
                         (Inl e, s) \<Rightarrow> (Inl e, s)
                       | (Inr done, s) \<Rightarrow> (Inr (transfer_to_dict t # done), s)))"

definition mark_arrived :: "timestamp \<Rightarrow> rebalancer \<Rightarrow> string \<Rightarrow> rebalancer" where
  "mark_arrived now rb transfer_id =
     (case dget (rb_transfers_tracked rb) transfer_id of
        None \<Rightarrow> rb
      | Some meta \<Rightarrow> rb\<lparr>rb_transfers_tracked := dset (rb_transfers_tracked rb) transfer_id
                        (meta\<lparr>tk_status := ''ARRIVED'', tk_arrived_at := Some now\<rparr>)\<rparr>)"

definition engine_complete_transfer :: "timestamp \<Rightarrow> library \<Rightarrow> string \<Rightarrow> (exn + (string, json) dict option) \<times> library" where
  "engine_complete_transfer now s transfer_id =
     (case dget (bm_transfers (lb_branch_mgr s)) transfer_id of
        None \<Rightarrow> (Inr None, s)
      | Some trf \<Rightarrow>
          (case get_copy s (tr_copy_id trf) of
             None \<Rightarrow> (Inr None, s)
           | Some (r, c) \<Rightarrow>
               (case complete_transfer now (lb_branch_mgr s) transfer_id c of
                  (Inl e, bm) \<Rightarrow> (Inl e, s\<lparr>lb_branch_mgr := bm\<rparr>)
                | (Inr (t, c), bm) \<Rightarrow>
                    let s = save_copy (heap_put r c (s\<lparr>lb_branch_mgr := bm\<rparr>)) r;
                        s = s\<lparr>lb_rebalancer := mark_arrived now (lb_rebalancer s) transfer_id\<rparr>;
                        s = lib_publish s ''transfer.completed''
                          [(''transfer_id'', JStr transfer_id), (''copy_id'', JStr (cp_copy_id c)), (''dest_branch_id'', JStr (tr_dest_branch_id t))]
                    in (Inr (Some (transfer_to_dict t)), s))))"

definition get_outcome_metrics :: "rebalancer \<Rightarrow> nat \<times> nat \<times> nat \<times> nat \<times> py_float \<times> tracked_transfer list" where
  "get_outcome_metrics rb =
     (let ts = dvalues (rb_transfers_tracked rb);
          arrived = length (filter (\<lambda>t. tk_arrived_at t \<noteq> None) ts);
          borrowed = length (filter (\<lambda>t. tk_borrowed_at t \<noteq> None) ts);
          in_transit = length (filter (\<lambda>t. tk_status t = ''IN_TRANSIT'') ts);
          precision = (if arrived > 0 then py_round (of_nat borrowed / of_nat arrived * 100) 1 else 0)
      in (length ts, arrived, borrowed, in_transit, precision, last_slice 10 ts))"

section \<open>The transfer route\<close>

definition route_transfer_copy ::
  "call_env \<Rightarrow> library \<Rightarrow> string \<Rightarrow> string \<Rightarrow> string option \<Rightarrow> string \<Rightarrow> (exn + (string, json) dict) \<times> library" where
  "route_transfer_copy env s copy_id dest_branch_id requested_by caller =
     (case repo_get_branch s dest_branch_id of
        None \<Rightarrow> (Inl (BranchNotFoundError dest_branch_id), s)
      | Some dest \<Rightarrow>
          let s = s\<lparr>lb_branch_mgr := register_branch (lb_branch_mgr s) dest\<rparr>
          in case get_copy s copy_id of
               None \<Rightarrow> (Inl (CopyNotFoundError copy_id), s)
             | Some (r, c) \<Rightarrow>
                 let bm = (if cp_branch_id c \<in> set (dkeys (bm_branches (lb_branch_mgr s))) then lb_branch_mgr s
                           else case repo_get_branch s (cp_branch_id c) of
                                  Some source \<Rightarrow> register_branch (lb_branch_mgr s) source
                                | None \<Rightarrow> lb_branch_mgr s);
                     by = (if truthy requested_by then the requested_by else caller)
                 in case request_transfer (ev_now env) (ev_uuid8 env) bm c dest_branch_id by of
                      (Inl e, bm) \<Rightarrow> (Inl e, s\<lparr>lb_branch_mgr := bm\<rparr>)
                    | (Inr (t, c), bm) \<Rightarrow>
                        (Inr [(''status'', JStr ''SUCCESS''), (''transfer'', JObj (transfer_to_dict t))],
                         save_copy (heap_put r c (s\<lparr>lb_branch_mgr := bm\<rparr>)) r))"

section \<open>The plan respects its constraints\<close>

lemma foldl_heappush:
  "is_heap key h \<Longrightarrow> is_heap key (foldl (heappush key) h xs) \<and> mset (foldl (heappush key) h xs) = mset h + mset xs"
proof (induction xs arbitrary: h)
  case (Cons x xs)
  have "is_heap key (heappush key h x)" "mset (heappush key h x) = add_mset x (mset h)" using heappush_heap [OF Cons.prems] by auto
  then show ?case using Cons.IH [of "heappush key h x"] by simp
qed simp

lemma is_heap_Nil: "is_heap key []"
  by (simp add: is_heap_def)

lemma in_flight_count:
  "dget_default (in_flight_counts branches bm) d 0 =
     int (length (filter (\<lambda>t. tr_status t = TRF_IN_TRANSIT \<and> tr_dest_branch_id t = d) (dvalues (bm_transfers bm))))"
proof -
  have step: "dget_default (foldl (\<lambda>d t. if tr_status t = TRF_IN_TRANSIT
                  then dset d (tr_dest_branch_id t) (dget_default d (tr_dest_branch_id t) 0 + 1) else d) e ts) d 0 =
      dget_default e d 0 + int (length (filter (\<lambda>t. tr_status t = TRF_IN_TRANSIT \<and> tr_dest_branch_id t = d) ts))" for e ts
    by (induction ts arbitrary: e) (auto simp: dget_default_def)
  have zero: "dget_default (map (\<lambda>b. (b, 0 :: int)) ks) d 0 = 0" for ks
    by (induction ks) (auto simp: dget_default_def)
  show ?thesis unfolding in_flight_counts_def step zero by (rule add_0)
qed

definition item_of :: "transfer_candidate \<Rightarrow> plan_item" where
  "item_of cand = \<lparr>pi_isbn = tc_isbn cand, pi_copy_id = tc_copy_id cand, pi_source_branch_id = tc_source_branch_id cand,
     pi_dest_branch_id = tc_dest_branch_id cand, pi_utility_score = py_round (- tc_priority cand) 2,
     pi_transit_cost = py_round (tc_transit_cost cand) 2\<rparr>"

lemma select_from: "set (select_loop m cands al fl) \<subseteq> item_of ` set cands"
  by (induction m cands al fl rule: select_loop.induct) (auto simp: item_of_def)

lemma select_copies: "distinct (map pi_copy_id (select_loop m cands al fl)) \<and> pi_copy_id ` set (select_loop m cands al fl) \<inter> al = {}"
  by (induction m cands al fl rule: select_loop.induct) auto

lemma select_capacity:
  "dget_default fl d 0 + int (length (filter (\<lambda>i. pi_dest_branch_id i = d) (select_loop m cands al fl))) \<le> max m (dget_default fl d 0)"
proof (induction m cands al fl rule: select_loop.induct)
  case (2 m cand cands al fl)
  show ?case
  proof (cases "tc_copy_id cand \<in> al \<or> dget_default fl (tc_dest_branch_id cand) 0 \<ge> m")
    case True
    then show ?thesis using 2 by auto
  next
    case False
    let ?fl = "dset fl (tc_dest_branch_id cand) (dget_default fl (tc_dest_branch_id cand) 0 + 1)"
    have "dget_default ?fl d 0 = (if d = tc_dest_branch_id cand then dget_default fl d 0 + 1 else dget_default fl d 0)"
      by (simp add: dget_default_def)
    then show ?thesis using 2(3) False by (auto simp: max_def split: if_splits)
  qed
qed simp

lemma select_sorted:
  "sorted (map tc_priority cands) \<Longrightarrow> sorted_wrt (\<ge>) (map pi_utility_score (select_loop m cands al fl))"
proof (induction m cands al fl rule: select_loop.induct)
  case (2 m cand cands al fl)
  have le: "pi_utility_score i \<le> py_round (- tc_priority cand) 2" if i: "i \<in> set (select_loop m cands x y)" for i x y
  proof -
    obtain cd where cd: "cd \<in> set cands" "i = item_of cd" using select_from [of m cands x y] i by blast
    then have "tc_priority cand \<le> tc_priority cd" using 2(4) by simp
    then show ?thesis using cd(2) by (simp add: item_of_def py_round_mono)
  qed
  show ?case using 2 le by auto
qed simp

text \<open>What holds of every candidate.\<close>

definition candidate_ok :: "date \<Rightarrow> library \<Rightarrow> transfer_candidate \<Rightarrow> bool" where
  "candidate_ok ref s cand \<longleftrightarrow> tc_source_branch_id cand \<noteq> tc_dest_branch_id cand \<and>
     (\<exists>b \<in> set (list_books s). is_physical b \<and> bk_isbn b = tc_isbn cand \<and>
        needs_stock (forecast_demand_at_branch (lb_forecaster s) (bk_isbn b) (tc_dest_branch_id cand) ref)
          (length (copies_at (rp_heap s) b (tc_dest_branch_id cand))) \<and>
        2 \<le> length (copies_at (rp_heap s) b (tc_source_branch_id cand)) \<and>
        tc_copy_id cand = cp_copy_id (hd (copies_at (rp_heap s) b (tc_source_branch_id cand))))"

lemma source_candidate_Some:
  assumes "source_candidate hypot h b w dest source = Some cand"
  shows "tc_source_branch_id cand = fst source \<and> tc_dest_branch_id cand = fst dest \<and> fst source \<noteq> fst dest \<and>
    2 \<le> length (copies_at h b (fst source)) \<and> tc_copy_id cand = cp_copy_id (hd (copies_at h b (fst source))) \<and>
    tc_isbn cand = bk_isbn b \<and> tc_priority cand < 0"
  using assms by (auto simp: source_candidate_def Let_def split: if_splits list.splits)

lemma plan_candidates_ok: "cand \<in> set (plan_candidates hypot ref s branches fl) \<Longrightarrow> candidate_ok ref s cand"
proof -
  assume "cand \<in> set (plan_candidates hypot ref s branches fl)"
  then obtain b dest where b: "b \<in> set (list_books s)" "is_physical b" and d: "cand \<in> set (dest_candidates hypot ref s branches fl b dest)"
    by (auto simp: plan_candidates_def split: if_splits)
  then obtain w source where src: "source_candidate hypot (rp_heap s) b w dest source = Some cand"
    and need: "needs_stock (forecast_demand_at_branch (lb_forecaster s) (bk_isbn b) (fst dest) ref) (length (copies_at (rp_heap s) b (fst dest)))"
    by (auto simp: dest_candidates_def Let_def map_filter_def split: if_splits)
  show ?thesis using source_candidate_Some [OF src] need b unfolding candidate_ok_def by auto
qed

lemma list_books_get: "repo_inv s \<Longrightarrow> b \<in> set (list_books s) \<longleftrightarrow> get_book s (bk_isbn b) = Some b"
proof -
  assume inv: "repo_inv s"
  then have "dict_wf (rp_books s)" "\<And>i b. dget (rp_books s) i = Some b \<Longrightarrow> bk_isbn b = i" by (auto simp: repo_inv_def books_ok_def)
  then show ?thesis using in_dvalues [of "rp_books s" b] unfolding list_books_def get_book_def by metis
qed

lemma copies_at_copy:
  assumes "repo_inv s" "get_book s isbn = Some b" "c \<in> set (copies_at (rp_heap s) b br)"
  shows "\<exists>r. get_copy s (cp_copy_id c) = Some (r, c) \<and> copy_status c = AVAILABLE \<and> cp_branch_id c = br"
proof -
  have "c \<in> set (get_available_copies (rp_heap s) b None)" "cp_branch_id c = br"
    using assms(3) by (auto simp: copies_at_def get_available_copies_def)
  then show ?thesis using available_copy [OF assms(1,2)] by auto
qed

lemma plan_items:
  assumes "repo_inv s" "it \<in> set (calculate_rebalancing_plan hypot ref s)"
  obtains b r c where "get_book s (pi_isbn it) = Some b" "is_physical b" "pi_source_branch_id it \<noteq> pi_dest_branch_id it"
    "needs_stock (forecast_demand_at_branch (lb_forecaster s) (pi_isbn it) (pi_dest_branch_id it) ref)
       (length (copies_at (rp_heap s) b (pi_dest_branch_id it)))"
    "2 \<le> length (copies_at (rp_heap s) b (pi_source_branch_id it))" "get_copy s (pi_copy_id it) = Some (r, c)"
    "copy_status c = AVAILABLE" "cp_branch_id c = pi_source_branch_id it"
    "pi_copy_id it = cp_copy_id (hd (copies_at (rp_heap s) b (pi_source_branch_id it)))"
proof -
  let ?br = "branches_by_id (list_branches s)"
  let ?fl = "in_flight_counts ?br (lb_branch_mgr s)"
  let ?cs = "plan_candidates hypot ref s ?br ?fl"
  have heap: "is_heap tc_priority (foldl (heappush tc_priority) [] ?cs)" "mset (foldl (heappush tc_priority) [] ?cs) = mset ?cs"
    using foldl_heappush [OF is_heap_Nil, of tc_priority ?cs] by auto
  then have "set (heap_drain tc_priority (foldl (heappush tc_priority) [] ?cs)) = set ?cs"
    using heap_drain_props [OF heap(1)] by (metis set_mset_mset)
  then obtain cand where cand: "cand \<in> set ?cs" "it = item_of cand"
    using assms(2) select_from unfolding calculate_rebalancing_plan_def Let_def by blast
  have ok: "candidate_ok ref s cand" by (rule plan_candidates_ok [OF cand(1)])
  obtain b where b: "b \<in> set (list_books s)" "is_physical b" "bk_isbn b = pi_isbn it" and ne: "pi_source_branch_id it \<noteq> pi_dest_branch_id it"
    and n: "needs_stock (forecast_demand_at_branch (lb_forecaster s) (pi_isbn it) (pi_dest_branch_id it) ref)
       (length (copies_at (rp_heap s) b (pi_dest_branch_id it)))"
    and two: "2 \<le> length (copies_at (rp_heap s) b (pi_source_branch_id it))"
    and id: "pi_copy_id it = cp_copy_id (hd (copies_at (rp_heap s) b (pi_source_branch_id it)))"
    using ok cand(2) unfolding candidate_ok_def by (auto simp: item_of_def)
  have g: "get_book s (pi_isbn it) = Some b" using list_books_get [OF assms(1)] b by auto
  have "hd (copies_at (rp_heap s) b (pi_source_branch_id it)) \<in> set (copies_at (rp_heap s) b (pi_source_branch_id it))"
    using two by (intro hd_in_set) auto
  from copies_at_copy [OF assms(1) g this] obtain r where
    "get_copy s (pi_copy_id it) = Some (r, hd (copies_at (rp_heap s) b (pi_source_branch_id it)))"
    "copy_status (hd (copies_at (rp_heap s) b (pi_source_branch_id it))) = AVAILABLE"
    "cp_branch_id (hd (copies_at (rp_heap s) b (pi_source_branch_id it))) = pi_source_branch_id it" by (auto simp: id)
  then show ?thesis using that g b(2) ne n two id by blast
qed



section \<open>Transfers keep the ledger\<close>

text \<open>What the invariants of other components read, besides the repositories.\<close>

definition same_services :: "library \<Rightarrow> library \<Rightarrow> bool" where
  "same_services s s' \<longleftrightarrow> rp_locks s' = rp_locks s \<and> rp_branches s' = rp_branches s \<and> lb_reservations s' = lb_reservations s \<and>
     lb_allocation_queues s' = lb_allocation_queues s"

definition named_branches :: "library \<Rightarrow> bool" where
  "named_branches s \<longleftrightarrow> [] \<notin> set (dkeys (bm_branches (lb_branch_mgr s))) \<and>
     (\<forall>i b. dget (rp_branches s) i = Some b \<longrightarrow> br_branch_id b = i \<and> i \<noteq> [])"

lemma same_services_refl [simp]: "same_services s s"
  by (simp add: same_services_def)

lemma same_services_trans: "same_services s t \<Longrightarrow> same_services t u \<Longrightarrow> same_services s u"
  by (simp add: same_services_def)

lemma lib_calls_services [simp]:
  "same_services s (lib_publish s t p)" "same_services s (heap_put r c s)" "same_services s (s\<lparr>lb_branch_mgr := bm\<rparr>)"
  "same_services s (s\<lparr>lb_rebalancer := rb\<rparr>)"
  by (simp_all add: same_services_def lib_publish_def heap_put_def split: prod.splits)

lemma branch_mgr_frame [simp]:
  fixes s :: library
  shows "get_copy (s\<lparr>lb_branch_mgr := bm\<rparr>) i = get_copy s i" "ledger_inv (s\<lparr>lb_branch_mgr := bm\<rparr>) = ledger_inv s"
  "repo_inv (s\<lparr>lb_branch_mgr := bm\<rparr>) = repo_inv s"
proof -
  have "same_repo s (s\<lparr>lb_branch_mgr := bm\<rparr>)" by (simp add: same_repo_def)
  then show "get_copy (s\<lparr>lb_branch_mgr := bm\<rparr>) i = get_copy s i" "ledger_inv (s\<lparr>lb_branch_mgr := bm\<rparr>) = ledger_inv s"
    "repo_inv (s\<lparr>lb_branch_mgr := bm\<rparr>) = repo_inv s"
    using same_repo_lookups same_repo_ledger same_repo_inv by blast+
qed

lemma publish_tracked: "same_repo s (lib_publish (s\<lparr>lb_rebalancer := rb\<rparr>) t p)"
  by (rule same_repo_trans [OF hook_irrelevant(2) lib_calls_repo(5)])

text \<open>Storing a moved copy: only the heap changes, and the ledger is kept.\<close>

lemma move_copy:
  assumes "ledger_inv s" "get_copy s cid = Some (r, c)" "copy_status c \<noteq> ISSUED"
    "cp_copy_id c' = cp_copy_id c" "cp_book_isbn c' = cp_book_isbn c" "copy_consistent c'" "copy_status c' \<noteq> ISSUED"
  shows "save_copy (heap_put r c' s) r = heap_put r c' s" "ledger_inv (heap_put r c' s)"
proof -
  have repo: "repo_inv s" by (rule ledger_repo [OF assms(1)])
  show "save_copy (heap_put r c' s) r = heap_put r c' s"
    by (rule save_copy_idem [OF heap_put_inv [OF repo assms(2)], of _ cid])
       (simp_all add: assms get_copy_heap_put [OF repo assms(2)])
  show "ledger_inv (heap_put r c' s)"
    by (rule ledger_shelf [OF assms]) simp_all
qed

lemma started_consistent:
  assumes "request_transfer now uid bm c dest who = (Inr (t, c'), bm')" "copy_consistent c" "dest \<noteq> []"
  shows "copy_consistent c' \<and> copy_status c \<noteq> ISSUED \<and> copy_status c' \<noteq> ISSUED \<and> cp_copy_id c' = cp_copy_id c \<and>
    cp_book_isbn c' = cp_book_isbn c \<and> bm_branches bm' = bm_branches bm"
  using request_transfer_ok [OF assms(1)] assms(2,3) by (auto simp: copy_consistent_def copy_status_def)

lemma completed_consistent:
  assumes "complete_transfer now bm i c = (Inr (t, c'), bm')" "copy_consistent c"
  shows "copy_consistent c' \<and> copy_status c \<noteq> ISSUED \<and> copy_status c' \<noteq> ISSUED \<and> cp_copy_id c' = cp_copy_id c \<and>
    cp_book_isbn c' = cp_book_isbn c \<and> bm_branches bm' = bm_branches bm"
  using assms
  by (cases "cp_state c") (auto simp: complete_transfer_def copy_complete_transfer_def set_state_def copy_consistent_def copy_status_def Let_def
      split: option.splits if_splits sum.splits)

lemma request_dest: "request_transfer now uid bm c dest who = (Inr p, bm') \<Longrightarrow> dest \<in> set (dkeys (bm_branches bm))"
  by (auto simp: request_transfer_def split: if_splits)

lemma execute_ledger:
  assumes "ledger_inv s" "named_branches s"
  shows "ledger_inv (snd (execute_rebalancing_plan now plan s)) \<and> same_services s (snd (execute_rebalancing_plan now plan s)) \<and>
    named_branches (snd (execute_rebalancing_plan now plan s))"
  using assms
proof (induction plan arbitrary: s)
  case (Cons step plan)
  obtain item uid where step: "step = (item, uid)" by fastforce
  show ?case
  proof (cases "\<exists>r c. get_copy s (pi_copy_id item) = Some (r, c) \<and> copy_status c = AVAILABLE")
    case False
    then have "execute_rebalancing_plan now (step # plan) s = execute_rebalancing_plan now plan s"
      unfolding step by (cases "get_copy s (pi_copy_id item)") (auto split: prod.splits)
    then show ?thesis using Cons by simp
  next
    case True
    then obtain r c where go: "get_copy s (pi_copy_id item) = Some (r, c)" "copy_status c = AVAILABLE" by blast
    obtain x bm where rq: "request_transfer now uid (lb_branch_mgr s) c (pi_dest_branch_id item) ''AUTONOMOUS_REBALANCER'' = (x, bm)" by fastforce
    show ?thesis
    proof (cases x)
      case (Inl e)
      then show ?thesis using step go rq Cons.prems request_transfer_raise [OF rq [unfolded Inl]] by simp
    next
      case (Inr p)
      obtain t c' where p: "p = (t, c')" by fastforce
      have dest: "pi_dest_branch_id item \<noteq> []" using request_dest [OF rq [unfolded Inr]] Cons.prems(2) unfolding named_branches_def by metis
      have cc: "copy_consistent c" using Cons.prems(1) go(1) unfolding ledger_inv_def by blast
      note st = started_consistent [OF rq [unfolded Inr p] cc dest]
      let ?s1 = "s\<lparr>lb_branch_mgr := bm\<rparr>"
      have g1: "get_copy ?s1 (pi_copy_id item) = Some (r, c)" "ledger_inv ?s1" using go(1) Cons.prems(1) by simp_all
      have mv: "save_copy (heap_put r c' ?s1) r = heap_put r c' ?s1" "ledger_inv (heap_put r c' ?s1)"
        using move_copy [OF g1(2,1), of c'] st by simp_all
      define s2 where "s2 = lib_publish ((heap_put r c' ?s1)\<lparr>lb_rebalancer := start_tracking now (lb_rebalancer (heap_put r c' ?s1)) t\<rparr>) ''transfer.requested''
          [(''transfer_id'', JStr (tr_transfer_id t)), (''copy_id'', JStr (cp_copy_id c')), (''isbn'', JStr (cp_book_isbn c')),
           (''source_branch_id'', JStr (tr_source_branch_id t)), (''dest_branch_id'', JStr (tr_dest_branch_id t)),
           (''requested_by'', JStr ''AUTONOMOUS_REBALANCER'')]"
      have "same_repo (heap_put r c' ?s1) s2" unfolding s2_def by (rule publish_tracked)
      then have led2: "ledger_inv s2" using mv(2) same_repo_ledger by blast
      have serv: "same_services s s2" and "lb_branch_mgr s2 = bm"
        unfolding s2_def by (auto simp: same_services_def lib_publish_def heap_put_def split: prod.splits)
      then have nb: "named_branches s2" using Cons.prems(2) st by (simp add: named_branches_def same_services_def)
      have run: "snd (execute_rebalancing_plan now (step # plan) s) = snd (execute_rebalancing_plan now plan s2)"
        unfolding step using go rq Inr p mv(1) by (simp add: Let_def s2_def split: prod.splits sum.splits)
      show ?thesis unfolding run using Cons.IH [OF led2 nb] serv same_services_trans by blast
    qed
  qed
qed simp

lemma lib_publish_fields [simp]: "lb_branch_mgr (lib_publish s t p) = lb_branch_mgr s"
  by (simp add: lib_publish_def split: prod.splits)

lemma engine_complete_ledger:
  assumes "ledger_inv s" "named_branches s"
  shows "ledger_inv (snd (engine_complete_transfer now s i)) \<and> same_services s (snd (engine_complete_transfer now s i)) \<and>
    named_branches (snd (engine_complete_transfer now s i))"
proof (cases "\<exists>trf r c. dget (bm_transfers (lb_branch_mgr s)) i = Some trf \<and> get_copy s (tr_copy_id trf) = Some (r, c)")
  case False
  then have "snd (engine_complete_transfer now s i) = s"
    by (auto simp: engine_complete_transfer_def split: option.splits)
  then show ?thesis using assms by simp
next
  case True
  then obtain trf r c where go: "dget (bm_transfers (lb_branch_mgr s)) i = Some trf" "get_copy s (tr_copy_id trf) = Some (r, c)" by blast
  obtain x bm where ct: "complete_transfer now (lb_branch_mgr s) i c = (x, bm)" by fastforce
  show ?thesis
  proof (cases x)
    case (Inl e)
    then show ?thesis using go ct assms complete_transfer_raise [OF ct [unfolded Inl]] by (simp add: engine_complete_transfer_def)
  next
    case (Inr p)
    obtain t c' where p: "p = (t, c')" by fastforce
    have cc: "copy_consistent c" using assms(1) go(2) unfolding ledger_inv_def by blast
    note st = completed_consistent [OF ct [unfolded Inr p] cc]
    let ?s1 = "s\<lparr>lb_branch_mgr := bm\<rparr>"
    have g1: "get_copy ?s1 (tr_copy_id trf) = Some (r, c)" "ledger_inv ?s1" using go(2) assms(1) by simp_all
    have mv: "save_copy (heap_put r c' ?s1) r = heap_put r c' ?s1" "ledger_inv (heap_put r c' ?s1)"
      using move_copy [OF g1(2,1), of c'] st by simp_all
    let ?s2 = "lib_publish ((heap_put r c' ?s1)\<lparr>lb_rebalancer := mark_arrived now (lb_rebalancer (heap_put r c' ?s1)) i\<rparr>) ''transfer.completed''
        [(''transfer_id'', JStr i), (''copy_id'', JStr (cp_copy_id c')), (''dest_branch_id'', JStr (tr_dest_branch_id t))]"
    have run: "snd (engine_complete_transfer now s i) = ?s2"
      using go ct Inr p mv(1) by (simp add: engine_complete_transfer_def Let_def)
    have "same_repo (heap_put r c' ?s1) ?s2" by (rule publish_tracked)
    then have "ledger_inv ?s2" using mv(2) same_repo_ledger by blast
    moreover have serv: "same_services s ?s2" and "lb_branch_mgr ?s2 = bm"
      by (auto simp: same_services_def lib_publish_def heap_put_def split: prod.splits)
    moreover have "named_branches ?s2" using assms(2) st serv \<open>lb_branch_mgr ?s2 = bm\<close> by (simp add: named_branches_def same_services_def)
    ultimately show ?thesis unfolding run by blast
  qed
qed

lemma named_register:
  "named_branches s \<Longrightarrow> repo_get_branch s d = Some b \<Longrightarrow> named_branches (s\<lparr>lb_branch_mgr := register_branch (lb_branch_mgr s) b\<rparr>)"
  by (auto simp: named_branches_def register_branch_def repo_get_branch_def simp del: set_map)

definition known_branches :: "library \<Rightarrow> book_copy \<Rightarrow> branch_mgr" where
  "known_branches s c = (if cp_branch_id c \<in> set (dkeys (bm_branches (lb_branch_mgr s))) then lb_branch_mgr s
     else case repo_get_branch s (cp_branch_id c) of Some source \<Rightarrow> register_branch (lb_branch_mgr s) source | None \<Rightarrow> lb_branch_mgr s)"

lemma known_named: "named_branches s \<Longrightarrow> named_branches (s\<lparr>lb_branch_mgr := known_branches s c\<rparr>)"
  using named_register [of s] by (auto simp: known_branches_def split: option.splits)

text \<open>A granted request: the copy is sent off, which touches no loan.\<close>

lemma sent_ledger:
  assumes inv: "ledger_inv s" "named_branches (s\<lparr>lb_branch_mgr := bm\<rparr>)" and c: "get_copy s cid = Some (r, c)"
    and rq: "request_transfer now uid bm c dest who = (Inr (t, c'), bm')"
  shows "save_copy (heap_put r c' (s\<lparr>lb_branch_mgr := bm'\<rparr>)) r = heap_put r c' (s\<lparr>lb_branch_mgr := bm'\<rparr>)"
    "ledger_inv (heap_put r c' (s\<lparr>lb_branch_mgr := bm'\<rparr>))" "named_branches (heap_put r c' (s\<lparr>lb_branch_mgr := bm'\<rparr>))"
proof -
  have "dest \<noteq> []" using request_dest [OF rq] inv(2) unfolding named_branches_def by fastforce
  moreover have "copy_consistent c" using inv(1) c unfolding ledger_inv_def by blast
  ultimately have st: "copy_consistent c' \<and> copy_status c \<noteq> ISSUED \<and> copy_status c' \<noteq> ISSUED \<and> cp_copy_id c' = cp_copy_id c \<and>
      cp_book_isbn c' = cp_book_isbn c \<and> bm_branches bm' = bm_branches bm"
    using started_consistent [OF rq] by blast
  have g: "get_copy (s\<lparr>lb_branch_mgr := bm'\<rparr>) cid = Some (r, c)" "ledger_inv (s\<lparr>lb_branch_mgr := bm'\<rparr>)" using c inv(1) by simp_all
  show "save_copy (heap_put r c' (s\<lparr>lb_branch_mgr := bm'\<rparr>)) r = heap_put r c' (s\<lparr>lb_branch_mgr := bm'\<rparr>)"
    "ledger_inv (heap_put r c' (s\<lparr>lb_branch_mgr := bm'\<rparr>))"
    using move_copy [OF g(2,1), of c'] st by simp_all
  show "named_branches (heap_put r c' (s\<lparr>lb_branch_mgr := bm'\<rparr>))" using inv(2) st by (simp add: named_branches_def heap_put_def)
qed

lemma route_transfer_ledger:
  assumes "ledger_inv s" "named_branches s"
  shows "ledger_inv (snd (route_transfer_copy env s cid dest who caller)) \<and> same_services s (snd (route_transfer_copy env s cid dest who caller)) \<and>
    named_branches (snd (route_transfer_copy env s cid dest who caller))"
proof (cases "repo_get_branch s dest")
  case None
  then show ?thesis using assms by (simp add: route_transfer_copy_def)
next
  case (Some d)
  define s1 where "s1 = s\<lparr>lb_branch_mgr := register_branch (lb_branch_mgr s) d\<rparr>"
  have s1: "ledger_inv s1" "same_services s s1" "named_branches s1"
    using assms named_register [OF assms(2) Some] by (auto simp: s1_def)
  note def = route_transfer_copy_def Let_def s1_def [symmetric] known_branches_def Some
  show ?thesis
  proof (cases "get_copy s1 cid")
    case None
    then show ?thesis using s1 by (simp add: def)
  next
    case copy: (Some p)
    obtain r c where rc: "get_copy s1 cid = Some (r, c)" using copy by (cases p) simp
    let ?by = "if truthy who then the who else caller"
    have nb: "named_branches (s1\<lparr>lb_branch_mgr := known_branches s1 c\<rparr>)" by (rule known_named [OF s1(3)])
    obtain x bm where rq: "request_transfer (ev_now env) (ev_uuid8 env) (known_branches s1 c) c dest ?by = (x, bm)" by fastforce
    show ?thesis
    proof (cases x)
      case (Inl e)
      then have "snd (route_transfer_copy env s cid dest who caller) = s1\<lparr>lb_branch_mgr := known_branches s1 c\<rparr>"
        using rc rq [unfolded known_branches_def] request_transfer_raise [OF rq [unfolded Inl]] by (simp add: def)
      moreover have "same_services s (s1\<lparr>lb_branch_mgr := known_branches s1 c\<rparr>)" by (rule same_services_trans [OF s1(2)]) simp
      ultimately show ?thesis using nb s1(1) by (simp only: branch_mgr_frame)
    next
      case (Inr q)
      obtain t c' where q: "q = (t, c')" by fastforce
      note sent = sent_ledger [OF s1(1) nb rc rq [unfolded Inr q]]
      have run: "snd (route_transfer_copy env s cid dest who caller) = heap_put r c' (s1\<lparr>lb_branch_mgr := bm\<rparr>)"
        using rc rq [unfolded known_branches_def] Inr q sent(1) by (simp add: def)
      have "same_services s (heap_put r c' (s1\<lparr>lb_branch_mgr := bm\<rparr>))"
        by (rule same_services_trans [OF s1(2)]) (simp add: same_services_def heap_put_def)
      then show ?thesis unfolding run using sent(2,3) by blast
    qed
  qed
qed

section \<open>Outcome metrics\<close>

text \<open>The changes the engine makes to its records of transfers.\<close>

inductive tracking_step :: "rebalancer \<Rightarrow> rebalancer \<Rightarrow> bool" where
  track_start: "tracking_step rb (start_tracking now rb t)"
| track_arrived: "tracking_step rb (mark_arrived now rb i)"
| track_checkout: "tracking_step rb (snd (record_checkout_hook now rb cid br))"

definition tracking_ok :: "rebalancer \<Rightarrow> bool" where
  "tracking_ok rb \<longleftrightarrow> dict_wf (rb_transfers_tracked rb) \<and>
     (\<forall>i t. dget (rb_transfers_tracked rb) i = Some t \<longrightarrow>
        (tk_status t = ''IN_TRANSIT'' \<longleftrightarrow> tk_arrived_at t = None) \<and>
        (\<forall>b. tk_borrowed_at t = Some b \<longrightarrow> (\<exists>a. tk_arrived_at t = Some a)))"

lemma tracking_step_ok: "tracking_step rb rb' \<Longrightarrow> tracking_ok rb \<Longrightarrow> tracking_ok rb'"
  by (induction rule: tracking_step.induct)
     (auto simp: tracking_ok_def start_tracking_def mark_arrived_def record_checkout_hook_def Let_def split: option.splits if_splits)

lemma tracking_reachable: "tracking_step\<^sup>*\<^sup>* rb rb' \<Longrightarrow> tracking_ok rb \<Longrightarrow> tracking_ok rb'"
  by (induction rule: rtranclp_induct) (auto intro: tracking_step_ok)

lemma filter_length_mono: "(\<And>x. x \<in> set xs \<Longrightarrow> P x \<Longrightarrow> Q x) \<Longrightarrow> length (filter P xs) \<le> length (filter Q xs)"
proof (induction xs)
  case (Cons a xs)
  have "length (filter P xs) \<le> length (filter Q xs)" by (rule Cons.IH) (simp add: Cons.prems)
  then show ?case using Cons.prems [of a] by simp
qed simp

text \<open>
  The outcome metrics are consistent. From a fresh engine, however transfers start, arrive and lead to
  checkouts, every tracked transfer is either in transit or has arrived, a transfer counts as borrowed only
  after it arrived, and the reported precision is a percentage.
\<close>

theorem outcome_metrics_consistent:
  assumes "tracking_step\<^sup>*\<^sup>* new_rebalancer rb" "get_outcome_metrics rb = (tracked, arrived, borrowed, in_transit, precision, recent)"
  shows "tracked = arrived + in_transit \<and> borrowed \<le> arrived \<and> 0 \<le> precision \<and> precision \<le> 100 \<and> length recent \<le> 10"
proof -
  have ok: "tracking_ok rb" by (rule tracking_reachable [OF assms(1)]) (simp add: tracking_ok_def new_rebalancer_def)
  have wf: "dict_wf (rb_transfers_tracked rb)" using ok by (simp add: tracking_ok_def)
  let ?ts = "dvalues (rb_transfers_tracked rb)"
  have t: "(tk_status t = ''IN_TRANSIT'' \<longleftrightarrow> tk_arrived_at t = None) \<and> (tk_borrowed_at t \<noteq> None \<longrightarrow> tk_arrived_at t \<noteq> None)" if i: "t \<in> set ?ts" for t
  proof -
    obtain i where "dget (rb_transfers_tracked rb) i = Some t" 
      using i in_dvalues [OF wf] by blast
    then have "(tk_status t = ''IN_TRANSIT'' \<longleftrightarrow> tk_arrived_at t = None) \<and> (\<forall>b. tk_borrowed_at t = Some b \<longrightarrow> (\<exists>a. tk_arrived_at t = Some a))"
      using ok unfolding tracking_ok_def by blast
    then show ?thesis by auto
  qed
  have arr: "arrived = length (filter (\<lambda>t. tk_arrived_at t \<noteq> None) ?ts)" "borrowed = length (filter (\<lambda>t. tk_borrowed_at t \<noteq> None) ?ts)"
    "in_transit = length (filter (\<lambda>t. tk_status t = ''IN_TRANSIT'') ?ts)" "tracked = length ?ts" "recent = last_slice 10 ?ts"
    "precision = (if arrived > 0 then py_round (of_nat borrowed / of_nat arrived * 100) 1 else 0)"
    using assms(2) unfolding get_outcome_metrics_def Let_def prod.inject by blast+
  have "filter (\<lambda>t. tk_status t = ''IN_TRANSIT'') ?ts = filter (\<lambda>t. \<not> tk_arrived_at t \<noteq> None) ?ts"
    using t by (intro filter_cong refl) auto
  then have sum: "tracked = arrived + in_transit"
    using sum_length_filter_compl [of "\<lambda>t. tk_arrived_at t \<noteq> None" ?ts] arr by (simp only:)
  have le: "borrowed \<le> arrived" unfolding arr(1,2) by (rule filter_length_mono) (use t in blast)
  have "precision \<le> 100 \<and> 0 \<le> precision"
  proof (cases "arrived > 0")
    case True
    then have "rat_of_nat borrowed / of_nat arrived * 100 \<le> of_int 100" using le by (simp add: field_simps)
    then have "py_round (of_nat borrowed / of_nat arrived * 100) 1 \<le> py_round (of_int 100) 1" by (rule py_round_mono)
    then have "py_round (of_nat borrowed / of_nat arrived * 100) 1 \<le> 100" unfolding py_round_of_int by simp
    moreover have "0 \<le> py_round (of_nat borrowed / of_nat arrived * 100) 1" by (intro py_round_nonneg) simp
    ultimately show ?thesis using True arr(6) by simp
  qed (use arr(6) in simp)
  then show ?thesis using sum le arr(5) by (simp add: last_slice_def)
qed

theorem outcome_metrics_consistent_witness:
  "\<exists>tracked arrived borrowed in_transit precision recent.
     get_outcome_metrics (mark_arrived 7 new_rebalancer ''TRF-1'') = (tracked, arrived, borrowed, in_transit, precision, recent) \<and> borrowed \<le> arrived"
proof -
  obtain tracked arrived borrowed in_transit precision recent where
    m: "get_outcome_metrics (mark_arrived 7 new_rebalancer ''TRF-1'') = (tracked, arrived, borrowed, in_transit, precision, recent)"
    by (cases "get_outcome_metrics (mark_arrived 7 new_rebalancer ''TRF-1'')") auto
  have "tracking_step\<^sup>*\<^sup>* new_rebalancer (mark_arrived 7 new_rebalancer ''TRF-1'')" by (rule r_into_rtranclp [where r = tracking_step]) (rule track_arrived)
  from outcome_metrics_consistent [OF this m] m show ?thesis by blast
qed

end
