(* ===== verification/Catalog.thy ===== *)
theory Catalog
  imports Circulation
begin

text \<open>
  The catalogue service of \<^verbatim>\<open>libflow/services/catalog_service.py\<close> and the pages of the search routes of
  \<^verbatim>\<open>libflow/api/routers/catalog.py\<close>: registering titles and copies, the read-through cache of title
  details, search and autocompletion. The logarithm and the iteration order of a set, which the search
  engine uses, are arguments.
\<close>

section \<open>Registering titles and copies\<close>

definition trie_author :: "book \<Rightarrow> autocomplete_trie \<Rightarrow> string \<Rightarrow> autocomplete_trie" where
  "trie_author b t author =
     trie_insert t author (bk_isbn b) (bk_title b @ '' (by '' @ author @ '')'') (bk_rating b * (9/10))"

definition register_book :: "call_env \<Rightarrow> library \<Rightarrow> string \<Rightarrow> string \<Rightarrow> book_kwargs \<Rightarrow> (exn + book) \<times> library" where
  "register_book env s format_type actor_id kw =
     (case create_book format_type kw of
        Inl e \<Rightarrow> (Inl e, s)
      | Inr b \<Rightarrow>
          let s = save_book s b;
              s = s\<lparr>lb_index := index_book (lb_index s) b\<rparr>;
              s = s\<lparr>lb_trie := trie_insert (lb_trie s) (bk_title b) (bk_isbn b) (bk_title b) (bk_rating b)\<rparr>;
              s = s\<lparr>lb_trie := foldl (trie_author b) (lb_trie s) (bk_authors b)\<rparr>;
              s = s\<lparr>lb_cache := snd (cache_invalidate_prefix (lb_cache s) ''search:'')\<rparr>;
              s = lib_invalidate s (''book:'' @ bk_isbn b);
              s = lib_log env s actor_id ''CREATE_BOOK'' (bk_isbn b)
                    [(''title'', JStr (bk_title b)), (''format'', JStr (format_value (get_format b)))]
          in (Inr b, s))"

definition add_physical_copy ::
  "call_env \<Rightarrow> library \<Rightarrow> string \<Rightarrow> string \<Rightarrow> string \<Rightarrow> string \<Rightarrow> py_float \<Rightarrow> string \<Rightarrow> (exn + book_copy) \<times> library" where
  "add_physical_copy env s isbn copy_id branch_id shelf_location price actor_id =
     (case get_book s isbn of
        None \<Rightarrow> (Inl (BookNotFoundError isbn), s)
      | Some b \<Rightarrow>
          if \<not> is_physical b then (Inl (BookNotFoundError isbn), s)
          else let r = rp_next s;
                   c = new_copy copy_id isbn branch_id shelf_location price;
                   s = s\<lparr>rp_heap := (rp_heap s)(r := Some c), rp_next := Suc r\<rparr>;
                   b = add_copy b copy_id r;
                   s = s\<lparr>rp_books := dset (rp_books s) isbn b\<rparr>;
                   s = save_copy s r;
                   s = save_book s b;
                   s = lib_invalidate s (''book:'' @ isbn);
                   s = lib_log env s actor_id ''ADD_BOOK_COPY'' copy_id [(''isbn'', JStr isbn), (''branch_id'', JStr branch_id)]
               in (Inr c, s))"

section \<open>Reading the catalogue\<close>

definition load_details :: "library \<Rightarrow> string \<Rightarrow> (string, json) dict option" where
  "load_details s isbn = map_option (book_to_dict (rp_heap s)) (get_book s isbn)"

definition get_book_details :: "call_env \<Rightarrow> library \<Rightarrow> string \<Rightarrow> (exn + (string, json) dict option) \<times> library" where
  "get_book_details env s isbn =
     (case get_or_compute (of_int (ev_now env)) (lb_cache s) (''book:'' @ isbn) (load_details s isbn) (Some 600) of
        (r, c) \<Rightarrow> (r, s\<lparr>lb_cache := c\<rparr>))"

definition details_route :: "call_env \<Rightarrow> library \<Rightarrow> string \<Rightarrow> (exn + (string, json) dict) \<times> library" where
  "details_route env s isbn =
     (case get_book_details env s isbn of
        (Inl e, s) \<Rightarrow> (Inl e, s)
      | (Inr details, s) \<Rightarrow>
          (case details of
             None \<Rightarrow> (Inl (BookNotFoundError isbn), s)
           | Some d \<Rightarrow> if d = [] then (Inl (BookNotFoundError isbn), s) else (Inr d, s)))"

definition search_books ::
  "(py_float \<Rightarrow> py_float) \<Rightarrow> (string set \<Rightarrow> string list) \<Rightarrow> library \<Rightarrow> string \<Rightarrow> search_filter \<Rightarrow> ((string, json) dict \<times> py_float) list" where
  "search_books math_log set_order s query f =
     map (\<lambda>(b, score). (book_to_dict (rp_heap s) b, score))
       (search math_log set_order (rp_heap s) (get_book s) (lb_index s) query f 20)"

definition autocomplete :: "library \<Rightarrow> string \<Rightarrow> int \<Rightarrow> (string \<times> string \<times> py_float) list" where
  "autocomplete s query limit = search_prefix (lb_trie s) query limit"

text \<open>One page of a search, with the length of the whole result.\<close>

definition search_page ::
  "(py_float \<Rightarrow> py_float) \<Rightarrow> (string set \<Rightarrow> string list) \<Rightarrow> library \<Rightarrow> string \<Rightarrow> search_filter \<Rightarrow> nat \<Rightarrow> nat \<Rightarrow>
   nat \<times> ((string, json) dict \<times> py_float) list" where
  "search_page math_log set_order s q f limit offset =
     (let all_results = search_books math_log set_order s q f
      in (length all_results, take limit (drop offset all_results)))"

record book_request =
  brq_format_type :: string
  brq_isbn :: string
  brq_title :: string
  brq_authors :: "string list"
  brq_category :: string
  brq_publication_year :: int
  brq_rating :: py_float
  brq_difficulty_level :: string
  brq_keywords :: "string list"
  brq_description :: string
  brq_weight_grams :: "int option"
  brq_page_count :: "int option"
  brq_download_url :: "string option"
  brq_file_size_mb :: "py_float option"

definition kwargs_of_request :: "book_request \<Rightarrow> book_kwargs" where
  "kwargs_of_request req = no_book_kwargs\<lparr>kw_isbn := Some (brq_isbn req), kw_title := Some (brq_title req), kw_authors := Some (brq_authors req),
     kw_category := Some (brq_category req), kw_publication_year := Some (brq_publication_year req), kw_rating := Some (brq_rating req),
     kw_difficulty_level := Some (brq_difficulty_level req), kw_keywords := Some (brq_keywords req), kw_description := Some (brq_description req),
     kw_weight_grams := Some (or_int (brq_weight_grams req) 500), kw_page_count := Some (or_int (brq_page_count req) 400),
     kw_download_url := Some (or_str (brq_download_url req) (''https://cdn.libraflow.org/'' @ brq_isbn req @ ''.pdf'')),
     kw_file_size_mb := Some (or_float (brq_file_size_mb req) 12)\<rparr>"

definition register_route :: "call_env \<Rightarrow> library \<Rightarrow> string \<Rightarrow> book_request \<Rightarrow> (exn + book) \<times> library" where
  "register_route env s actor_id req =
     (case register_book env s (brq_format_type req) actor_id (kwargs_of_request req) of
        (Inl e, s) \<Rightarrow> (Inl e, s)
      | (Inr b, s) \<Rightarrow>
          (case rec_register_book (lb_recommender s, lb_graph s) b of
             (rc, g) \<Rightarrow> (Inr b, s\<lparr>lb_recommender := rc, lb_graph := g\<rparr>)))"

section \<open>What registering does to the repositories\<close>

lemma register_copies_idem:
  assumes "\<forall>r \<in> set rs. \<exists>c. rp_heap s r = Some c \<and> dget (rp_copies s) (cp_copy_id c) = Some r"
  shows "fold register_copy rs s = s"
  using assms
proof (induction rs)
  case (Cons r rs)
  then obtain c where "rp_heap s r = Some c" "dget (rp_copies s) (cp_copy_id c) = Some r" by auto
  then have "register_copy r s = s" by (simp add: register_copy_def dset_idem)
  then show ?case using Cons by simp
qed simp

lemma register_ok:
  assumes "register_book env s ft actor kw = (Inr b, s')"
  shows "create_book ft kw = Inr b" "rp_books s' = dset (rp_books s) (bk_isbn b) b" "rp_heap s' = rp_heap s" "rp_next s' = rp_next s"
    "rp_copies s' = rp_copies s" "rp_users s' = rp_users s" "rp_locks s' = rp_locks s"
    "lb_reservations s' = lb_reservations s" "lb_branch_mgr s' = lb_branch_mgr s"
    "lb_cache s' = snd (cache_invalidate (snd (cache_invalidate_prefix (lb_cache s) ''search:'')) (''book:'' @ bk_isbn b))"
    "lb_index s' = index_book (lb_index s) b"
proof -
  have c: "create_book ft kw = Inr b" using assms by (auto simp: register_book_def Let_def split: sum.splits)
  then have "copies_of b = []" by (rule create_book_ok)
  then have e: "save_book s b = s\<lparr>rp_books := dset (rp_books s) (bk_isbn b) b\<rparr>" by (simp add: save_book_def Let_def)
  show "create_book ft kw = Inr b" by (rule c)
  show "rp_books s' = dset (rp_books s) (bk_isbn b) b" "rp_heap s' = rp_heap s" "rp_next s' = rp_next s"
    "rp_copies s' = rp_copies s" "rp_users s' = rp_users s" "rp_locks s' = rp_locks s"
    "lb_reservations s' = lb_reservations s" "lb_branch_mgr s' = lb_branch_mgr s"
    "lb_cache s' = snd (cache_invalidate (snd (cache_invalidate_prefix (lb_cache s) ''search:'')) (''book:'' @ bk_isbn b))"
    "lb_index s' = index_book (lb_index s) b"
    using assms c by (auto simp: register_book_def Let_def e lib_invalidate_def lib_log_def)
qed

lemma register_ledger:
  assumes inv: "ledger_inv s" and ok: "register_book env s ft actor kw = (Inr b, s')"
    and fresh: "\<forall>i r c. get_copy s i = Some (r, c) \<longrightarrow> cp_book_isbn c \<noteq> bk_isbn b"
  shows "ledger_inv s'"
proof -
  note st = register_ok [OF ok]
  have cs: "copies_of b = []" using st(1) by (rule create_book_ok)
  have repo: "repo_inv s" by (rule ledger_repo [OF inv])
  have none: "map_option cp_book_isbn (rp_heap s r) \<noteq> Some (bk_isbn b)" if d: "dget (rp_copies s) cid = Some r" for cid r
  proof -
    obtain c where "rp_heap s r = Some c" using repo d unfolding repo_inv_def copies_ok_def by blast
    with d fresh show ?thesis by (auto simp: get_copy_Some)
  qed
  have "books_ok s'"
    using repo cs none unfolding repo_inv_def books_ok_def st(2-5) by (auto simp: dict_wf_Nil)
  then have repo': "repo_inv s'" using repo by (simp add: repo_inv_def copies_ok_def users_ok_def st)
  have look: "get_copy s' i = get_copy s i" "get_user s' v = get_user s v" for i v
    using get_copy_cong [OF st(5,3)] by (simp_all add: get_user_def st)
  then have "holder s' i = holder s i" "loans s' v = loans s v" for i v by (simp_all add: holder_def loans_def)
  then show ?thesis using inv repo' unfolding ledger_inv_def by (simp add: look)
qed

text \<open>Adding a copy under a new identifier.\<close>

lemma add_copy_idem: "is_physical b \<Longrightarrow> add_copy (add_copy b i r) i r = add_copy b i r"
  by (cases "bk_details b") (simp_all add: add_copy_def with_copies_def copies_of_def dset_idem)

lemma add_copy_ok:
  assumes inv: "repo_inv s" and ok: "add_physical_copy env s isbn cid br sh price actor = (Inr c, s')"
  obtains b where "get_book s isbn = Some b" "is_physical b" "c = new_copy cid isbn br sh price"
    "rp_heap s' = (rp_heap s)(rp_next s := Some c)" "rp_next s' = Suc (rp_next s)"
    "rp_books s' = dset (rp_books s) isbn (add_copy b cid (rp_next s))" "rp_copies s' = dset (rp_copies s) cid (rp_next s)"
    "rp_users s' = rp_users s" "rp_locks s' = rp_locks s" "lb_reservations s' = lb_reservations s" "lb_branch_mgr s' = lb_branch_mgr s"
    "lb_cache s' = snd (cache_invalidate (lb_cache s) (''book:'' @ isbn))"
proof -
  obtain b where b: "get_book s isbn = Some b" "is_physical b"
    using ok by (auto simp: add_physical_copy_def split: option.splits if_splits)
  let ?r = "rp_next s" and ?c = "new_copy cid isbn br sh price"
  let ?b = "add_copy b cid ?r"
  let ?s1 = "s\<lparr>rp_heap := (rp_heap s)(?r := Some ?c), rp_next := Suc ?r, rp_books := dset (rp_books s) isbn ?b\<rparr>"
  let ?s2 = "?s1\<lparr>rp_copies := dset (rp_copies s) cid ?r\<rparr>"
  have ids: "cp_copy_id ?c = cid" "cp_book_isbn ?c = isbn" by (simp_all add: new_copy_def)
  have db: "dget (rp_books s) isbn = Some b" using b by (simp add: get_book_def)
  have bi: "bk_isbn ?b = isbn" and wf: "dict_wf (copies_of b)" using inv db unfolding repo_inv_def books_ok_def by auto
  have s2: "save_copy ?s1 ?r = ?s2" using b ids by (simp add: save_copy_def Let_def add_copy_idem dset_idem)
  have "\<exists>d. rp_heap ?s2 x = Some d \<and> dget (rp_copies ?s2) (cp_copy_id d) = Some x" if x: "x \<in> set (dvalues (copies_of ?b))" for x
  proof -
    have "dict_wf (copies_of ?b)" using b(2) wf by simp
    then obtain i where i: "dget (copies_of ?b) i = Some x" using x in_dvalues by metis
    show ?thesis
    proof (cases "i = cid")
      case False
      then have di: "dget (rp_copies s) i = Some x" using i b(2) db inv unfolding repo_inv_def books_ok_def by auto
      then obtain d where "x < ?r" "rp_heap s x = Some d" "cp_copy_id d = i" using inv unfolding repo_inv_def copies_ok_def by blast
      then show ?thesis using False di by auto
    qed (use i b(2) ids in auto)
  qed
  then have "fold register_copy (dvalues (copies_of ?b)) ?s2 = ?s2" by (intro register_copies_idem) blast
  moreover have "?s2\<lparr>rp_books := dset (rp_books ?s2) isbn ?b\<rparr> = ?s2" by (rule library.equality) (simp_all add: dset_idem)
  ultimately have s3: "save_book ?s2 ?b = ?s2" unfolding save_book_def Let_def bi using b(2) by (simp only: add_copy_frame if_True)
  let ?s4 = "lib_log env (lib_invalidate ?s2 (''book:'' @ isbn)) actor ''ADD_BOOK_COPY'' cid [(''isbn'', JStr isbn), (''branch_id'', JStr br)]"
  have "add_physical_copy env s isbn cid br sh price actor = (Inr ?c, ?s4)" using b s2 s3 by (simp add: add_physical_copy_def Let_def)
  then have c: "c = ?c" and s': "s' = ?s4" using ok by simp_all
  have f: "rp_heap s' = (rp_heap s)(?r := Some c)" "rp_next s' = Suc ?r" "rp_books s' = dset (rp_books s) isbn ?b"
    "rp_copies s' = dset (rp_copies s) cid ?r" "rp_users s' = rp_users s" "rp_locks s' = rp_locks s"
    "lb_reservations s' = lb_reservations s" "lb_branch_mgr s' = lb_branch_mgr s"
    "lb_cache s' = snd (cache_invalidate (lb_cache s) (''book:'' @ isbn))"
    unfolding s' c by (simp_all add: lib_log_def lib_invalidate_def)
  show ?thesis by (rule that [OF b c f])
qed

text \<open>Adding a copy under a new identifier: the copy dictionary and the books stay in step.\<close>

lemma add_copy_books:
  assumes repo: "repo_inv s" and b: "get_book s isbn = Some b" "is_physical b"
    and fresh: "dget (rp_copies s) cid = None" and c: "cp_book_isbn c = isbn"
    and st: "rp_heap s' = (rp_heap s)(rp_next s := Some c)" "rp_books s' = dset (rp_books s) isbn (add_copy b cid (rp_next s))"
      "rp_copies s' = dset (rp_copies s) cid (rp_next s)"
  shows "books_ok s'"
  unfolding books_ok_def
proof (intro conjI allI impI)
  show "dict_wf (rp_books s')" using repo by (simp add: st repo_inv_def books_ok_def)
  fix j d assume d: "dget (rp_books s') j = Some d"
  define d0 where "d0 = (if j = isbn then b else d)"
  have d0: "dget (rp_books s) j = Some d0" using d b(1) by (auto simp: st get_book_def d0_def split: if_splits)
  have dd: "d = (if j = isbn then add_copy b cid (rp_next s) else d0)" using d by (auto simp: st d0_def split: if_splits)
  have ok0: "bk_isbn d0 = j" "dict_wf (copies_of d0)" and
    mem: "dget (copies_of d0) x = Some r \<longleftrightarrow> is_physical d0 \<and> dget (rp_copies s) x = Some r \<and> map_option cp_book_isbn (rp_heap s r) = Some j" for x r
    using repo d0 unfolding repo_inv_def books_ok_def by blast+
  show "bk_isbn d = j" "dict_wf (copies_of d)" by (cases "j = isbn"; use dd ok0 b(2) in \<open>simp add: d0_def\<close>)+
  fix x r
  show "dget (copies_of d) x = Some r \<longleftrightarrow>
    is_physical d \<and> dget (rp_copies s') x = Some r \<and> map_option cp_book_isbn (rp_heap s' r) = Some j"
  proof (cases "x = cid")
    case True
    then show ?thesis using dd b(2) mem [of cid r] fresh c by (cases "j = isbn") (auto simp: st)
  next
    case False
    have h: "rp_heap s' r = rp_heap s r" if "dget (rp_copies s) x = Some r"
      using repo that unfolding repo_inv_def copies_ok_def by (fastforce simp: st)
    have "dget (copies_of d) x = dget (copies_of d0) x \<and> is_physical d = is_physical d0"
      by (cases "j = isbn"; use False dd b(2) in \<open>simp add: d0_def\<close>)
    moreover have "dget (rp_copies s') x = dget (rp_copies s) x" using False by (simp add: st)
    ultimately show ?thesis using mem [of x r] h by (cases "dget (rp_copies s) x = Some r") simp_all
  qed
qed

lemma add_copy_ledger:
  assumes inv: "ledger_inv s" and ok: "add_physical_copy env s isbn cid br sh price actor = (Inr c, s')" and fresh: "get_copy s cid = None"
  shows "ledger_inv s'" "get_copy s' cid = Some (rp_next s, c)" "i \<noteq> cid \<Longrightarrow> get_copy s' i = get_copy s i"
proof -
  have repo: "repo_inv s" by (rule ledger_repo [OF inv])
  obtain b where b: "get_book s isbn = Some b" "is_physical b" "c = new_copy cid isbn br sh price"
    and st: "rp_heap s' = (rp_heap s)(rp_next s := Some c)" "rp_next s' = Suc (rp_next s)"
    "rp_books s' = dset (rp_books s) isbn (add_copy b cid (rp_next s))" "rp_copies s' = dset (rp_copies s) cid (rp_next s)"
    "rp_users s' = rp_users s"
    by (rule add_copy_ok [OF repo ok])
  let ?r = "rp_next s"
  have ids: "cp_copy_id c = cid" "cp_book_isbn c = isbn" "copy_status c = AVAILABLE" "copy_consistent c"
    using b(3) by (simp_all add: new_copy_def copy_status_def copy_inv_defs)
  have old: "x < ?r \<and> (\<exists>d. rp_heap s x = Some d \<and> cp_copy_id d = i)" if "dget (rp_copies s) i = Some x" for i x
    using repo that unfolding repo_inv_def copies_ok_def by blast
  have free: "dget (rp_copies s) cid = None" using fresh old [of cid] by (auto simp: get_copy_def split: option.splits)
  have cp: "get_copy s' i = (if i = cid then Some (?r, c) else get_copy s i)" for i
    using old [of i] by (auto simp: get_copy_def st split: option.splits)
  show "get_copy s' cid = Some (?r, c)" "i \<noteq> cid \<Longrightarrow> get_copy s' i = get_copy s i" by (simp_all add: cp)
  have us: "get_user s' v = get_user s v" for v by (simp add: get_user_def st)
  have "dict_wf (rp_copies s')" using repo by (simp add: repo_inv_def copies_ok_def st)
  moreover have "x < rp_next s' \<and> (\<exists>d. rp_heap s' x = Some d \<and> cp_copy_id d = i)" if "dget (rp_copies s') i = Some x" for i x
    using that old [of i x] ids by (auto simp: st split: if_splits)
  ultimately have "copies_ok s'" by (simp add: copies_ok_def)
  with add_copy_books [OF repo b(1,2) free ids(2) st(1,3,4)] have "repo_inv s'"
    using repo by (simp add: repo_inv_def users_ok_def st)
  moreover have "holder s' i = holder s i" for i using fresh ids by (auto simp: holder_def cp)
  moreover have "loans s' v = loans s v" for v by (simp add: loans_def us)
  moreover have "copy_consistent d" if "get_copy s' i = Some (x, d)" for i x d
    using that inv ids by (auto simp: cp ledger_inv_def split: if_splits)
  ultimately show "ledger_inv s'" using inv unfolding ledger_inv_def by (simp add: us)
qed

section \<open>The cache of title details is never stale\<close>

lemma cache_get_entries:
  assumes "cache_inv c" "dget (lc_cache (snd (cache_get now c k))) j = Some e"
  shows "dget (lc_cache c) j = Some e"
  using assms by (auto simp: cache_get_def cache_inv_def move_to_end_props split: option.splits if_splits)

lemma cache_set_entries:
  assumes "cache_inv c" "dget (lc_cache (snd (cache_set now c k v ttl))) j = Some e"
  shows "j = k \<and> ce_value e = v \<or> dget (lc_cache c) j = Some e"
proof -
  have "dget rest j = Some e \<Longrightarrow> dget (lc_cache c) j = Some e" if "lc_cache c = p # rest" for p rest
  proof -
    assume r: "dget rest j = Some e"
    then have "j \<in> set (dkeys rest)" by (metis dget_dkeys)
    moreover have "fst p \<notin> set (dkeys rest)" using assms(1) that by (auto simp: cache_inv_def dict_wf_def)
    ultimately show ?thesis using that r by (cases p) auto
  qed
  then show ?thesis using assms(2)
    by (auto simp: cache_set_def Let_def new_cache_entry_def split: if_splits list.splits)
qed

lemma get_or_compute_entries:
  assumes "cache_inv c" "dget (lc_cache (snd (get_or_compute now c k v ttl))) j = Some e"
  shows "j = k \<and> v \<noteq> None \<and> ce_value e = v \<or> dget (lc_cache c) j = Some e"
  using assms cache_get_entries [OF assms(1)] cache_set_entries [OF cache_get_inv [OF assms(1)]]
  by (fastforce simp: get_or_compute_state split: if_splits)

lemma prefix_entries: "dget (foldl dpop d ks) j = Some e \<Longrightarrow> dget d j = Some e"
proof (induction ks arbitrary: d)
  case (Cons k ks)
  have "dget (dpop d k) j = Some e" by (rule Cons.IH) (use Cons.prems in simp)
  then show ?case by (simp split: if_splits)
qed simp

definition details_key :: "string \<Rightarrow> string" where
  "details_key isbn = ''book:'' @ isbn"

definition cache_fresh :: "library \<Rightarrow> bool" where
  "cache_fresh s \<longleftrightarrow> cache_inv (lb_cache s) \<and>
     (\<forall>isbn e. dget (lc_cache (lb_cache s)) (details_key isbn) = Some e \<longrightarrow> (\<exists>d. ce_value e = Some d \<and> load_details s isbn = Some d))"

lemma cache_fresh_details:
  assumes "cache_fresh s"
  shows "fst (get_book_details env s isbn) = Inr (load_details s isbn)" "cache_fresh (snd (get_book_details env s isbn))"
proof -
  let ?now = "of_int (ev_now env) :: py_float" and ?k = "details_key isbn" and ?c = "lb_cache s" and ?v = "load_details s isbn"
  have inv: "cache_inv ?c" and
    fresh: "\<And>isbn e. dget (lc_cache ?c) (details_key isbn) = Some e \<Longrightarrow> (\<exists>d. ce_value e = Some d \<and> load_details s isbn = Some d)"
    using assms unfolding cache_fresh_def by blast+
  have hit: "w = ?v" if "cache_get ?now ?c ?k = (w, c1)" "w \<noteq> None" for w c1
    using that fresh [of isbn] by (auto simp: cache_get_def split: option.splits if_splits)
  have "fst (get_or_compute ?now ?c ?k ?v (Some 600)) = Inr ?v"
  proof -
    obtain w c1 where g: "cache_get ?now ?c ?k = (w, c1)" by fastforce
    have "cache_inv c1" using cache_get_inv [OF inv, of ?now ?k] g by simp
    then have "fst (cache_set ?now c1 ?k x (Some 600)) = Inr ()" for x by (rule cache_set_inv)
    then have "\<exists>c2. cache_set ?now c1 ?k x (Some 600) = (Inr (), c2)" for x by (metis prod.collapse)
    then obtain c2 where "cache_set ?now c1 ?k ?v (Some 600) = (Inr (), c2)" by blast
    then show ?thesis using g hit [OF g] by (cases w; cases ?v) (simp_all add: get_or_compute_def)
  qed
  then show "fst (get_book_details env s isbn) = Inr (load_details s isbn)"
    by (simp add: get_book_details_def details_key_def case_prod_unfold)
  have snd: "snd (get_book_details env s isbn) = s\<lparr>lb_cache := snd (get_or_compute ?now ?c ?k ?v (Some 600))\<rparr>"
    by (simp add: get_book_details_def details_key_def split: prod.splits)
  have load: "load_details (s\<lparr>lb_cache := c\<rparr>) j = load_details s j" for c j by (simp add: load_details_def get_book_def)
  show "cache_fresh (snd (get_book_details env s isbn))"
    unfolding snd cache_fresh_def load
  proof (intro conjI allI impI, goal_cases)
    case 1
    then show ?case using get_or_compute_inv(2) [OF inv] by simp
  qed (use get_or_compute_entries [OF inv] fresh in \<open>fastforce simp: details_key_def\<close>)+
qed

text \<open>A change that touches one title only and drops its entry keeps the cache coherent.\<close>

lemma cache_fresh_drop:
  assumes fresh: "cache_fresh s" and inv: "cache_inv (lb_cache s')"
    and entries: "\<And>j e. dget (lc_cache (lb_cache s')) j = Some e \<Longrightarrow> j \<noteq> details_key isbn \<and> dget (lc_cache (lb_cache s)) j = Some e"
    and same: "\<And>i. i \<noteq> isbn \<Longrightarrow> load_details s' i = load_details s i"
  shows "cache_fresh s'"
  unfolding cache_fresh_def
proof (intro conjI allI impI inv)
  fix i e assume e: "dget (lc_cache (lb_cache s')) (details_key i) = Some e"
  then have "i \<noteq> isbn" and "dget (lc_cache (lb_cache s)) (details_key i) = Some e" using entries by (auto simp: details_key_def)
  then show "\<exists>d. ce_value e = Some d \<and> load_details s' i = Some d"
    using fresh same [of i] unfolding cache_fresh_def by metis
qed

lemma invalidate_entries:
  "dget (lc_cache (snd (cache_invalidate c k))) j = Some e \<Longrightarrow> j \<noteq> k \<and> dget (lc_cache c) j = Some e"
  by (auto simp: cache_invalidate_def split: if_splits)

lemma invalidate_inv: "cache_inv c \<Longrightarrow> cache_inv (snd (cache_invalidate c k))" "cache_inv c \<Longrightarrow> cache_inv (snd (cache_invalidate_prefix c p))"
  using cache_step_inv [of c "(0, CInvalidate k)"] cache_step_inv [of c "(0, CPrefix p)"] by simp_all

lemma map_filter_cong: "(\<And>x. x \<in> set xs \<Longrightarrow> f x = g x) \<Longrightarrow> List.map_filter f xs = List.map_filter g xs"
proof (induction xs)
  case (Cons x xs)
  then have "f x = g x" "List.map_filter f xs = List.map_filter g xs" by auto
  then show ?case by (simp only: map_filter_simps)
qed (simp add: map_filter_simps)

lemma book_to_dict_frame:
  assumes "\<And>r. r \<in> set (dvalues (copies_of b)) \<Longrightarrow> h' r = h r"
  shows "book_to_dict h' b = book_to_dict h b"
proof -
  have "heap_copies h' (copies_of b) = heap_copies h (copies_of b)"
    unfolding heap_copies_def using assms by (intro map_filter_cong) blast
  then show ?thesis
    by (cases "bk_details b") (simp_all add: book_to_dict_def base_to_dict_def get_available_copies_def is_available_def copies_of_def)
qed

text \<open>Writing one registered copy changes the details of its own title only.\<close>

lemma load_details_heap:
  assumes "repo_inv s" "get_copy s cid = Some (r, c)" "rp_heap s' = (rp_heap s)(r := x)" "rp_books s' = rp_books s" "i \<noteq> cp_book_isbn c"
  shows "load_details s' i = load_details s i"
proof (cases "get_book s i")
  case (Some b)
  then have b: "dget (rp_books s) i = Some b" by (simp add: get_book_def)
  have r: "rp_heap s r = Some c" using assms(2) by (simp add: get_copy_Some)
  have "y \<noteq> r" if y: "y \<in> set (dvalues (copies_of b))" for y
  proof -
    have "dict_wf (copies_of b)" using assms(1) b unfolding repo_inv_def books_ok_def by blast
    then obtain k where "dget (copies_of b) k = Some y" using y in_dvalues by metis
    then have "map_option cp_book_isbn (rp_heap s y) = Some i" using assms(1) b unfolding repo_inv_def books_ok_def by blast
    then show ?thesis using r assms(5) by auto
  qed
  then have "book_to_dict (rp_heap s') b = book_to_dict (rp_heap s) b" using assms(3) by (intro book_to_dict_frame) auto
  then show ?thesis using b assms(4) by (simp add: load_details_def get_book_def)
qed (use assms(4) in \<open>simp add: load_details_def get_book_def\<close>)

datatype catalog_op =
    IssueCopy string string string int
  | ReturnCopy string string bool bool
  | AddCopy string string string string py_float string
  | RegisterBook string string book_kwargs
  | ReadDetails string

fun catalog_step :: "library \<Rightarrow> call_env \<times> catalog_op \<Rightarrow> library" where
  "catalog_step s (env, IssueCopy cid uid actor days) = snd (issue_physical_book env s cid uid actor days)"
| "catalog_step s (env, ReturnCopy cid actor late dam) = snd (return_physical_book env s cid actor late dam)"
| "catalog_step s (env, AddCopy isbn cid br sh price actor) = snd (add_physical_copy env s isbn cid br sh price actor)"
| "catalog_step s (env, RegisterBook ft actor kw) = snd (register_book env s ft actor kw)"
| "catalog_step s (env, ReadDetails isbn) = snd (get_book_details env s isbn)"

text \<open>The library's own convention for new material: an identifier that is not in use.\<close>

fun new_material :: "library \<Rightarrow> catalog_op \<Rightarrow> bool" where
  "new_material s (AddCopy isbn cid br sh price actor) \<longleftrightarrow> get_copy s cid = None"
| "new_material s (RegisterBook ft actor kw) \<longleftrightarrow>
     (\<forall>cid r c. get_copy s cid = Some (r, c) \<longrightarrow> kw_isbn kw \<noteq> Some (cp_book_isbn c))"
| "new_material s _ \<longleftrightarrow> True"

fun catalog_run :: "library \<Rightarrow> (call_env \<times> catalog_op) list \<Rightarrow> bool \<times> library" where
  "catalog_run s [] = (True, s)"
| "catalog_run s (x # xs) = (case catalog_run (catalog_step s x) xs of (ok, s') \<Rightarrow> (new_material s (snd x) \<and> ok, s'))"

definition catalog_inv :: "library \<Rightarrow> bool" where
  "catalog_inv s \<longleftrightarrow> no_locks s \<and> ledger_inv s \<and> cache_fresh s"

lemma catalog_inv_locks: "catalog_inv s \<Longrightarrow> no_locks (s\<lparr>rp_locks := l\<rparr>) \<Longrightarrow> catalog_inv (s\<lparr>rp_locks := l\<rparr>)"
  by (simp add: catalog_inv_def cache_fresh_def load_details_def get_book_def)

lemma issue_catalog: "catalog_inv s \<Longrightarrow> catalog_inv (snd (issue_physical_book env s cid uid actor days))"
proof -
  assume inv: "catalog_inv s"
  then have i: "no_locks s" "ledger_inv s" "repo_inv s" "cache_fresh s" by (auto simp: catalog_inv_def dest: ledger_repo)
  obtain x s' where run: "issue_physical_book env s cid uid actor days = (x, s')" by fastforce
  show ?thesis
  proof (cases x)
    case (Inl e)
    with issue_raise [OF i(1)] run inv show ?thesis by (metis catalog_inv_locks snd_conv)
  next
    case (Inr tx)
    show ?thesis
    proof (rule issue_ok [OF i(1,3) run [unfolded Inr]], goal_cases)
      case (1 r c u)
      have gc: "get_copy s cid = Some (r, c)" using 1(1) by (simp add: issue_guard_def)
      have "cache_fresh s'"
      proof (rule cache_fresh_drop [OF i(4), where isbn = "cp_book_isbn c"])
        show "cache_inv (lb_cache s')" unfolding 1(15) using i(4) by (intro invalidate_inv) (simp add: cache_fresh_def)
        show "load_details s' j = load_details s j" if "j \<noteq> cp_book_isbn c" for j by (rule load_details_heap [OF i(3) gc 1(3,6) that])
      qed (use 1(15) invalidate_entries in \<open>auto simp: details_key_def\<close>)
      then show ?thesis using run 1 i by (simp add: catalog_inv_def)
    qed
  qed
qed

lemma return_catalog: "catalog_inv s \<Longrightarrow> catalog_inv (snd (return_physical_book env s cid actor late dam))"
proof -
  assume inv: "catalog_inv s"
  then have i: "no_locks s" "ledger_inv s" "repo_inv s" "cache_fresh s" by (auto simp: catalog_inv_def dest: ledger_repo)
  obtain x s' where run: "return_physical_book env s cid actor late dam = (x, s')" by fastforce
  show ?thesis
  proof (cases x)
    case (Inl e)
    with return_raise [OF i(1,2)] run inv show ?thesis by (metis catalog_inv_locks snd_conv)
  next
    case (Inr out)
    show ?thesis
    proof (rule return_ok [OF i(1,2) run [unfolded Inr]], goal_cases)
      case (1 r c b u assigned)
      have "cache_fresh s'"
      proof (rule cache_fresh_drop [OF i(4), where isbn = "cp_book_isbn c"])
        show "cache_inv (lb_cache s')" unfolding 1(19) using i(4) by (intro invalidate_inv) (simp add: cache_fresh_def)
        show "load_details s' j = load_details s j" if "j \<noteq> cp_book_isbn c" for j by (rule load_details_heap [OF i(3) 1(1,7,10) that])
      qed (use 1(19) invalidate_entries in \<open>auto simp: details_key_def\<close>)
      then show ?thesis using run 1 by (simp add: catalog_inv_def)
    qed
  qed
qed

lemma add_copy_catalog:
  assumes inv: "catalog_inv s" and fresh: "get_copy s cid = None"
  shows "catalog_inv (snd (add_physical_copy env s isbn cid br sh price actor))"
proof -
  have i: "no_locks s" "ledger_inv s" "repo_inv s" "cache_fresh s" using inv by (auto simp: catalog_inv_def dest: ledger_repo)
  obtain x s' where run: "add_physical_copy env s isbn cid br sh price actor = (x, s')" by fastforce
  show ?thesis
  proof (cases x)
    case (Inl e)
    then have "s' = s" using run by (auto simp: add_physical_copy_def Let_def split: option.splits if_splits)
    then show ?thesis using run inv by simp
  next
    case (Inr c)
    show ?thesis
    proof (rule add_copy_ok [OF i(3) run [unfolded Inr]], goal_cases)
      case (1 b)
      have same: "load_details s' j = load_details s j" if j: "j \<noteq> isbn" for j
      proof (cases "get_book s j")
        case (Some d)
        then have d: "dget (rp_books s) j = Some d" by (simp add: get_book_def)
        have "r \<noteq> rp_next s" if r: "r \<in> set (dvalues (copies_of d))" for r
        proof -
          have "dict_wf (copies_of d)" using i(3) d unfolding repo_inv_def books_ok_def by blast
          then obtain k where "dget (copies_of d) k = Some r" using r in_dvalues by metis
          then have "dget (rp_copies s) k = Some r" using i(3) d unfolding repo_inv_def books_ok_def by blast
          then have "r < rp_next s" using i(3) unfolding repo_inv_def copies_ok_def by blast
          then show ?thesis by simp
        qed
        then have "book_to_dict (rp_heap s') d = book_to_dict (rp_heap s) d" using 1(4) by (intro book_to_dict_frame) auto
        then show ?thesis using d 1(6) j by (simp add: load_details_def get_book_def)
      qed (use 1(6) j in \<open>simp add: load_details_def get_book_def\<close>)
      have "cache_fresh s'"
      proof (rule cache_fresh_drop [OF i(4) _ _ same])
        show "cache_inv (lb_cache s')" unfolding 1(12) using i(4) by (intro invalidate_inv) (simp add: cache_fresh_def)
      qed (use 1(12) invalidate_entries in \<open>auto simp: details_key_def\<close>)
      moreover have "ledger_inv s'" by (rule add_copy_ledger [OF i(2) run [unfolded Inr] fresh])
      ultimately show ?thesis using run 1(9) i(1) by (simp add: catalog_inv_def no_locks_def)
    qed
  qed
qed

lemma register_catalog:
  assumes inv: "catalog_inv s" and fresh: "\<forall>cid r c. get_copy s cid = Some (r, c) \<longrightarrow> kw_isbn kw \<noteq> Some (cp_book_isbn c)"
  shows "catalog_inv (snd (register_book env s ft actor kw))"
proof -
  have i: "no_locks s" "ledger_inv s" "repo_inv s" "cache_fresh s" using inv by (auto simp: catalog_inv_def dest: ledger_repo)
  obtain x s' where run: "register_book env s ft actor kw = (x, s')" by fastforce
  show ?thesis
  proof (cases x)
    case (Inl e)
    then have "s' = s" using run by (auto simp: register_book_def Let_def split: sum.splits)
    then show ?thesis using run inv by simp
  next
    case (Inr b)
    note st = register_ok [OF run [unfolded Inr]]
    have id: "kw_isbn kw = Some (bk_isbn b)" by (rule create_book_ok [OF st(1)]) simp
    let ?c1 = "snd (cache_invalidate_prefix (lb_cache s) ''search:'')"
    have e1: "dget (lc_cache ?c1) j = Some e \<Longrightarrow> dget (lc_cache (lb_cache s)) j = Some e" for j e
      by (auto simp: cache_invalidate_prefix_def Let_def intro: prefix_entries)
    have "cache_fresh s'"
    proof (rule cache_fresh_drop [OF i(4), where isbn = "bk_isbn b"])
      show "cache_inv (lb_cache s')" unfolding st(10) using i(4) by (intro invalidate_inv) (simp add: cache_fresh_def)
      show "load_details s' j = load_details s j" if "j \<noteq> bk_isbn b" for j using that by (simp add: load_details_def get_book_def st)
      show "j \<noteq> details_key (bk_isbn b) \<and> dget (lc_cache (lb_cache s)) j = Some e" if "dget (lc_cache (lb_cache s')) j = Some e" for j e
        using that invalidate_entries [of ?c1 "''book:'' @ bk_isbn b" j e] e1 unfolding st(10) details_key_def by blast
    qed
    moreover have "ledger_inv s'" using fresh id by (intro register_ledger [OF i(2) run [unfolded Inr]]) (metis (no_types))
    ultimately show ?thesis using run st(7) i(1) by (simp add: catalog_inv_def no_locks_def)
  qed
qed

lemma details_catalog: "catalog_inv s \<Longrightarrow> catalog_inv (snd (get_book_details env s isbn))"
proof -
  assume inv: "catalog_inv s"
  have "same_repo s (snd (get_book_details env s isbn))" "rp_locks (snd (get_book_details env s isbn)) = rp_locks s"
    by (simp_all add: get_book_details_def same_repo_def split: prod.splits)
  then show ?thesis using inv cache_fresh_details(2) same_repo_ledger by (auto simp: catalog_inv_def no_locks_def)
qed

lemma catalog_step_inv: "catalog_inv s \<Longrightarrow> new_material s (snd x) \<Longrightarrow> catalog_inv (catalog_step s x)"
  by (induction s x rule: catalog_step.induct)
     (simp_all add: issue_catalog return_catalog add_copy_catalog register_catalog details_catalog)

lemma catalog_run_inv: "catalog_inv s \<Longrightarrow> catalog_run s xs = (True, s') \<Longrightarrow> catalog_inv s'"
proof (induction xs arbitrary: s)
  case (Cons x xs)
  then have "new_material s (snd x)" "catalog_run (catalog_step s x) xs = (True, s')" by (auto split: prod.splits)
  then show ?case using Cons.IH [OF catalog_step_inv [OF Cons.prems(1)]] by simp
qed simp


lemma demo_catalog: "catalog_inv demo_library"
  using demo_locks demo_ledger by (simp add: catalog_inv_def cache_fresh_def demo_library_def build_in_memory_container_def cache_inv_new, simp add: new_lru_def)


text \<open>
  A search never shows more than twenty titles. The route accepts a page size of up to 100 and any offset
  and reports the total number of results, but the service asks the index for its default of twenty: the
  reported total never exceeds twenty, and every page from offset twenty on is empty, however many titles match.
\<close>

theorem search_capped_at_twenty:
  "fst (search_page math_log set_order s q f limit offset) \<le> 20 \<and>
   (20 \<le> offset \<longrightarrow> snd (search_page math_log set_order s q f limit offset) = []) \<and>
   length (snd (search_page math_log set_order s q f limit offset)) \<le> limit"
proof -
  have "length (search math_log set_order (rp_heap s) (get_book s) (lb_index s) q f 20) \<le> 20"
    by (simp add: search_def Let_def py_take_def)
  then show ?thesis by (auto simp: search_page_def search_books_def Let_def)
qed

theorem search_capped_at_twenty_witness:
  "snd (search_page (\<lambda>x. x) (\<lambda>_. []) demo_library ''T'' \<lparr>sf_category = None, sf_author = None, sf_min_rating = None, sf_only_available = False\<rparr> 50 20) = []"
  using search_capped_at_twenty [of "\<lambda>x. x" "\<lambda>_. []" demo_library "''T''" "\<lparr>sf_category = None, sf_author = None, sf_min_rating = None, sf_only_available = False\<rparr>" 50 20]
  by simp

text \<open>
  Adding a copy under an identifier in use hands an issued copy out again. The new object replaces the old
  one in the repository, so the copy is available although a user still has it on loan: the ledger of the
  library no longer balances.
\<close>

theorem duplicate_copy_id_frees_loan:
  assumes "ledger_inv s" "holder s cid = Some u" "add_physical_copy env s isbn cid br sh price actor = (Inr c, s')"
  shows "holder s' cid = None \<and> cid \<in> loans s' u \<and> \<not> ledger_inv s' \<and> (\<exists>r. get_copy s' cid = Some (r, c) \<and> copy_status c = AVAILABLE)"
proof (rule add_copy_ok [OF ledger_repo [OF assms(1)] assms(3)], goal_cases)
  case (1 b)
  have c: "get_copy s' cid = Some (rp_next s, c)" by (simp add: get_copy_def 1)
  have st: "copy_status c = AVAILABLE" by (simp add: 1(3))
  have h: "holder s' cid = None" by (simp add: holder_def c st)
  have l: "cid \<in> loans s' u" using assms(1,2) by (simp add: ledger_inv_def loans_def get_user_def 1(8))
  then have "\<not> ledger_inv s'" using h unfolding ledger_inv_def by (metis option.distinct(1))
  then show ?thesis using h l c st by blast
qed

theorem duplicate_copy_id_frees_loan_witness:
  "\<exists>s c s'. holder s ''C1'' = Some ''U1'' \<and> add_physical_copy demo_env s ''I1'' ''C1'' ''B2'' ''A2'' 500 ''LIB'' = (Inr c, s') \<and>
     holder s' ''C1'' = None \<and> ''C1'' \<in> loans s' ''U1''"
proof (rule demo_issue)
  fix tx s1 assume run: "issue_physical_book demo_env demo_library ''C1'' ''U1'' ''LIB'' 14 = (Inr tx, s1)"
  note no_double = issue_ok [OF demo_locks demo_repo run]
  have led: "ledger_inv s1" and h: "holder s1 ''C1'' = Some ''U1''" and b: "get_book s1 ''I1'' = Some (demo_book [0])"
  proof -
    show "ledger_inv s1" by (rule no_double) (use demo_ledger in blast)
    show "get_book s1 ''I1'' = Some (demo_book [0])" by (rule no_double) (simp add: get_book_def)
    show "holder s1 ''C1'' = Some ''U1''"
    proof (rule no_double, goal_cases)
      case (1 r c u)
      have "get_copy s1 ''C1'' = Some (0, issued_copy c ''U1'')" using 1 by (simp add: get_copy_def issue_guard_def)
      then show ?case by (simp add: holder_def issued_copy_def)
    qed
  qed
  obtain c s' where add: "add_physical_copy demo_env s1 ''I1'' ''C1'' ''B2'' ''A2'' 500 ''LIB'' = (Inr c, s')"
    using b by (simp add: add_physical_copy_def Let_def demo_book_def)
  from duplicate_copy_id_frees_loan [OF led h add] h add show ?thesis by blast
qed

end
