(* ===== verification/Access_Control.thy ===== *)
theory Access_Control
  imports Factory Repository
begin

text \<open>
  Authentication and authorisation: \<^verbatim>\<open>libflow/api/auth.py\<close>, the routes of
  \<^verbatim>\<open>libflow/api/routers/auth.py\<close>, the secret of \<^verbatim>\<open>libflow/config.py\<close> and the error mapping of
  \<^verbatim>\<open>libflow/api/app.py\<close>. The JWT library is the record \<open>jwt_lib\<close>: signing and verifying under a key. Its
  documented laws are the locale \<open>jwt_spec\<close>. The claims of a token are a record whose fields are optional,
  since a verified token may lack them.
\<close>

section \<open>Configuration\<close>

record app_config =
  cf_environment :: string
  cf_secret_key :: "string option"

definition dev_only_secret :: string where
  "dev_only_secret = ''libraflow-dev-only-secret-change-me''"

definition config_environment :: "app_config \<Rightarrow> string" where
  "config_environment cf = py_lower (py_strip (cf_environment cf))"

definition get_secret_key :: "app_config \<Rightarrow> exn + string" where
  "get_secret_key cf =
     (let key = py_strip (case cf_secret_key cf of None \<Rightarrow> [] | Some k \<Rightarrow> k)
      in if key \<noteq> [] then Inr key
         else if config_environment cf = ''production''
         then Inl (RuntimeError ''LIBRAFLOW_SECRET_KEY is not set. Refusing to start in production with an insecure default secret.'')
         else Inr dev_only_secret)"

definition is_development :: "app_config \<Rightarrow> bool" where
  "is_development cf \<longleftrightarrow> config_environment cf \<in> {''development'', ''dev'', ''test''}"

section \<open>Tokens\<close>

record claims =
  cl_sub :: "string option"
  cl_name :: "string option"
  cl_role :: "string option"
  cl_permissions :: "string list option"
  cl_iat :: "int option"
  cl_exp :: "int option"

datatype jwt_error = ExpiredSignatureError | InvalidTokenError string

record jwt_lib =
  jw_encode :: "claims \<Rightarrow> string \<Rightarrow> string"
  jw_decode :: "int \<Rightarrow> string \<Rightarrow> string \<Rightarrow> jwt_error + claims"

definition token_payload :: "int \<Rightarrow> int \<Rightarrow> user \<Rightarrow> int \<Rightarrow> claims" where
  "token_payload iat_time exp_time u expires_delta_seconds =
     \<lparr>cl_sub = Some (us_user_id u), cl_name = Some (us_name u), cl_role = Some (role_value (get_role u)),
      cl_permissions = Some (get_permissions u), cl_iat = Some iat_time, cl_exp = Some (exp_time + expires_delta_seconds)\<rparr>"

definition create_access_token :: "jwt_lib \<Rightarrow> app_config \<Rightarrow> int \<Rightarrow> int \<Rightarrow> user \<Rightarrow> int \<Rightarrow> exn + string" where
  "create_access_token jw cf iat_time exp_time u expires_delta_seconds =
     (case get_secret_key cf of
        Inl e \<Rightarrow> Inl e
      | Inr key \<Rightarrow> Inr (jw_encode jw (token_payload iat_time exp_time u expires_delta_seconds) key))"

definition decode_access_token :: "jwt_lib \<Rightarrow> app_config \<Rightarrow> int \<Rightarrow> string \<Rightarrow> exn + claims" where
  "decode_access_token jw cf now token =
     (case get_secret_key cf of
        Inl e \<Rightarrow> Inl e
      | Inr key \<Rightarrow>
          (case jw_decode jw now token key of
             Inr cl \<Rightarrow> Inr cl
           | Inl ExpiredSignatureError \<Rightarrow> Inl (HTTPException 401 ''Token has expired.'')
           | Inl (InvalidTokenError m) \<Rightarrow> Inl (HTTPException 401 (''Invalid token: '' @ m))))"

definition get_current_user_claims :: "jwt_lib \<Rightarrow> app_config \<Rightarrow> int \<Rightarrow> string option \<Rightarrow> exn + claims" where
  "get_current_user_claims jw cf now credentials =
     (case credentials of
        None \<Rightarrow> Inl (HTTPException 401 ''Not authenticated. Please provide a Bearer token.'')
      | Some token \<Rightarrow> decode_access_token jw cf now token)"

definition role_denied :: "string \<Rightarrow> string \<Rightarrow> exn" where
  "role_denied user_role allowed =
     HTTPException 403 (''Operation not permitted for role '' @ quoted user_role @ ''. Requires one of '' @ allowed @ ''.'')"

text \<open>The text of the list of roles in the message, \<open>str(list)\<close>, is an argument.\<close>

definition require_role :: "(string list \<Rightarrow> string) \<Rightarrow> string list \<Rightarrow> exn + claims \<Rightarrow> exn + claims" where
  "require_role show_list allowed_roles caller =
     (case caller of
        Inl e \<Rightarrow> Inl e
      | Inr cl \<Rightarrow>
          let user_role = (case cl_role cl of None \<Rightarrow> [] | Some r \<Rightarrow> r)
          in if user_role \<notin> set allowed_roles \<and> user_role \<noteq> role_value ADMIN
             then Inl (role_denied user_role (show_list allowed_roles)) else Inr cl)"

definition require_permission :: "string \<Rightarrow> exn + claims \<Rightarrow> exn + claims" where
  "require_permission permission caller =
     (case caller of
        Inl e \<Rightarrow> Inl e
      | Inr cl \<Rightarrow>
          let permissions = (case cl_permissions cl of None \<Rightarrow> [] | Some ps \<Rightarrow> ps)
          in if permission \<notin> set permissions \<and> ''ALL'' \<notin> set permissions
             then Inl (HTTPException 403 (''Missing required permission: '' @ quoted permission @ ''.'')) else Inr cl)"

section \<open>The authentication routes\<close>

record user_request =
  urq_user_id :: string
  urq_name :: string
  urq_email :: string
  urq_password :: string
  urq_role :: string
  urq_academic_year :: "int option"
  urq_major :: "string option"
  urq_branch_id :: "string option"

definition kwargs_of_user_request :: "user_request \<Rightarrow> user_kwargs" where
  "kwargs_of_user_request req = no_user_kwargs\<lparr>uk_user_id := Some (urq_user_id req), uk_name := Some (urq_name req),
     uk_email := Some (urq_email req), uk_password := Some (urq_password req), uk_academic_year := Some (or_int (urq_academic_year req) 1),
     uk_major := Some (or_str (urq_major req) ''Computer Science''), uk_branch_id := Some (or_str (urq_branch_id req) ''BRANCH-DELHI'')\<rparr>"

definition register_user :: "user_env \<Rightarrow> 'm repo_scheme \<Rightarrow> user_request \<Rightarrow> (exn + user) \<times> 'm repo_scheme" where
  "register_user env s req =
     (if user_exists s (urq_user_id req) then (Inl (DuplicateUserError (urq_user_id req)), s)
      else case create_user env (urq_role req) (kwargs_of_user_request req) of
             Inl e \<Rightarrow> (Inl e, s)
           | Inr u \<Rightarrow> (Inr u, save_user s u))"

record token_response =
  tr_access_token :: string
  tr_token_type :: string
  tr_user_id :: string
  tr_role :: string
  tr_name :: string

definition default_expiry :: int where
  "default_expiry = 3600"

definition login_user ::
  "user_env \<Rightarrow> jwt_lib \<Rightarrow> app_config \<Rightarrow> int \<Rightarrow> int \<Rightarrow> 'm repo_scheme \<Rightarrow> string \<Rightarrow> string \<Rightarrow> exn + token_response" where
  "login_user env jw cf iat_time exp_time s user_id password =
     (case get_user s user_id of
        None \<Rightarrow> Inl (UserNotFoundError user_id)
      | Some u \<Rightarrow>
          if \<not> verify_password env password (us_password_hash u) then Inl (HTTPException 401 ''Invalid credentials.'')
          else case create_access_token jw cf iat_time exp_time u default_expiry of
                 Inl e \<Rightarrow> Inl e
               | Inr token \<Rightarrow> Inr \<lparr>tr_access_token = token, tr_token_type = ''bearer'', tr_user_id = us_user_id u,
                                 tr_role = role_value (get_role u), tr_name = us_name u\<rparr>)"

definition get_current_profile :: "'m repo_scheme \<Rightarrow> exn + claims \<Rightarrow> exn + (claims + (string, json) dict)" where
  "get_current_profile s caller =
     (case caller of
        Inl e \<Rightarrow> Inl e
      | Inr cl \<Rightarrow>
          (case get_user s (case cl_sub cl of None \<Rightarrow> [] | Some i \<Rightarrow> i) of
             None \<Rightarrow> Inr (Inl cl)
           | Some u \<Rightarrow> Inr (Inr (user_to_dict u))))"

section \<open>Errors as responses\<close>

text \<open>
  The handler of the most specific registered class answers; an exception that no handler covers is an
  internal error.
\<close>

fun http_status :: "exn \<Rightarrow> nat" where
  "http_status (BookNotFoundError _) = 404"
| "http_status (UserNotFoundError _) = 404"
| "http_status (CopyNotFoundError _) = 404"
| "http_status (BranchNotFoundError _) = 404"
| "http_status (DuplicateUserError _) = 409"
| "http_status (InvalidStateTransitionError _) = 409"
| "http_status (CopyUnavailableError _ _) = 409"
| "http_status (UserNotEligibleError _ _) = 409"
| "http_status (OptimisticLockConflictError _ _ _) = 409"
| "http_status (PermissionDeniedError _ _) = 403"
| "http_status (InsufficientInputError _) = 400"
| "http_status (TransferError _) = 400"
| "http_status (ValueError _) = 400"
| "http_status (HTTPException code _) = code"
| "http_status (KeyError _) = 500"
| "http_status (TimeoutError _) = 500"
| "http_status (AttributeError _) = 500"
| "http_status (CircuitBreakerOpenError _) = 500"
| "http_status (RedisError _) = 500"
| "http_status (RuntimeError _) = 500"

section \<open>The laws of the token library\<close>

text \<open>
  Verifying a token that was signed under the same key returns its claims while the token is valid, and
  reports the expiry from then on.
\<close>

definition jwt_laws :: "jwt_lib \<Rightarrow> bool" where
  "jwt_laws jw \<longleftrightarrow> (\<forall>c i e now k. cl_iat c = Some i \<longrightarrow> cl_exp c = Some e \<longrightarrow> i \<le> now \<longrightarrow>
     jw_decode jw now (jw_encode jw c k) k = (if now < e then Inr c else Inl ExpiredSignatureError))"

definition passlib_laws :: "user_env \<Rightarrow> bool" where
  "passlib_laws env \<longleftrightarrow> (\<forall>p. ue_hash env p \<noteq> [] \<and> ue_verify env p (ue_hash env p))"

lemma token_lifetime:
  assumes "jwt_laws jw" "create_access_token jw cf t t u d = Inr token" "t \<le> now"
  shows "get_current_user_claims jw cf now (Some token) =
    (if now < t + d then Inr (token_payload t t u d) else Inl (HTTPException 401 ''Token has expired.''))"
proof -
  obtain key where k: "get_secret_key cf = Inr key" "token = jw_encode jw (token_payload t t u d) key"
    using assms(2) by (auto simp: create_access_token_def split: sum.splits)
  have "jw_decode jw now token key = (if now < t + d then Inr (token_payload t t u d) else Inl ExpiredSignatureError)"
    using assms(1,3) unfolding jwt_laws_def k(2) by (simp add: token_payload_def)
  then show ?thesis using k(1) by (simp add: get_current_user_claims_def decode_access_token_def)
qed

lemma login_ok:
  assumes "login_user env jw cf t t s uid pw = Inr r"
  obtains u where "get_user s uid = Some u" "verify_password env pw (us_password_hash u)"
    "create_access_token jw cf t t u 3600 = Inr (tr_access_token r)" "tr_role r = role_value (get_role u)"
proof -
  obtain u where "get_user s uid = Some u" using assms by (auto simp: login_user_def split: option.splits)
  with assms show ?thesis by (intro that [of u]) (auto simp: login_user_def default_expiry_def split: if_splits sum.splits)
qed

lemma require_permission_payload:
  "require_permission p (Inr (token_payload i e u d)) =
     (if has_permission u p then Inr (token_payload i e u d)
      else Inl (HTTPException 403 (''Missing required permission: '' @ quoted p @ ''.'')))"
  by (simp add: require_permission_def token_payload_def has_permission_def Let_def)

text \<open>
  C14: a token carries the rights of its user's role, for one hour. A login succeeds only with the password of
  a registered user; the token it returns passes the check of a route exactly when the role of that user
  holds the permission of the route, is refused with 403 otherwise, and is refused with 401 from the moment
  it expires. A request without a token is always refused with 401.
\<close>

theorem token_grants_role_permissions:
  assumes "jwt_laws jw" "login_user env jw cf t t s uid pw = Inr r" "t \<le> now"
  shows "\<exists>u. get_user s uid = Some u \<and> verify_password env pw (us_password_hash u) \<and>
    require_permission p (get_current_user_claims jw cf now (Some (tr_access_token r))) =
      (if t + 3600 \<le> now then Inl (HTTPException 401 ''Token has expired.'')
       else if has_permission u p then Inr (token_payload t t u 3600)
       else Inl (HTTPException 403 (''Missing required permission: '' @ quoted p @ ''.''))) \<and>
    (\<exists>m. require_permission p (get_current_user_claims jw cf now None) = Inl (HTTPException 401 m))"
proof (rule login_ok [OF assms(2)])
  fix u assume u: "get_user s uid = Some u" "verify_password env pw (us_password_hash u)" "create_access_token jw cf t t u 3600 = Inr (tr_access_token r)"
  have "require_permission p (get_current_user_claims jw cf now (Some (tr_access_token r))) =
      (if t + 3600 \<le> now then Inl (HTTPException 401 ''Token has expired.'')
       else if has_permission u p then Inr (token_payload t t u 3600)
       else Inl (HTTPException 403 (''Missing required permission: '' @ quoted p @ ''.'')))"
    using token_lifetime [OF assms(1) u(3) assms(3)] require_permission_payload [of p t t u 3600]
    by (cases "now < t + 3600") (simp_all add: require_permission_def)
  then show ?thesis using u by (auto simp: require_permission_def get_current_user_claims_def)
qed

text \<open>
  Anybody can become an administrator. Registration needs no token and takes the role from the request:
  with any identifier that is free, the caller gets an account whose token passes the check of every route.
\<close>

theorem open_registration_grants_admin:
  assumes "jwt_laws jw" "passlib_laws env" "\<not> user_exists s (urq_user_id req)" "py_upper (urq_role req) = ''ADMIN''"
    "get_secret_key cf = Inr key" "t \<le> now" "now < t + 3600"
  shows "\<exists>u s' r. register_user env s req = (Inr u, s') \<and> login_user env jw cf t t s' (urq_user_id req) (urq_password req) = Inr r \<and>
    (\<forall>p. is_ok (require_permission p (get_current_user_claims jw cf now (Some (tr_access_token r)))))"
proof -
  have kw: "uk_user_id (kwargs_of_user_request req) = Some (urq_user_id req)" "uk_password (kwargs_of_user_request req) = Some (urq_password req)"
    by (simp_all add: kwargs_of_user_request_def)
  have role: "user_role_of (py_upper (urq_role req)) = Some ADMIN" unfolding assms(4) by code_simp
  obtain u where u: "create_user env (urq_role req) (kwargs_of_user_request req) = Inr u"
    by (simp add: create_user_def role kwargs_of_user_request_def Let_def)
  have pl: "ue_verify env x (ue_hash env x)" "ue_hash env x \<noteq> []" for x using assms(2) by (auto simp: passlib_laws_def)
  have "us_user_id u = urq_user_id req \<and> get_role u = ADMIN \<and> verify_password env (urq_password req) (us_password_hash u)"
    by (rule create_user_ok [OF u]) (use kw role pl in \<open>simp add: verify_password_def hash_password_def\<close>)
  then have f: "us_user_id u = urq_user_id req" "get_role u = ADMIN" "verify_password env (urq_password req) (us_password_hash u)" by auto
  let ?s = "save_user s u"
  have reg: "register_user env s req = (Inr u, ?s)" using assms(3) u by (simp add: register_user_def)
  have gu: "get_user ?s (urq_user_id req) = Some u" using f(1) by (simp add: get_user_save_user)
  obtain token where tok: "create_access_token jw cf t t u 3600 = Inr token" using assms(5) by (simp add: create_access_token_def)
  then obtain r where r: "login_user env jw cf t t ?s (urq_user_id req) (urq_password req) = Inr r" "tr_access_token r = token"
    using gu f by (simp add: login_user_def default_expiry_def)
  have "is_ok (require_permission p (get_current_user_claims jw cf now (Some token)))" for p
    using token_lifetime [OF assms(1) tok assms(6)] assms(7) f(2) require_permission_payload [of p t t u 3600]
    by (simp add: has_permission_def get_permissions_def)
  then show ?thesis using reg r by blast
qed

section \<open>A token library for the witnesses\<close>

text \<open>Tokens that carry the key and the claims in a length-prefixed encoding.\<close>

type_synonym 'a reader = "string \<Rightarrow> 'a \<times> string"

definition reads :: "('a \<Rightarrow> string) \<Rightarrow> 'a reader \<Rightarrow> bool" where
  "reads w rd \<longleftrightarrow> (\<forall>x rest. rd (w x @ rest) = (x, rest))"

definition write_nat :: "nat \<Rightarrow> string" where
  "write_nat n = replicate n (CHR ''a'') @ ''b''"

definition read_nat :: "nat reader" where
  "read_nat t = (length (takeWhile ((=) (CHR ''a'')) t), tl (dropWhile ((=) (CHR ''a'')) t))"

definition write_str :: "string \<Rightarrow> string" where
  "write_str x = write_nat (length x) @ x"

definition read_str :: "string reader" where
  "read_str t = (case read_nat t of (n, r) \<Rightarrow> (take n r, drop n r))"

definition write_int :: "int \<Rightarrow> string" where
  "write_int i = write_nat (nat i) @ write_nat (nat (- i))"

definition read_int :: "int reader" where
  "read_int t = (case read_nat t of (a, r) \<Rightarrow> case read_nat r of (b, r) \<Rightarrow> (int a - int b, r))"

fun read_many :: "'a reader \<Rightarrow> nat \<Rightarrow> 'a list reader" where
  "read_many rd 0 t = ([], t)"
| "read_many rd (Suc n) t = (case rd t of (x, r) \<Rightarrow> case read_many rd n r of (xs, r) \<Rightarrow> (x # xs, r))"

definition write_list :: "('a \<Rightarrow> string) \<Rightarrow> 'a list \<Rightarrow> string" where
  "write_list w xs = write_nat (length xs) @ concat (map w xs)"

definition read_list :: "'a reader \<Rightarrow> 'a list reader" where
  "read_list rd t = (case read_nat t of (n, r) \<Rightarrow> read_many rd n r)"

definition write_opt :: "('a \<Rightarrow> string) \<Rightarrow> 'a option \<Rightarrow> string" where
  "write_opt w x = (case x of None \<Rightarrow> ''n'' | Some v \<Rightarrow> CHR ''s'' # w v)"

definition read_opt :: "'a reader \<Rightarrow> 'a option reader" where
  "read_opt rd t = (case t of c # r \<Rightarrow> if c = CHR ''s'' then (case rd r of (v, r) \<Rightarrow> (Some v, r)) else (None, r) | [] \<Rightarrow> (None, []))"

lemma reads_nat: "reads write_nat read_nat"
proof -
  have "takeWhile ((=) (CHR ''a'')) (replicate n (CHR ''a'') @ CHR ''b'' # r) = replicate n (CHR ''a'')"
    "dropWhile ((=) (CHR ''a'')) (replicate n (CHR ''a'') @ CHR ''b'' # r) = CHR ''b'' # r" for n r
    by (induction n) simp_all
  then show ?thesis by (simp add: reads_def write_nat_def read_nat_def)
qed

lemma reads_str: "reads write_str read_str"
  using reads_nat by (simp add: reads_def write_str_def read_str_def)

lemma reads_int: "reads write_int read_int"
  using reads_nat by (simp add: reads_def write_int_def read_int_def)

lemma reads_list:
  assumes "reads w rd"
  shows "reads (write_list w) (read_list rd)"
proof -
  have "read_many rd (length xs) (concat (map w xs) @ rest) = (xs, rest)" for xs rest
    using assms by (induction xs arbitrary: rest) (simp_all add: reads_def)
  then show ?thesis using reads_nat by (simp add: reads_def write_list_def read_list_def)
qed

lemma reads_opt: "reads w rd \<Longrightarrow> reads (write_opt w) (read_opt rd)"
  by (simp add: reads_def write_opt_def read_opt_def split: option.splits)

definition write_claims :: "claims \<Rightarrow> string" where
  "write_claims c = write_opt write_str (cl_sub c) @ write_opt write_str (cl_name c) @ write_opt write_str (cl_role c) @
     write_opt (write_list write_str) (cl_permissions c) @ write_opt write_int (cl_iat c) @ write_opt write_int (cl_exp c)"

definition read_claims :: "claims reader" where
  "read_claims t =
     (let (a, t) = read_opt read_str t; (b, t) = read_opt read_str t; (c, t) = read_opt read_str t;
          (d, t) = read_opt (read_list read_str) t; (e, t) = read_opt read_int t; (f, t) = read_opt read_int t
      in (\<lparr>cl_sub = a, cl_name = b, cl_role = c, cl_permissions = d, cl_iat = e, cl_exp = f\<rparr>, t))"

lemma reads_claims: "reads write_claims read_claims"
  using reads_opt [OF reads_str] reads_opt [OF reads_int] reads_opt [OF reads_list [OF reads_str]]
  by (simp add: reads_def write_claims_def read_claims_def Let_def)

definition plain_jwt :: jwt_lib where
  "plain_jwt = \<lparr>jw_encode = \<lambda>c k. write_str k @ write_claims c,
     jw_decode = \<lambda>now t k.
       (let (k', r) = read_str t; (c, _) = read_claims r
        in if k' \<noteq> k then Inl (InvalidTokenError ''Signature verification failed'')
           else case cl_exp c of
                  Some e \<Rightarrow> if now < e then Inr c else Inl ExpiredSignatureError
                | None \<Rightarrow> Inr c)\<rparr>"

lemma plain_jwt_laws: "jwt_laws plain_jwt"
proof -
  have "read_str (write_str k @ r) = (k, r)" "read_claims (write_claims c) = (c, [])" for k r c
    using reads_str reads_claims by (simp_all add: reads_def) (metis append_Nil2)
  then show ?thesis by (simp add: jwt_laws_def plain_jwt_def Let_def)
qed

lemma plain_passlib: "passlib_laws plain_user_env"
  by (simp add: passlib_laws_def plain_user_env_def)

definition demo_config :: app_config where
  "demo_config = \<lparr>cf_environment = ''test'', cf_secret_key = Some ''k''\<rparr>"

definition demo_repo_state :: repo where
  "demo_repo_state = \<lparr>rp_heap = Map.empty, rp_next = 0, rp_books = [], rp_copies = [], rp_locks = new_lock_mgr,
     rp_users = [(''U1'', new_faculty ''U1'' ''N'' ''e'' (Some ''CS'') ''#pw'' ''B1'')], rp_branches = [], rp_records = []\<rparr>"

definition demo_register :: user_request where
  "demo_register = \<lparr>urq_user_id = ''EVE'', urq_name = ''N'', urq_email = ''e'', urq_password = ''pw'', urq_role = ''admin'',
     urq_academic_year = None, urq_major = None, urq_branch_id = None\<rparr>"

lemma demo_secret: "get_secret_key demo_config = Inr ''k''"
  by code_simp

theorem token_grants_role_permissions_witness:
  "\<exists>r. login_user plain_user_env plain_jwt demo_config 100 100 demo_repo_state ''U1'' ''pw'' = Inr r \<and>
     is_ok (require_permission ''BOOK_SEARCH'' (get_current_user_claims plain_jwt demo_config 200 (Some (tr_access_token r)))) \<and>
     \<not> is_ok (require_permission ''BOOK_ISSUE'' (get_current_user_claims plain_jwt demo_config 200 (Some (tr_access_token r))))"
proof -
  let ?u = "new_faculty ''U1'' ''N'' ''e'' (Some ''CS'') ''#pw'' ''B1''"
  have u: "get_user demo_repo_state ''U1'' = Some ?u" by (simp add: get_user_def demo_repo_state_def)
  have v: "verify_password plain_user_env ''pw'' (us_password_hash ?u)" by code_simp
  obtain r where r: "login_user plain_user_env plain_jwt demo_config 100 100 demo_repo_state ''U1'' ''pw'' = Inr r"
    using u v demo_secret by (simp add: login_user_def create_access_token_def)
  have role: "get_role ?u = FACULTY" by (simp add: new_faculty_def get_role_def)
  have p: "has_permission ?u ''BOOK_SEARCH''" "\<not> has_permission ?u ''BOOK_ISSUE''"
    by (simp_all add: has_permission_def get_permissions_def role)
  show ?thesis
    using token_grants_role_permissions [OF plain_jwt_laws r, of 200 "''BOOK_SEARCH''"]
      token_grants_role_permissions [OF plain_jwt_laws r, of 200 "''BOOK_ISSUE''"] r u p by auto
qed

theorem open_registration_grants_admin_witness:
  "\<exists>u s' r. register_user plain_user_env demo_repo_state demo_register = (Inr u, s') \<and>
     login_user plain_user_env plain_jwt demo_config 0 0 s' ''EVE'' ''pw'' = Inr r \<and>
     is_ok (require_permission ''SYSTEM_AUDIT'' (get_current_user_claims plain_jwt demo_config 1 (Some (tr_access_token r))))"
proof -
  have 1: "\<not> user_exists demo_repo_state (urq_user_id demo_register)" by code_simp
  have 2: "py_upper (urq_role demo_register) = ''ADMIN''" by code_simp
  from open_registration_grants_admin [OF plain_jwt_laws plain_passlib 1 2 demo_secret, of 0 1] show ?thesis
    by (auto simp: demo_register_def)
qed

end
