(* ===== verification/Idempotency.thy ===== *)
theory Idempotency
  imports Core_Types
begin

text \<open>
  The idempotency layer of \<^verbatim>\<open>libflow/api/idempotency.py\<close> with its in-memory store (no Redis client
  configured, as in the global default store). The clock is an argument of every store operation. The
  protected operation acts on an environment \<open>'s\<close> and may raise. \<open>handle_idempotent_operation\<close> reads
  the clock when it looks the key up, when it marks the key in progress and when the operation ends.
\<close>

type_synonym response = "(string, json) dict"

datatype idem_data = IN_PROGRESS | COMPLETED int response

record idem_entry =
  ie_data :: idem_data
  ie_expires_at :: py_float

record idem_store =
  is_ttl_seconds :: py_float
  is_memory_store :: "(string, idem_entry) dict"

definition new_idem_store :: "py_float \<Rightarrow> idem_store" where
  "new_idem_store ttl = \<lparr>is_ttl_seconds = ttl, is_memory_store = []\<rparr>"

definition make_key :: "string \<Rightarrow> string option \<Rightarrow> string" where
  "make_key key user_id =
     (if truthy user_id then ''idemp:'' @ the user_id @ '':'' @ key else ''idemp:global:'' @ key)"

definition idem_get :: "py_float \<Rightarrow> idem_store \<Rightarrow> string \<Rightarrow> string option \<Rightarrow> idem_data option \<times> idem_store" where
  "idem_get now st key user_id =
     (let full_key = make_key key user_id in
      case dget (is_memory_store st) full_key of
        None \<Rightarrow> (None, st)
      | Some entry \<Rightarrow>
          if ie_expires_at entry < now
          then (None, st\<lparr>is_memory_store := dpop (is_memory_store st) full_key\<rparr>)
          else (Some (ie_data entry), st))"

definition set_in_progress :: "py_float \<Rightarrow> idem_store \<Rightarrow> string \<Rightarrow> py_float \<Rightarrow> string option \<Rightarrow> bool \<times> idem_store" where
  "set_in_progress now st key timeout_seconds user_id =
     (let full_key = make_key key user_id;
          fresh = st\<lparr>is_memory_store := dset (is_memory_store st) full_key
                    \<lparr>ie_data = IN_PROGRESS, ie_expires_at = now + timeout_seconds\<rparr>\<rparr>
      in case dget (is_memory_store st) full_key of
           None \<Rightarrow> (True, fresh)
         | Some entry \<Rightarrow> if ie_expires_at entry \<ge> now then (False, st) else (True, fresh))"

definition set_completed :: "py_float \<Rightarrow> idem_store \<Rightarrow> string \<Rightarrow> int \<Rightarrow> response \<Rightarrow> string option \<Rightarrow> idem_store" where
  "set_completed now st key status_code response_body user_id =
     st\<lparr>is_memory_store := dset (is_memory_store st) (make_key key user_id)
        \<lparr>ie_data = COMPLETED status_code response_body, ie_expires_at = now + is_ttl_seconds st\<rparr>\<rparr>"

definition idem_clear :: "idem_store \<Rightarrow> string \<Rightarrow> string option \<Rightarrow> idem_store" where
  "idem_clear st key user_id = st\<lparr>is_memory_store := dpop (is_memory_store st) (make_key key user_id)\<rparr>"

definition conflict :: "string \<Rightarrow> exn" where
  "conflict key = HTTPException 409
     (''Concurrent operation with Idempotency-Key '' @ quoted key @ '' is currently in progress.'')"

record clock =
  ck_lookup :: py_float
  ck_start :: py_float
  ck_end :: py_float

definition handle_idempotent_operation ::
  "clock \<Rightarrow> string option \<Rightarrow> idem_store \<Rightarrow> ('s \<Rightarrow> (exn + response) \<times> 's) \<Rightarrow> int \<Rightarrow> string option \<Rightarrow> 's \<Rightarrow>
     (exn + response) \<times> idem_store \<times> 's" where
  "handle_idempotent_operation ck idempotency_key st operation_fn status_code user_id s =
     (if \<not> truthy idempotency_key then (case operation_fn s of (r, s) \<Rightarrow> (r, st, s))
      else let key = the idempotency_key in
        case idem_get (ck_lookup ck) st key user_id of
          (Some (COMPLETED _ body), st) \<Rightarrow> (Inr body, st, s)
        | (Some IN_PROGRESS, st) \<Rightarrow> (Inl (conflict key), st, s)
        | (None, st) \<Rightarrow>
            (case set_in_progress (ck_start ck) st key 60 user_id of
               (False, st) \<Rightarrow> (Inl (conflict key), st, s)
             | (True, st) \<Rightarrow>
                 (case operation_fn s of
                    (Inr result, s) \<Rightarrow> (Inr result, set_completed (ck_end ck) st key status_code result user_id, s)
                  | (Inl e, s) \<Rightarrow> (Inl e, idem_clear st key user_id, s))))"

section \<open>Laws of the store\<close>

lemma idem_get_completed:
  "now \<le> t + is_ttl_seconds st \<Longrightarrow>
     idem_get now (set_completed t st key code body user) key user = (Some (COMPLETED code body), set_completed t st key code body user)"
  by (simp add: idem_get_def set_completed_def Let_def)

lemma make_key_inj:
  assumes "CHR '':'' \<notin> set u" "CHR '':'' \<notin> set v" "u \<noteq> []" "v \<noteq> []"
  shows "make_key k (Some u) = make_key l (Some v) \<longleftrightarrow> u = v \<and> k = l"
proof -
  have "takeWhile (\<lambda>c. c \<noteq> CHR '':'') (w @ CHR '':'' # j) = w" if "CHR '':'' \<notin> set w" for w j
    using that by (induction w) auto
  then have "u @ CHR '':'' # k = v @ CHR '':'' # l \<Longrightarrow> u = v" using assms by metis
  then show ?thesis using assms by (auto simp: make_key_def)
qed

text \<open>The request succeeded: its operation ran and the response is recorded.\<close>

lemma handle_success:
  assumes "truthy key" and "handle_idempotent_operation ck key st f code user s = (Inr body, st', s')"
  shows "(\<exists>st0. st' = set_completed (ck_end ck) st0 (the key) code body user \<and> is_ttl_seconds st0 = is_ttl_seconds st) \<or>
    (st' = st \<and> s' = s \<and> (\<exists>c. idem_get (ck_lookup ck) st (the key) user = (Some (COMPLETED c body), st)))"
  using assms
  by (auto simp: handle_idempotent_operation_def Let_def idem_get_def set_in_progress_def
      split: if_splits option.splits prod.splits sum.splits idem_data.splits)

section \<open>Properties\<close>

text \<open>The retries of a request: the clock of each, with any operation.\<close>

fun retries ::
  "(clock \<times> ('s \<Rightarrow> (exn + response) \<times> 's)) list \<Rightarrow> string option \<Rightarrow> int \<Rightarrow> string option \<Rightarrow> idem_store \<Rightarrow> 's \<Rightarrow>
     (exn + response) list \<times> idem_store \<times> 's" where
  "retries [] key code user st s = ([], st, s)"
| "retries ((ck, f) # rs) key code user st s =
     (case handle_idempotent_operation ck key st f code user s of
        (r, st, s) \<Rightarrow> (case retries rs key code user st s of (out, st, s) \<Rightarrow> (r # out, st, s)))"

lemma retries_completed:
  assumes "truthy key" and "dget (is_memory_store st) (make_key (the key) user) = Some \<lparr>ie_data = COMPLETED c body, ie_expires_at = t\<rparr>"
    and "\<forall>r \<in> set rs. ck_lookup (fst r) \<le> t"
  shows "retries rs key code user st s = (replicate (length rs) (Inr body), st, s)"
  using assms(3)
proof (induction rs)
  case (Cons r rs)
  obtain ck f where r: "r = (ck, f)" by fastforce
  have "handle_idempotent_operation ck key st f code user s = (Inr body, st, s)"
    using Cons.prems assms(1,2) r by (simp add: handle_idempotent_operation_def idem_get_def Let_def)
  then show ?case using Cons r by simp
qed simp

text \<open>
  C17: a request that succeeded under an idempotency key takes effect exactly once. All retries with the
  same key and user up to the end of the time to live return the stored response, whatever operation
  they carry, and change neither the environment nor the store.
\<close>

theorem idempotent_exactly_once:
  assumes "truthy key" and "idem_get (ck_lookup ck) st (the key) user = (None, st)"
    and "handle_idempotent_operation ck key st f code user s = (Inr body, st', s')"
    and "\<forall>r \<in> set rs. ck_lookup (fst r) \<le> ck_end ck + is_ttl_seconds st"
  shows "retries rs key code user st' s' = (replicate (length rs) (Inr body), st', s') \<and> f s = (Inr body, s')"
proof -
  have f: "f s = (Inr body, s')" and st': "\<exists>st0. st' = set_completed (ck_end ck) st0 (the key) code body user \<and> is_ttl_seconds st0 = is_ttl_seconds st"
    using assms(1-3) by (auto simp: handle_idempotent_operation_def Let_def set_in_progress_def
      split: if_splits option.splits prod.splits sum.splits)
  from st' have "dget (is_memory_store st') (make_key (the key) user) =
      Some \<lparr>ie_data = COMPLETED code body, ie_expires_at = ck_end ck + is_ttl_seconds st\<rparr>"
    by (auto simp: set_completed_def)
  from retries_completed [OF assms(1) this assms(4)] f show ?thesis by blast
qed

theorem idempotent_exactly_once_witness:
  "retries [(\<lparr>ck_lookup = 50, ck_start = 50, ck_end = 50\<rparr>, \<lambda>n. (Inl (ValueError ''x''), n + 1))] (Some ''k'') 200 (Some ''U1'')
     (snd (set_in_progress 0 (new_idem_store 86400) ''k'' 60 (Some ''U1''))
        \<lparr>is_memory_store := [(''idemp:U1:k'', \<lparr>ie_data = COMPLETED 200 [(''ok'', JBool True)], ie_expires_at = 86403\<rparr>)]\<rparr>) (1::nat) =
   ([Inr [(''ok'', JBool True)]],
     new_idem_store 86400\<lparr>is_memory_store := [(''idemp:U1:k'', \<lparr>ie_data = COMPLETED 200 [(''ok'', JBool True)], ie_expires_at = 86403\<rparr>)]\<rparr>, 1)"
  using idempotent_exactly_once [of "Some ''k''" "\<lparr>ck_lookup = 0, ck_start = 1, ck_end = 3\<rparr>" "new_idem_store 86400" "Some ''U1''"
      "\<lambda>n. (Inr [(''ok'', JBool True)], n + 1)" 200 "0::nat" "[(''ok'', JBool True)]"
      "new_idem_store 86400\<lparr>is_memory_store := [(''idemp:U1:k'', \<lparr>ie_data = COMPLETED 200 [(''ok'', JBool True)], ie_expires_at = 86403\<rparr>)]\<rparr>" 1
      "[(\<lparr>ck_lookup = 50, ck_start = 50, ck_end = 50\<rparr>, \<lambda>n. (Inl (ValueError ''x''), n + 1))]"]
  by (simp add: handle_idempotent_operation_def idem_get_def new_idem_store_def set_in_progress_def set_completed_def make_key_def Let_def)

text \<open>
  While a request is running, and for at most the sixty seconds of its lease, a second request with
  the same key and user is refused with a conflict and has no effect. A request whose operation raises
  frees its key, and reports the exception.
\<close>

theorem idempotent_concurrent_conflict:
  assumes "key \<noteq> []" and "set_in_progress t0 st key 60 user = (True, st1)"
  shows "(ck_lookup ck \<le> t0 + 60 \<longrightarrow>
      handle_idempotent_operation ck (Some key) st1 f code user s = (Inl (conflict key), st1, s)) \<and>
    (idem_get (ck_lookup ck) st key user = (None, st) \<and> set_in_progress (ck_start ck) st key 60 user = (True, st1) \<and>
       f s = (Inl e, s') \<longrightarrow>
      handle_idempotent_operation ck (Some key) st f code user s = (Inl e, idem_clear st1 key user, s') \<and>
      idem_get t (idem_clear st1 key user) key user = (None, idem_clear st1 key user))"
proof -
  have "dget (is_memory_store st1) (make_key key user) = Some \<lparr>ie_data = IN_PROGRESS, ie_expires_at = t0 + 60\<rparr>"
    using assms(2) by (auto simp: set_in_progress_def Let_def split: option.splits if_splits)
  then show ?thesis using assms(1)
    by (auto simp: handle_idempotent_operation_def idem_get_def idem_clear_def Let_def)
qed

theorem idempotent_concurrent_conflict_witness:
  "fst (handle_idempotent_operation \<lparr>ck_lookup = 30, ck_start = 30, ck_end = 31\<rparr> (Some ''k'')
     (snd (set_in_progress 0 (new_idem_store 86400) ''k'' 60 None)) (\<lambda>n. (Inr [], n + 1)) 200 None (0::nat)) = Inl (conflict ''k'')"
  using idempotent_concurrent_conflict [of "''k''" 0 "new_idem_store 86400" None "snd (set_in_progress 0 (new_idem_store 86400) ''k'' 60 None)"
      "\<lparr>ck_lookup = 30, ck_start = 30, ck_end = 31\<rparr>" "\<lambda>n. (Inr [], n + 1)" 200 "0::nat"]
  by (simp add: set_in_progress_def new_idem_store_def)

text \<open>
  C21: keys are scoped by user as long as user ids hold no colon and no user is called \<open>global\<close>: two
  requests share a slot of the store only if they have the same user and the same key.
\<close>

theorem idempotency_scoped:
  assumes "\<forall>u \<in> set_option a \<union> set_option b. u \<noteq> [] \<and> CHR '':'' \<notin> set u \<and> u \<noteq> ''global''"
  shows "make_key k a = make_key l b \<longleftrightarrow> a = b \<and> k = l"
proof -
  have g: "make_key k None = make_key k (Some ''global'')" for k by (simp add: make_key_def)
  have c: "CHR '':'' \<notin> set ''global''" "''global'' \<noteq> []" by simp_all
  show ?thesis
  proof (cases a; cases b)
    fix u v assume "a = Some u" "b = Some v"
    then show ?thesis using assms make_key_inj [of u v k l] by auto
  next
    fix u assume "a = Some u" "b = None"
    then show ?thesis using assms make_key_inj [OF _ c(1) _ c(2), of u k l] by (auto simp: g)
  next
    fix v assume "a = None" "b = Some v"
    then show ?thesis using assms make_key_inj [OF c(1) _ c(2), of v k l] by (auto simp: g)
  qed (simp add: make_key_def)
qed

theorem idempotency_scoped_witness: "make_key ''k'' (Some ''STU-1'') \<noteq> make_key ''k'' (Some ''STU-2'')"
  using idempotency_scoped [of "Some ''STU-1''" "Some ''STU-2''" "''k''" "''k''"] by simp

end
