(* ===== verification/Api_Routes.thy ===== *)
theory Api_Routes
  imports Billing Rebalancer Catalog Access_Control Idempotency
begin

text \<open>
  The routes of \<^verbatim>\<open>libflow/api/routers\<close> over the services, and the intelligence service of
  \<^verbatim>\<open>libflow/services/intelligence_service.py\<close>. A route takes the outcome of the token check of its caller and
  asks for its permission before anything else; checkouts, returns and payments run under the idempotency
  layer, whose store is global to the process. One request of the API is a step of \<open>api_state\<close>.
\<close>

section \<open>The intelligence service\<close>

definition get_recommendations_for_user ::
  "(py_float \<Rightarrow> py_float) \<Rightarrow> library \<Rightarrow> string \<Rightarrow> int \<Rightarrow> exn + recommendation list" where
  "get_recommendations_for_user math_sqrt s user_id top_k =
     (case get_user s user_id of
        None \<Rightarrow> Inl (UserNotFoundError user_id)
      | Some u \<Rightarrow> Inr (recommend_for_user math_sqrt (get_book s) (lb_graph s) (lb_recommender s) u top_k))"

definition assess_user_theft_risk ::
  "(py_float list \<Rightarrow> exn + py_float) \<Rightarrow> (nat \<Rightarrow> py_float) \<Rightarrow> call_env \<Rightarrow> library \<Rightarrow> string \<Rightarrow> (exn + risk_report) \<times> library" where
  "assess_user_theft_risk predict log1p env s user_id =
     (case get_user s user_id of
        None \<Rightarrow> (Inl (UserNotFoundError user_id), s)
      | Some u \<Rightarrow>
          (case evaluate_risk predict log1p (ev_show_money env) (of_int (ev_now env)) (of_int (ev_now env)) (lb_risk_breaker s) u of
             (r, cb) \<Rightarrow> (r, s\<lparr>lb_risk_breaker := cb\<rparr>)))"

definition get_subject_learning_path :: "library \<Rightarrow> string \<Rightarrow> int \<Rightarrow> book_meta list" where
  "get_subject_learning_path s start_isbn max_depth = dfs_learning_path (lb_graph s) start_isbn max_depth"

definition get_shortest_connection_path :: "library \<Rightarrow> string \<Rightarrow> string \<Rightarrow> book_meta list option" where
  "get_shortest_connection_path s from_isbn to_isbn = bfs_shortest_path (lb_graph s) from_isbn to_isbn"

section \<open>Routes under the idempotency layer\<close>

definition claim_sub :: "claims \<Rightarrow> string" where
  "claim_sub cl = (case cl_sub cl of None \<Rightarrow> [] | Some i \<Rightarrow> i)"

definition issue_operation :: "call_env \<Rightarrow> string \<Rightarrow> string \<Rightarrow> int \<Rightarrow> string \<Rightarrow> library \<Rightarrow> (exn + response) \<times> library" where
  "issue_operation env copy_id user_id loan_days actor_id s =
     (case issue_physical_book env s copy_id user_id actor_id loan_days of
        (Inl e, s) \<Rightarrow> (Inl e, s)
      | (Inr tx, s) \<Rightarrow> (Inr [(''status'', JStr ''SUCCESS''), (''transaction'', JObj tx)], s))"

definition issue_route ::
  "clock \<Rightarrow> call_env \<Rightarrow> exn + claims \<Rightarrow> string option \<Rightarrow> string \<Rightarrow> string \<Rightarrow> int \<Rightarrow> idem_store \<Rightarrow> library \<Rightarrow>
   (exn + response) \<times> idem_store \<times> library" where
  "issue_route ck env caller key copy_id user_id loan_days st s =
     (case require_permission ''BOOK_ISSUE'' caller of
        Inl e \<Rightarrow> (Inl e, st, s)
      | Inr cl \<Rightarrow> handle_idempotent_operation ck key st (issue_operation env copy_id user_id loan_days (claim_sub cl)) 200
                   (if user_id \<noteq> [] then Some user_id else cl_sub cl) s)"

definition return_operation :: "call_env \<Rightarrow> string \<Rightarrow> bool \<Rightarrow> bool \<Rightarrow> string \<Rightarrow> library \<Rightarrow> (exn + response) \<times> library" where
  "return_operation env copy_id is_late is_damaged actor_id s =
     (case return_physical_book env s copy_id actor_id is_late is_damaged of
        (Inl e, s) \<Rightarrow> (Inl e, s)
      | (Inr result, s) \<Rightarrow> (Inr (dict_update [(''status'', JStr ''SUCCESS'')] result), s))"

definition return_route ::
  "clock \<Rightarrow> call_env \<Rightarrow> exn + claims \<Rightarrow> string option \<Rightarrow> string \<Rightarrow> bool \<Rightarrow> bool \<Rightarrow> idem_store \<Rightarrow> library \<Rightarrow>
   (exn + response) \<times> idem_store \<times> library" where
  "return_route ck env caller key copy_id is_late is_damaged st s =
     (case require_permission ''BOOK_RETURN'' caller of
        Inl e \<Rightarrow> (Inl e, st, s)
      | Inr cl \<Rightarrow> handle_idempotent_operation ck key st (return_operation env copy_id is_late is_damaged (claim_sub cl)) 200
                   (if truthy (cl_sub cl) then cl_sub cl else Some copy_id) s)"

definition pay_operation ::
  "call_env \<Rightarrow> string \<Rightarrow> py_float \<Rightarrow> string \<Rightarrow> (string, string) dict \<Rightarrow> library \<Rightarrow> (exn + response) \<times> library" where
  "pay_operation env user_id amount payment_method payment_metadata s =
     (case service_pay_fine env s user_id amount payment_method (Some payment_metadata) of
        (Inl e, s) \<Rightarrow> (Inl e, s)
      | (Inr result, s) \<Rightarrow> (Inr (dict_update [(''status'', JStr ''SUCCESS'')] result), s))"

definition pay_route ::
  "clock \<Rightarrow> call_env \<Rightarrow> exn + claims \<Rightarrow> string option \<Rightarrow> string \<Rightarrow> py_float \<Rightarrow> string \<Rightarrow> (string, string) dict \<Rightarrow> idem_store \<Rightarrow>
   library \<Rightarrow> (exn + response) \<times> idem_store \<times> library" where
  "pay_route ck env caller key user_id amount payment_method payment_metadata st s =
     (case require_permission ''BILLING_PAY'' caller of
        Inl e \<Rightarrow> (Inl e, st, s)
      | Inr cl \<Rightarrow> handle_idempotent_operation ck key st (pay_operation env user_id amount payment_method payment_metadata) 200
                   (if user_id \<noteq> [] then Some user_id else cl_sub cl) s)"

section \<open>The other routes\<close>

definition guarded :: "string \<Rightarrow> exn + claims \<Rightarrow> (claims \<Rightarrow> library \<Rightarrow> (exn + response) \<times> library) \<Rightarrow> library \<Rightarrow> (exn + response) \<times> library" where
  "guarded permission caller handler s =
     (case require_permission permission caller of Inl e \<Rightarrow> (Inl e, s) | Inr cl \<Rightarrow> handler cl s)"

definition reserve_route :: "call_env \<Rightarrow> exn + claims \<Rightarrow> string \<Rightarrow> string \<Rightarrow> library \<Rightarrow> (exn + response) \<times> library" where
  "reserve_route env caller isbn user_id =
     guarded ''BOOK_RESERVE'' caller (\<lambda>_ s. case route_reserve_book env s isbn user_id of (out, s) \<Rightarrow> (Inr out, s))"

definition allocation_request_route :: "call_env \<Rightarrow> exn + claims \<Rightarrow> string \<Rightarrow> string \<Rightarrow> library \<Rightarrow> (exn + response) \<times> library" where
  "allocation_request_route env caller isbn user_id =
     guarded ''BOOK_ALLOCATE'' caller (\<lambda>_ s.
       case request_smart_allocation env s isbn user_id of
         (Inl e, s) \<Rightarrow> (Inl e, s)
       | (Inr result, s) \<Rightarrow> (Inr (dict_update [(''status'', JStr ''SUCCESS'')] result), s))"

definition allocation_drop_route :: "call_env \<Rightarrow> exn + claims \<Rightarrow> string \<Rightarrow> library \<Rightarrow> (exn + response) \<times> library" where
  "allocation_drop_route env caller isbn =
     guarded ''BOOK_ALLOCATE'' caller (\<lambda>_ s.
       case process_smart_allocation_drop env s isbn of
         (Inl e, s) \<Rightarrow> (Inl e, s)
       | (Inr None, s) \<Rightarrow> (Inr [(''status'', JStr ''NO_MATCH''), (''isbn'', JStr isbn)], s)
       | (Inr (Some result), s) \<Rightarrow> (Inr (dict_update [(''status'', JStr ''SUCCESS'')] result), s))"

definition register_book_route :: "call_env \<Rightarrow> exn + claims \<Rightarrow> book_request \<Rightarrow> library \<Rightarrow> (exn + response) \<times> library" where
  "register_book_route env caller req =
     guarded ''BOOK_MANAGE_INVENTORY'' caller (\<lambda>cl s.
       case register_route env s (case cl_sub cl of None \<Rightarrow> ''ADMIN'' | Some i \<Rightarrow> i) req of
         (Inl e, s) \<Rightarrow> (Inl e, s)
       | (Inr b, s) \<Rightarrow> (Inr [(''status'', JStr ''SUCCESS''), (''book'', JObj (book_to_dict (rp_heap s) b))], s))"

definition add_copy_route ::
  "call_env \<Rightarrow> exn + claims \<Rightarrow> string \<Rightarrow> string \<Rightarrow> string \<Rightarrow> string \<Rightarrow> py_float \<Rightarrow> library \<Rightarrow> (exn + response) \<times> library" where
  "add_copy_route env caller isbn copy_id branch_id shelf_location price =
     guarded ''BOOK_MANAGE_INVENTORY'' caller (\<lambda>cl s.
       case add_physical_copy env s isbn copy_id branch_id shelf_location price (case cl_sub cl of None \<Rightarrow> ''ADMIN'' | Some i \<Rightarrow> i) of
         (Inl e, s) \<Rightarrow> (Inl e, s)
       | (Inr c, s) \<Rightarrow> (Inr [(''status'', JStr ''SUCCESS''), (''copy'', JObj (copy_to_dict c))], s))"

definition book_details_route :: "call_env \<Rightarrow> exn + claims \<Rightarrow> string \<Rightarrow> library \<Rightarrow> (exn + response) \<times> library" where
  "book_details_route env caller isbn = guarded ''BOOK_SEARCH'' caller (\<lambda>_ s. details_route env s isbn)"

definition branches_route :: "library \<Rightarrow> response" where
  "branches_route s =
     (let branches = list_branches s
      in [(''branches'', JList (map (\<lambda>b. JObj (branch_to_dict b)) branches)), (''total_branches'', JInt (int (length branches)))])"

definition transfer_route :: "call_env \<Rightarrow> exn + claims \<Rightarrow> string \<Rightarrow> string \<Rightarrow> string option \<Rightarrow> library \<Rightarrow> (exn + response) \<times> library" where
  "transfer_route env caller copy_id dest_branch_id requested_by =
     guarded ''BOOK_TRANSFER_INITIATE'' caller (\<lambda>cl s. route_transfer_copy env s copy_id dest_branch_id requested_by (claim_sub cl))"

text \<open>The identifiers of the transfers of one pass come from \<open>uuid\<close>, one per executed item.\<close>

definition rebalance_run_route ::
  "(py_float \<Rightarrow> py_float \<Rightarrow> py_float) \<Rightarrow> (nat \<Rightarrow> string) \<Rightarrow> call_env \<Rightarrow> exn + claims \<Rightarrow> library \<Rightarrow> (exn + response) \<times> library" where
  "rebalance_run_route hypot uuid env caller =
     guarded ''BRANCH_MANAGE'' caller (\<lambda>_ s.
       let plan = calculate_rebalancing_plan hypot (date_of (ev_now env)) s
       in case execute_rebalancing_plan (ev_now env) (zip plan (map uuid [0..<length plan])) s of
            (Inl e, s) \<Rightarrow> (Inl e, s)
          | (Inr executed, s) \<Rightarrow>
              (Inr [(''status'', JStr ''SUCCESS''), (''transfers_initiated_count'', JInt (int (length executed))),
                    (''transfers'', JList (map JObj executed))], s))"

definition complete_transfer_route :: "call_env \<Rightarrow> exn + claims \<Rightarrow> string \<Rightarrow> library \<Rightarrow> (exn + response) \<times> library" where
  "complete_transfer_route env caller transfer_id =
     guarded ''BRANCH_MANAGE'' caller (\<lambda>_ s.
       case engine_complete_transfer (ev_now env) s transfer_id of
         (Inl e, s) \<Rightarrow> (Inl e, s)
       | (Inr None, s) \<Rightarrow> (Inr [(''status'', JStr ''NOT_FOUND''), (''transfer_id'', JStr transfer_id)], s)
       | (Inr (Some result), s) \<Rightarrow>
           (if result = [] then (Inr [(''status'', JStr ''NOT_FOUND''), (''transfer_id'', JStr transfer_id)], s)
            else (Inr [(''status'', JStr ''SUCCESS''), (''transfer'', JObj result)], s)))"

definition fine_estimate_route :: "library \<Rightarrow> string \<Rightarrow> string \<Rightarrow> int \<Rightarrow> response" where
  "fine_estimate_route s isbn user_id overdue_days =
     [(''isbn'', JStr isbn), (''user_id'', JStr user_id), (''overdue_days'', JInt overdue_days),
      (''projected_fine'', JFloat (calculate_projected_fine s isbn user_id overdue_days))]"

definition notifications_route :: "exn + claims \<Rightarrow> string \<Rightarrow> library \<Rightarrow> (exn + response) \<times> library" where
  "notifications_route caller user_id =
     guarded ''SYSTEM_NOTIFICATIONS'' caller (\<lambda>_ s.
       let notifications = (case dp_heap (lb_dispatcher s) 2 of Some svc \<Rightarrow> get_user_notifications svc user_id | None \<Rightarrow> [])
       in (Inr [(''user_id'', JStr user_id), (''total'', JInt (int (length notifications))),
                (''notifications'', JList (map JObj notifications))], s))"

definition cache_stats_route :: "exn + claims \<Rightarrow> library \<Rightarrow> (exn + response) \<times> library" where
  "cache_stats_route caller =
     guarded ''SYSTEM_CACHE'' caller (\<lambda>_ s. (Inr (dict_update [(''backend'', JStr ''InMemoryCache'')] (cache_stats (lb_cache s))), s))"

definition risk_route ::
  "(py_float list \<Rightarrow> exn + py_float) \<Rightarrow> (nat \<Rightarrow> py_float) \<Rightarrow> call_env \<Rightarrow> exn + claims \<Rightarrow> string \<Rightarrow> library \<Rightarrow> (exn + risk_report) \<times> library" where
  "risk_route predict log1p env caller user_id s =
     (case require_permission ''INTEL_RISK_ASSESSMENT'' caller of
        Inl e \<Rightarrow> (Inl e, s)
      | Inr _ \<Rightarrow> assess_user_theft_risk predict log1p env s user_id)"

text \<open>Routes that only read: the permission, then the value.\<close>

definition permit :: "string \<Rightarrow> exn + claims \<Rightarrow> exn + 'a \<Rightarrow> exn + 'a" where
  "permit permission caller answer = (case require_permission permission caller of Inl e \<Rightarrow> Inl e | Inr _ \<Rightarrow> answer)"

definition search_route where
  "search_route math_log set_order caller q f limit offset s =
     permit ''BOOK_SEARCH'' caller (Inr (search_page math_log set_order s q f limit offset))"

definition autocomplete_route :: "exn + claims \<Rightarrow> string \<Rightarrow> library \<Rightarrow> exn + (string \<times> string \<times> py_float) list" where
  "autocomplete_route caller query s = permit ''BOOK_SEARCH'' caller (Inr (autocomplete s query 8))"

definition plan_route :: "(py_float \<Rightarrow> py_float \<Rightarrow> py_float) \<Rightarrow> call_env \<Rightarrow> exn + claims \<Rightarrow> library \<Rightarrow> exn + nat \<times> plan_item list" where
  "plan_route hypot env caller s =
     permit ''BRANCH_MANAGE'' caller
       (let plan = calculate_rebalancing_plan hypot (date_of (ev_now env)) s in Inr (length plan, plan))"

definition metrics_route where
  "metrics_route caller s = permit ''BRANCH_VIEW'' caller (Inr (get_outcome_metrics (lb_rebalancer s)))"

definition audit_logs_route :: "exn + claims \<Rightarrow> int \<Rightarrow> string option \<Rightarrow> library \<Rightarrow> exn + nat \<times> log_entry list" where
  "audit_logs_route caller limit action s =
     permit ''SYSTEM_AUDIT'' caller (let logs = get_logs (lb_audit s) limit action in Inr (length logs, logs))"

definition recommendations_route ::
  "(py_float \<Rightarrow> py_float) \<Rightarrow> exn + claims \<Rightarrow> string \<Rightarrow> int \<Rightarrow> library \<Rightarrow> exn + recommendation list" where
  "recommendations_route math_sqrt caller user_id top_k s =
     permit ''INTEL_RECOMMENDATIONS'' caller (get_recommendations_for_user math_sqrt s user_id top_k)"

definition learning_path_route :: "exn + claims \<Rightarrow> string \<Rightarrow> int \<Rightarrow> library \<Rightarrow> exn + book_meta list" where
  "learning_path_route caller isbn depth s = permit ''INTEL_LEARNING_PATH'' caller (Inr (get_subject_learning_path s isbn depth))"

definition shortest_path_route :: "exn + claims \<Rightarrow> string \<Rightarrow> string \<Rightarrow> library \<Rightarrow> exn + book_meta list option" where
  "shortest_path_route caller from_isbn to_isbn s =
     permit ''INTEL_GRAPH_TRAVERSE'' caller (Inr (get_shortest_connection_path s from_isbn to_isbn))"

section \<open>The API as a state machine\<close>

record api_state =
  ap_library :: library
  ap_idem :: idem_store

datatype api_request =
    RqRegisterUser user_request
  | RqIssue "string option" string string int
  | RqReturn "string option" string bool bool
  | RqPay "string option" string py_float string "(string, string) dict"
  | RqReserve string string
  | RqAllocate string string
  | RqDrop string
  | RqRegisterBook book_request
  | RqAddCopy string string string string py_float
  | RqDetails string
  | RqTransfer string string "string option"
  | RqRebalance
  | RqComplete string
  | RqRisk string

text \<open>What one request reads from outside.\<close>

record api_env =
  ae_call :: call_env
  ae_clock :: clock
  ae_user :: user_env
  ae_hypot :: "py_float \<Rightarrow> py_float \<Rightarrow> py_float"
  ae_uuid :: "nat \<Rightarrow> string"
  ae_predict :: "py_float list \<Rightarrow> exn + py_float"
  ae_log1p :: "nat \<Rightarrow> py_float"

fun api_library_step :: "api_env \<Rightarrow> exn + claims \<Rightarrow> api_request \<Rightarrow> idem_store \<Rightarrow> library \<Rightarrow> idem_store \<times> library" where
  "api_library_step env caller (RqRegisterUser req) st s = (st, snd (register_user (ae_user env) s req))"
| "api_library_step env caller (RqIssue key cid uid days) st s = snd (issue_route (ae_clock env) (ae_call env) caller key cid uid days st s)"
| "api_library_step env caller (RqReturn key cid late dam) st s = snd (return_route (ae_clock env) (ae_call env) caller key cid late dam st s)"
| "api_library_step env caller (RqPay key uid amount m meta) st s = snd (pay_route (ae_clock env) (ae_call env) caller key uid amount m meta st s)"
| "api_library_step env caller (RqReserve isbn uid) st s = (st, snd (reserve_route (ae_call env) caller isbn uid s))"
| "api_library_step env caller (RqAllocate isbn uid) st s = (st, snd (allocation_request_route (ae_call env) caller isbn uid s))"
| "api_library_step env caller (RqDrop isbn) st s = (st, snd (allocation_drop_route (ae_call env) caller isbn s))"
| "api_library_step env caller (RqRegisterBook req) st s = (st, snd (register_book_route (ae_call env) caller req s))"
| "api_library_step env caller (RqAddCopy isbn cid br sh price) st s = (st, snd (add_copy_route (ae_call env) caller isbn cid br sh price s))"
| "api_library_step env caller (RqDetails isbn) st s = (st, snd (book_details_route (ae_call env) caller isbn s))"
| "api_library_step env caller (RqTransfer cid dest who) st s = (st, snd (transfer_route (ae_call env) caller cid dest who s))"
| "api_library_step env caller RqRebalance st s = (st, snd (rebalance_run_route (ae_hypot env) (ae_uuid env) (ae_call env) caller s))"
| "api_library_step env caller (RqComplete tid) st s = (st, snd (complete_transfer_route (ae_call env) caller tid s))"
| "api_library_step env caller (RqRisk uid) st s =
     (st, snd (risk_route (ae_predict env) (ae_log1p env) (ae_call env) caller uid s))"

definition api_step :: "api_env \<Rightarrow> exn + claims \<Rightarrow> api_request \<Rightarrow> api_state \<Rightarrow> api_state" where
  "api_step env caller rq a =
     (case api_library_step env caller rq (ap_idem a) (ap_library a) of (st, s) \<Rightarrow> \<lparr>ap_library = s, ap_idem = st\<rparr>)"

text \<open>New titles and new copies carry new identifiers.\<close>

fun fresh_ids :: "library \<Rightarrow> api_request \<Rightarrow> bool" where
  "fresh_ids s (RqRegisterBook req) \<longleftrightarrow> (\<forall>cid r c. get_copy s cid = Some (r, c) \<longrightarrow> cp_book_isbn c \<noteq> brq_isbn req)"
| "fresh_ids s (RqAddCopy isbn cid br sh price) \<longleftrightarrow> get_copy s cid = None"
| "fresh_ids s _ \<longleftrightarrow> True"

section \<open>The invariant of the library under every request\<close>

definition lib_inv :: "library \<Rightarrow> bool" where
  "lib_inv s \<longleftrightarrow> no_locks s \<and> ledger_inv s \<and> res_inv (lb_reservations s) \<and> named_branches s"

lemma lib_inv_same:
  assumes "lib_inv s" "same_repo s s'" "rp_locks s' = rp_locks s" "lb_reservations s' = lb_reservations s"
    "lb_branch_mgr s' = lb_branch_mgr s" "rp_branches s' = rp_branches s"
  shows "lib_inv s'"
  using assms same_repo_ledger [OF assms(2)] by (simp add: lib_inv_def no_locks_def named_branches_def)

lemma lib_inv_services:
  "lib_inv s \<Longrightarrow> ledger_inv s' \<Longrightarrow> same_services s s' \<Longrightarrow> named_branches s' \<Longrightarrow> lib_inv s'"
  by (simp add: lib_inv_def same_services_def no_locks_def)

lemma save_copy_branches [simp]: "rp_branches (save_copy s r) = rp_branches s"
  by (simp add: save_copy_def Let_def split: option.splits)

lemma save_user_branches [simp]: "rp_branches (save_user s u) = rp_branches s"
  by (simp add: save_user_def)

lemma lib_calls_branches [simp]:
  "rp_branches (lib_save_event env s t p) = rp_branches s" "rp_branches (lib_invalidate s k) = rp_branches s"
  "rp_branches (lib_dispatch env s a b m p) = rp_branches s" "rp_branches (lib_log env s a b m p) = rp_branches s"
  "rp_branches (save_record s tx) = rp_branches s"
  by (simp_all add: lib_save_event_def lib_invalidate_def lib_dispatch_def lib_log_def save_record_def)

lemma locking_branches:
  assumes "\<And>t. rp_branches (snd (body t)) = rp_branches t"
  shows "rp_branches (snd (locking_section sf cid body s)) = rp_branches s"
  using assms by (simp add: locking_section_def case_prod_unfold split: bool.splits)

lemma issue_section_branches [simp]: "rp_branches (snd (issue_section env cid uid days s)) = rp_branches s"
  by (simp add: issue_section_def Let_def split: option.splits sum.splits)

lemma return_section_branches [simp]: "rp_branches (snd (return_section env cid actor late dam s)) = rp_branches s"
  by (simp add: return_section_def Let_def split: option.splits sum.splits prod.splits)

lemma issue_branches [simp]: "rp_branches (snd (issue_physical_book env s cid uid actor days)) = rp_branches s"
  using locking_branches [of "issue_section env cid uid days" "ev_show_float env" cid s]
  by (auto simp: issue_physical_book_def Let_def split: prod.splits sum.splits)

lemma return_branches [simp]: "rp_branches (snd (return_physical_book env s cid actor late dam)) = rp_branches s"
  using locking_branches [of "return_section env cid actor late dam" "ev_show_float env" cid s]
  by (auto simp: return_physical_book_def Let_def split: prod.splits sum.splits)

lemma lib_inv_locks: "lib_inv s \<Longrightarrow> no_locks (s\<lparr>rp_locks := l\<rparr>) \<Longrightarrow> lib_inv (s\<lparr>rp_locks := l\<rparr>)"
  by (simp add: lib_inv_def named_branches_def)

lemma issue_lib_inv:
  assumes "lib_inv s"
  shows "lib_inv (snd (issue_physical_book env s cid uid actor days))"
proof -
  have i: "no_locks s" "ledger_inv s" "repo_inv s" using assms by (auto simp: lib_inv_def dest: ledger_repo)
  obtain x s' where run: "issue_physical_book env s cid uid actor days = (x, s')" by fastforce
  have br: "rp_branches s' = rp_branches s" using issue_branches [of env s cid uid actor days] run by simp
  show ?thesis
  proof (cases x)
    case (Inl e)
    with issue_raise [OF i(1)] run assms show ?thesis by (metis lib_inv_locks snd_conv)
  next
    case (Inr tx)
    show ?thesis
      by (rule issue_ok [OF i(1,3) run [unfolded Inr]])
         (use assms run br i(2) in \<open>simp add: lib_inv_def named_branches_def\<close>)
  qed
qed

lemma return_lib_inv:
  assumes "lib_inv s"
  shows "lib_inv (snd (return_physical_book env s cid actor late dam))"
proof -
  have i: "no_locks s" "ledger_inv s" "res_inv (lb_reservations s)" using assms by (auto simp: lib_inv_def)
  obtain x s' where run: "return_physical_book env s cid actor late dam = (x, s')" by fastforce
  have br: "rp_branches s' = rp_branches s" using return_branches [of env s cid actor late dam] run by simp
  show ?thesis
  proof (cases x)
    case (Inl e)
    with return_raise [OF i(1,2)] run assms show ?thesis by (metis lib_inv_locks snd_conv)
  next
    case (Inr out)
    show ?thesis
      by (rule return_ok [OF i(1,2) run [unfolded Inr]])
         (use assms run br handle_inv [OF i(3)] in \<open>simp add: lib_inv_def named_branches_def\<close>)
  qed
qed

lemma lib_inv_reservations: "lib_inv s \<Longrightarrow> res_inv rm \<Longrightarrow> lib_inv (s\<lparr>lb_reservations := rm\<rparr>)"
  using same_repo_ledger [of s "s\<lparr>lb_reservations := rm\<rparr>"] by (simp add: lib_inv_def named_branches_def no_locks_def)

lemma lib_inv_queues: "lib_inv s \<Longrightarrow> lib_inv (s\<lparr>lb_allocation_queues := q\<rparr>)"
  by (rule lib_inv_same) simp_all

lemma reserve_lib_inv:
  assumes "lib_inv s"
  shows "lib_inv (snd (route_reserve_book env s isbn uid))"
proof -
  have "res_inv (snd (reserve_book (ev_now env) (ev_uuid8 env) (lb_reservations s) isbn uid 0))"
    using assms by (intro reserve_inv) (simp add: lib_inv_def)
  then show ?thesis using lib_inv_reservations [OF assms] by (simp add: route_reserve_book_def case_prod_unfold)
qed

lemma allocate_lib_inv: "lib_inv s \<Longrightarrow> lib_inv (snd (request_smart_allocation env s isbn uid))"
  by (simp add: request_smart_allocation_def Let_def case_prod_unfold lib_inv_queues split: option.splits)

lemma drop_lib_inv:
  assumes "lib_inv s"
  shows "lib_inv (snd (process_smart_allocation_drop env s isbn))"
proof -
  have q: "lib_inv (s\<lparr>lb_allocation_queues := q\<rparr>)" for q by (rule lib_inv_queues [OF assms])
  then have i: "lib_inv (snd (issue_physical_book env (s\<lparr>lb_allocation_queues := q\<rparr>) cid uid actor days))" for q cid uid actor days
    by (rule issue_lib_inv)
  show ?thesis using assms q i
    by (auto simp: process_smart_allocation_drop_def Let_def split: option.splits list.splits prod.splits sum.splits)
       (metis snd_conv)+
qed

lemma pay_lib_inv:
  assumes "lib_inv s"
  shows "lib_inv (snd (service_pay_fine env s uid amount m meta))"
proof -
  obtain x s' where run: "service_pay_fine env s uid amount m meta = (x, s')" by fastforce
  have br: "rp_branches s' = rp_branches s" "lb_branch_mgr s' = lb_branch_mgr s"
    using run by (auto simp: service_pay_fine_def Let_def save_user_def lib_log_def split: option.splits prod.splits sum.splits if_splits)
  have led: "ledger_inv s" using assms by (simp add: lib_inv_def)
  from pay_fine_state [OF run] have "ledger_inv s' \<and> rp_locks s' = rp_locks s \<and> lb_reservations s' = lb_reservations s"
  proof (elim disjE conjE exE)
    assume "same_repo s s'" "rp_locks s' = rp_locks s" "lb_reservations s' = lb_reservations s"
    then show ?thesis using led same_repo_ledger by blast
  next
    fix u assume u: "get_user s uid = Some u" "same_repo (save_user s (snd (pay_fine u amount))) s'" "rp_locks s' = rp_locks s" "lb_reservations s' = lb_reservations s"
    have "ledger_inv (save_user s (snd (pay_fine u amount)))" by (rule save_user_ledger [OF led u(1)]) simp_all
    then show ?thesis using u same_repo_ledger by blast
  qed
  then show ?thesis using assms br run by (simp add: lib_inv_def no_locks_def named_branches_def)
qed

text \<open>A new user holds no copy.\<close>

lemma new_user_lib_inv:
  assumes inv: "lib_inv s" and new: "get_user s (us_user_id u) = None" and u: "us_active u = {}"
  shows "lib_inv (save_user s u)"
proof -
  have led: "ledger_inv s" "repo_inv s" using inv by (auto simp: lib_inv_def dest: ledger_repo)
  have cp: "get_copy (save_user s u) i = get_copy s i" for i by (rule get_copy_cong) simp_all
  have us: "get_user (save_user s u) i = (if i = us_user_id u then Some u else get_user s i)" for i by (rule get_user_save_user)
  have "holder (save_user s u) i = holder s i" for i by (simp add: holder_def cp)
  moreover have "loans (save_user s u) v = loans s v" for v using new u by (simp add: loans_def us)
  moreover have "repo_inv (save_user s u)" using save_user_inv [OF led(2)] u by simp
  moreover have "within_limit w" if "get_user (save_user s u) v = Some w" for v w
    using that u led(1) by (auto simp: us ledger_inv_def within_limit_def split: if_splits)
  ultimately have "ledger_inv (save_user s u)" using led(1) unfolding ledger_inv_def by (simp add: cp)
  then show ?thesis using inv by (simp add: lib_inv_def no_locks_def named_branches_def save_user_def)
qed

lemma register_user_lib_inv:
  assumes "lib_inv s"
  shows "lib_inv (snd (register_user env s req))"
proof (cases "user_exists s (urq_user_id req) \<or> \<not> is_ok (create_user env (urq_role req) (kwargs_of_user_request req))")
  case True
  then show ?thesis using assms by (auto simp: register_user_def is_ok_iff split: sum.splits)
next
  case False
  then obtain u where u: "create_user env (urq_role req) (kwargs_of_user_request req) = Inr u" by (auto simp: is_ok_iff)
  have id: "us_user_id u = urq_user_id req \<and> us_active u = {}"
    by (rule create_user_ok [OF u]) (simp add: kwargs_of_user_request_def)
  have "get_user s (us_user_id u) = None" using False id by (simp add: user_exists_def get_user_def dget_None del: set_map)
  then have "lib_inv (save_user s u)" using new_user_lib_inv [OF assms] id by blast
  then show ?thesis using False u by (simp add: register_user_def)
qed

lemma register_service_lib_inv:
  assumes "lib_inv s" "\<forall>cid r c. get_copy s cid = Some (r, c) \<longrightarrow> Some (cp_book_isbn c) \<noteq> kw_isbn kw"
  shows "lib_inv (snd (register_book env s ft actor kw))"
proof -
  obtain x s' where run: "register_book env s ft actor kw = (x, s')" by fastforce
  show ?thesis
  proof (cases x)
    case (Inl e)
    then have "s' = s" using run by (auto simp: register_book_def Let_def split: sum.splits)
    then show ?thesis using assms run by simp
  next
    case (Inr b)
    note st = register_ok [OF run [unfolded Inr]]
    have "kw_isbn kw = Some (bk_isbn b)" by (rule create_book_ok [OF st(1)]) simp
    then have "ledger_inv s'" using assms by (intro register_ledger [OF _ run [unfolded Inr]]) (auto simp: lib_inv_def)
    moreover have "save_book s b = s\<lparr>rp_books := dset (rp_books s) (bk_isbn b) b\<rparr>"
      by (rule create_book_ok [OF st(1)]) (simp add: save_book_def Let_def)
    then have "rp_branches s' = rp_branches s"
      using run Inr st(1) by (auto simp: register_book_def Let_def lib_log_def lib_invalidate_def)
    ultimately show ?thesis using assms(1) st run by (simp add: lib_inv_def no_locks_def named_branches_def)
  qed
qed

lemma lib_inv_graph: "lib_inv t \<Longrightarrow> lib_inv (t\<lparr>lb_recommender := rc, lb_graph := g\<rparr>)"
  by (erule lib_inv_same) (simp_all add: same_repo_def)

lemma register_book_lib_inv:
  assumes "lib_inv s" "\<forall>cid r c. get_copy s cid = Some (r, c) \<longrightarrow> cp_book_isbn c \<noteq> brq_isbn req"
  shows "lib_inv (snd (register_route env s actor req))"
proof -
  obtain x s' where run: "register_book env s (brq_format_type req) actor (kwargs_of_request req) = (x, s')" by fastforce
  have "kw_isbn (kwargs_of_request req) = Some (brq_isbn req)" by (simp add: kwargs_of_request_def)
  then have "lib_inv s'"
    using register_service_lib_inv [OF assms(1), of "kwargs_of_request req" env "brq_format_type req" actor] assms(2) run by auto
  then show ?thesis using run lib_inv_graph by (auto simp: register_route_def split: sum.splits prod.splits)
qed

lemma register_copies_branches [simp]: "rp_branches (fold register_copy rs s) = rp_branches s"
  by (induction rs arbitrary: s) (simp_all add: register_copy_def split: option.splits)

lemma add_copy_branches: "rp_branches (snd (add_physical_copy env s isbn cid br sh price actor)) = rp_branches s"
  by (simp add: add_physical_copy_def Let_def save_book_def split: option.splits)

lemma add_copy_lib_inv:
  assumes "lib_inv s" "get_copy s cid = None"
  shows "lib_inv (snd (add_physical_copy env s isbn cid br sh price actor))"
proof -
  have i: "ledger_inv s" "repo_inv s" using assms by (auto simp: lib_inv_def dest: ledger_repo)
  obtain x s' where run: "add_physical_copy env s isbn cid br sh price actor = (x, s')" by fastforce
  show ?thesis
  proof (cases x)
    case (Inl e)
    then have "s' = s" using run by (auto simp: add_physical_copy_def Let_def split: option.splits if_splits)
    then show ?thesis using run assms by simp
  next
    case (Inr c)
    have "ledger_inv s'" by (rule add_copy_ledger [OF i(1) run [unfolded Inr] assms(2)])
    moreover have "rp_branches s' = rp_branches s" using add_copy_branches [of env s isbn cid br sh price actor] run by simp
    moreover have "rp_locks s' = rp_locks s \<and> lb_reservations s' = lb_reservations s \<and> lb_branch_mgr s' = lb_branch_mgr s"
      by (rule add_copy_ok [OF i(2) run [unfolded Inr]]) simp
    ultimately show ?thesis using run assms(1) by (simp add: lib_inv_def no_locks_def named_branches_def)
  qed
qed

lemma details_lib_inv: "lib_inv s \<Longrightarrow> lib_inv (snd (details_route env s isbn))"
proof -
  assume inv: "lib_inv s"
  have "lib_inv (s\<lparr>lb_cache := c\<rparr>)" for c by (rule lib_inv_same [OF inv]) (simp_all add: same_repo_def)
  then show ?thesis
    by (auto simp: details_route_def get_book_details_def split: prod.splits sum.splits option.splits)
qed

lemma risk_lib_inv: "lib_inv s \<Longrightarrow> lib_inv (snd (assess_user_theft_risk predict log1p env s uid))"
proof -
  assume inv: "lib_inv s"
  have "lib_inv (s\<lparr>lb_risk_breaker := c\<rparr>)" for c by (rule lib_inv_same [OF inv]) (simp_all add: same_repo_def)
  then show ?thesis using inv by (auto simp: assess_user_theft_risk_def split: option.splits prod.splits)
qed

text \<open>The idempotency layer runs the operation once or not at all.\<close>

lemma handle_library:
  "snd (snd (handle_idempotent_operation ck key st f code user s)) = s \<or>
   snd (snd (handle_idempotent_operation ck key st f code user s)) = snd (f s)"
  by (auto simp: handle_idempotent_operation_def Let_def split: prod.splits option.splits idem_data.splits bool.splits sum.splits)

lemma guarded_lib_inv:
  "lib_inv s \<Longrightarrow> (\<And>cl. lib_inv (snd (h cl s))) \<Longrightarrow> lib_inv (snd (guarded p caller h s))"
  by (simp add: guarded_def split: sum.splits)

lemma snd_sum_case: "snd (case p of (Inl e, s) \<Rightarrow> (Inl e, s) | (Inr x, s) \<Rightarrow> (f x s, s)) = snd p"
  by (cases p; cases "fst p") auto

lemma operations_state:
  "snd (issue_operation env cid uid days actor s) = snd (issue_physical_book env s cid uid actor days)"
  "snd (return_operation env cid late dam actor s) = snd (return_physical_book env s cid actor late dam)"
  "snd (pay_operation env uid amount m meta s) = snd (service_pay_fine env s uid amount m (Some meta))"
  by (auto simp: issue_operation_def return_operation_def pay_operation_def split: prod.splits sum.splits)

lemma issue_route_lib_inv: "lib_inv s \<Longrightarrow> lib_inv (snd (snd (issue_route ck env caller key cid uid days st s)))"
  by (auto simp: issue_route_def split: sum.splits) (metis handle_library issue_lib_inv operations_state(1))+

lemma return_route_lib_inv: "lib_inv s \<Longrightarrow> lib_inv (snd (snd (return_route ck env caller key cid late dam st s)))"
  by (auto simp: return_route_def split: sum.splits) (metis handle_library return_lib_inv operations_state(2))+

lemma pay_route_lib_inv: "lib_inv s \<Longrightarrow> lib_inv (snd (snd (pay_route ck env caller key uid amount m meta st s)))"
  by (auto simp: pay_route_def split: sum.splits) (metis handle_library pay_lib_inv operations_state(3))+

lemma guarded_state:
  "(\<And>cl. snd (h cl s) = t) \<Longrightarrow> snd (guarded p caller h s) = s \<or> snd (guarded p caller h s) = t"
  by (simp add: guarded_def split: sum.splits)

lemma drop_route_lib_inv:
  assumes "lib_inv s"
  shows "lib_inv (snd (allocation_drop_route env caller isbn s))"
proof -
  have "snd (allocation_drop_route env caller isbn s) = s \<or>
    snd (allocation_drop_route env caller isbn s) = snd (process_smart_allocation_drop env s isbn)"
    unfolding allocation_drop_route_def by (rule guarded_state) (simp add: case_prod_unfold split: sum.splits option.splits)
  then show ?thesis using assms drop_lib_inv by metis
qed

lemma complete_route_lib_inv:
  assumes "lib_inv s"
  shows "lib_inv (snd (complete_transfer_route env caller tid s))"
proof -
  have "lib_inv (snd (engine_complete_transfer (ev_now env) s tid))"
    using engine_complete_ledger [of s "ev_now env" tid] assms lib_inv_services unfolding lib_inv_def by blast
  moreover have "snd (complete_transfer_route env caller tid s) = s \<or>
    snd (complete_transfer_route env caller tid s) = snd (engine_complete_transfer (ev_now env) s tid)"
    unfolding complete_transfer_route_def by (rule guarded_state) (simp add: case_prod_unfold split: sum.splits option.splits)
  ultimately show ?thesis using assms by metis
qed

lemma rebalance_route_lib_inv:
  assumes "lib_inv s"
  shows "lib_inv (snd (rebalance_run_route hypot uuid env caller s))"
proof -
  let ?plan = "calculate_rebalancing_plan hypot (date_of (ev_now env)) s"
  let ?run = "execute_rebalancing_plan (ev_now env) (zip ?plan (map uuid [0..<length ?plan])) s"
  have "lib_inv (snd ?run)"
    using execute_ledger [of s "ev_now env"] assms lib_inv_services unfolding lib_inv_def by blast
  moreover have "snd (rebalance_run_route hypot uuid env caller s) = s \<or> snd (rebalance_run_route hypot uuid env caller s) = snd ?run"
    unfolding rebalance_run_route_def Let_def by (rule guarded_state) (simp add: case_prod_unfold split: sum.splits)
  ultimately show ?thesis using assms by metis
qed

lemma transfer_route_lib_inv:
  assumes "lib_inv s"
  shows "lib_inv (snd (transfer_route env caller cid dest who s))"
  unfolding transfer_route_def
proof (rule guarded_lib_inv [OF assms])
  show "lib_inv (snd (route_transfer_copy env s cid dest who (claim_sub cl)))" for cl
    using route_transfer_ledger [of s env cid dest who "claim_sub cl"] assms lib_inv_services unfolding lib_inv_def by blast
qed

lemma plain_routes_lib_inv:
  assumes "lib_inv s"
  shows "lib_inv (snd (reserve_route env caller isbn uid s))" "lib_inv (snd (allocation_request_route env caller isbn uid s))"
    "lib_inv (snd (book_details_route env caller isbn s))"
proof -
  have "snd (reserve_route env caller isbn uid s) = s \<or> snd (reserve_route env caller isbn uid s) = snd (route_reserve_book env s isbn uid)"
    unfolding reserve_route_def by (rule guarded_state) (simp add: case_prod_unfold)
  then show "lib_inv (snd (reserve_route env caller isbn uid s))" using assms reserve_lib_inv by metis
  have "snd (allocation_request_route env caller isbn uid s) = s \<or>
    snd (allocation_request_route env caller isbn uid s) = snd (request_smart_allocation env s isbn uid)"
    unfolding allocation_request_route_def by (rule guarded_state) (simp add: case_prod_unfold split: sum.splits)
  then show "lib_inv (snd (allocation_request_route env caller isbn uid s))" using assms allocate_lib_inv by metis
  show "lib_inv (snd (book_details_route env caller isbn s))"
    unfolding book_details_route_def by (intro guarded_lib_inv assms details_lib_inv)
qed

lemma register_book_route_lib_inv:
  assumes "lib_inv s" "\<forall>cid r c. get_copy s cid = Some (r, c) \<longrightarrow> cp_book_isbn c \<noteq> brq_isbn req"
  shows "lib_inv (snd (register_book_route env caller req s))"
  unfolding register_book_route_def
proof (rule guarded_lib_inv [OF assms(1)], goal_cases)
  case (1 cl)
  have "lib_inv (snd (register_route env s (case cl_sub cl of None \<Rightarrow> ''ADMIN'' | Some i \<Rightarrow> i) req))"
    by (rule register_book_lib_inv [OF assms])
  then show ?case by (simp add: case_prod_unfold split: sum.splits)
qed

lemma add_copy_route_lib_inv:
  assumes "lib_inv s" "get_copy s cid = None"
  shows "lib_inv (snd (add_copy_route env caller isbn cid br sh price s))"
  unfolding add_copy_route_def
proof (rule guarded_lib_inv [OF assms(1)], goal_cases)
  case (1 cl)
  have "lib_inv (snd (add_physical_copy env s isbn cid br sh price (case cl_sub cl of None \<Rightarrow> ''ADMIN'' | Some i \<Rightarrow> i)))"
    by (rule add_copy_lib_inv [OF assms])
  then show ?case by (simp add: case_prod_unfold split: sum.splits)
qed

lemma risk_route_lib_inv: "lib_inv s \<Longrightarrow> lib_inv (snd (risk_route predict log1p env caller uid s))"
  by (simp add: risk_route_def risk_lib_inv split: sum.splits)

lemma api_library_step_inv:
  assumes "lib_inv s" "fresh_ids s rq"
  shows "lib_inv (snd (api_library_step env caller rq st s))"
  using assms
  by (cases rq) (simp_all add: register_user_lib_inv issue_route_lib_inv return_route_lib_inv pay_route_lib_inv plain_routes_lib_inv
      drop_route_lib_inv register_book_route_lib_inv add_copy_route_lib_inv transfer_route_lib_inv rebalance_route_lib_inv
      complete_route_lib_inv risk_route_lib_inv)

text \<open>
  The states a server can reach that started with the given library: requests arrive in any order from any
  callers, authorised or not.
\<close>

inductive api_reachable :: "library \<Rightarrow> api_state \<Rightarrow> bool" for start where
  boot: "api_reachable start \<lparr>ap_library = start, ap_idem = new_idem_store ttl\<rparr>"
| request: "api_reachable start a \<Longrightarrow> fresh_ids (ap_library a) rq \<Longrightarrow> api_reachable start (api_step env caller rq a)"

lemma boot_lib_inv: "lib_inv build_in_memory_container"
proof -
  have "ledger_inv build_in_memory_container"
    using build_in_memory_inv by (simp add: ledger_inv_def holder_def loans_def get_copy_def get_user_def build_in_memory_container_def)
  then show ?thesis
    by (simp add: lib_inv_def named_branches_def no_locks_def mutex_locked_def new_lock_mgr_def new_branch_mgr_def build_in_memory_container_def)
qed

lemma reachable_lib_inv: "api_reachable start a \<Longrightarrow> lib_inv start \<Longrightarrow> lib_inv (ap_library a)"
proof (induction rule: api_reachable.induct)
  case (request a rq env caller)
  then show ?case using api_library_step_inv [OF request.IH [OF request.prems] request.hyps(2)] by (simp add: api_step_def case_prod_unfold)
qed simp

definition demo_api_env :: api_env where
  "demo_api_env = \<lparr>ae_call = demo_env, ae_clock = \<lparr>ck_lookup = 0, ck_start = 0, ck_end = 0\<rparr>, ae_user = plain_user_env,
     ae_hypot = (\<lambda>x y. x + y), ae_uuid = (\<lambda>_. ''u''), ae_predict = (\<lambda>_. Inr 0), ae_log1p = (\<lambda>_. 0)\<rparr>"

definition booted :: api_state where
  "booted = \<lparr>ap_library = build_in_memory_container, ap_idem = new_idem_store 86400\<rparr>"

section \<open>Authorisation and idempotency at the boundary\<close>

fun permission_of :: "api_request \<Rightarrow> string option" where
  "permission_of (RqRegisterUser _) = None"
| "permission_of (RqIssue _ _ _ _) = Some ''BOOK_ISSUE''"
| "permission_of (RqReturn _ _ _ _) = Some ''BOOK_RETURN''"
| "permission_of (RqPay _ _ _ _ _) = Some ''BILLING_PAY''"
| "permission_of (RqReserve _ _) = Some ''BOOK_RESERVE''"
| "permission_of (RqAllocate _ _) = Some ''BOOK_ALLOCATE''"
| "permission_of (RqDrop _) = Some ''BOOK_ALLOCATE''"
| "permission_of (RqRegisterBook _) = Some ''BOOK_MANAGE_INVENTORY''"
| "permission_of (RqAddCopy _ _ _ _ _) = Some ''BOOK_MANAGE_INVENTORY''"
| "permission_of (RqDetails _) = Some ''BOOK_SEARCH''"
| "permission_of (RqTransfer _ _ _) = Some ''BOOK_TRANSFER_INITIATE''"
| "permission_of RqRebalance = Some ''BRANCH_MANAGE''"
| "permission_of (RqComplete _) = Some ''BRANCH_MANAGE''"
| "permission_of (RqRisk _) = Some ''INTEL_RISK_ASSESSMENT''"

lemma route_defs_guarded:
  "require_permission p caller = Inl e \<Longrightarrow> guarded p caller h s = (Inl e, s)"
  by (simp add: guarded_def)

lemma refused_step:
  assumes "permission_of rq = Some p" "require_permission p caller = Inl e"
  shows "api_library_step env caller rq st s = (st, s)"
  using assms
  by (cases rq) (auto simp: issue_route_def return_route_def pay_route_def reserve_route_def allocation_request_route_def
      allocation_drop_route_def register_book_route_def add_copy_route_def book_details_route_def transfer_route_def
      rebalance_run_route_def complete_transfer_route_def risk_route_def route_defs_guarded)

text \<open>
  C8: a caller without the right changes nothing. Every request that can change the library, apart from
  registering oneself, names a permission; when the caller's token is missing, expired, invalid or of a role
  that does not hold this permission, the request leaves the library and the idempotency store untouched. In
  particular a token of a student or of a faculty member never issues or returns a copy, moves stock, manages
  the inventory, or pays a fine.
\<close>

theorem unauthorised_changes_nothing:
  assumes "permission_of rq = Some p" "\<And>cl. caller = Inr cl \<Longrightarrow> \<exists>u i e d. cl = token_payload i e u d \<and> \<not> has_permission u p"
  shows "api_step env caller rq a = a \<and>
    (\<forall>u. get_role u \<in> {STUDENT, FACULTY} \<longrightarrow>
       (\<forall>q \<in> {''BOOK_ISSUE'', ''BOOK_RETURN'', ''BOOK_TRANSFER_INITIATE'', ''BOOK_MANAGE_INVENTORY'', ''BOOK_ALLOCATE'', ''BILLING_PAY''}.
          \<not> has_permission u q))"
proof
  have "\<exists>e. require_permission p caller = Inl e"
  proof (cases caller)
    case (Inl e)
    then show ?thesis by (simp add: require_permission_def)
  next
    case (Inr cl)
    then obtain u i e d where "cl = token_payload i e u d" "\<not> has_permission u p" using assms(2) by blast
    then show ?thesis using Inr require_permission_payload [of p i e u d] by simp
  qed
  then obtain e where "require_permission p caller = Inl e" by blast
  then show "api_step env caller rq a = a" using refused_step [OF assms(1)] by (simp add: api_step_def)
qed (auto simp: has_permission_def get_permissions_def)

theorem unauthorised_changes_nothing_witness:
  "api_step demo_api_env (Inr (token_payload 0 0 (demo_student ''U1'') 3600)) (RqIssue None ''C1'' ''U1'' 14) booted = booted"
proof -
  have role: "get_role (demo_student ''U1'') = STUDENT" by (simp add: demo_student_def new_student_def get_role_def)
  have "\<not> has_permission (demo_student ''U1'') ''BOOK_ISSUE''" by (simp add: has_permission_def get_permissions_def role)
  then have 2: "\<exists>u i e d. cl = token_payload i e u d \<and> \<not> has_permission u ''BOOK_ISSUE''"
    if "Inr (token_payload 0 0 (demo_student ''U1'') 3600) = (Inr cl :: exn + claims)" for cl
    using that by blast
  have 1: "permission_of (RqIssue None ''C1'' ''U1'' 14) = Some ''BOOK_ISSUE''" by simp
  show ?thesis by (rule conjunct1 [OF unauthorised_changes_nothing [OF 1 2]])
qed

lemma completed_checkout:
  assumes "truthy key" "uid \<noteq> []" "dget (is_memory_store st) (make_key (the key) (Some uid)) = None"
    "issue_route ck env caller key cid uid days st s = (Inr body, st', s')" "now \<le> ck_end ck + is_ttl_seconds st"
  shows "idem_get now st' (the key) (Some uid) = (Some (COMPLETED 200 body), st')"
proof -
  obtain cl where cl: "require_permission ''BOOK_ISSUE'' caller = Inr cl" using assms(4) by (auto simp: issue_route_def split: sum.splits)
  let ?f = "issue_operation env cid uid days (claim_sub cl)"
  have run: "handle_idempotent_operation ck key st ?f 200 (Some uid) s = (Inr body, st', s')"
    using assms(2,4) cl by (simp add: issue_route_def)
  have miss: "idem_get (ck_lookup ck) st (the key) (Some uid) = (None, st)" by (simp add: idem_get_def Let_def assms(3))
  obtain st0 where st': "st' = set_completed (ck_end ck) st0 (the key) 200 body (Some uid)" "is_ttl_seconds st0 = is_ttl_seconds st"
    using handle_success [OF assms(1) run] miss by auto
  then show ?thesis using assms(5) idem_get_completed [of now "ck_end ck" st0 "the key" 200 body "Some uid"] by simp
qed

text \<open>
  A retried checkout is not a second loan. When a checkout request with an idempotency key succeeded, every
  repetition with that key for that user, from any authorised caller and whatever the library looks like by
  then, returns the recorded response and changes nothing, until the retention time of the store has passed.
\<close>

theorem checkout_retry_is_idempotent:
  assumes "truthy key" "uid \<noteq> []" "dget (is_memory_store st) (make_key (the key) (Some uid)) = None"
    "issue_route ck env caller key cid uid days st s = (Inr body, st', s')"
    "require_permission ''BOOK_ISSUE'' caller2 = Inr cl2" "ck_lookup ck2 \<le> ck_end ck + is_ttl_seconds st"
  shows "issue_route ck2 env2 caller2 key cid2 uid days2 st' s2 = (Inr body, st', s2)"
  using completed_checkout [OF assms(1-4,6)] assms(1,2,5) by (simp add: issue_route_def handle_idempotent_operation_def Let_def)

text \<open>
  C39: an idempotency key is not bound to its route. A payment that is sent under a key the same user has used
  for a checkout is answered with the response of the checkout, as a success, and no payment is made.
\<close>

theorem payment_swallowed_by_checkout_key:
  assumes "truthy key" "uid \<noteq> []" "dget (is_memory_store st) (make_key (the key) (Some uid)) = None"
    "issue_route ck env caller key cid uid days st s = (Inr body, st', s')"
    "require_permission ''BILLING_PAY'' caller2 = Inr cl2" "ck_lookup ck2 \<le> ck_end ck + is_ttl_seconds st"
  shows "pay_route ck2 env2 caller2 key uid amount m meta st' s2 = (Inr body, st', s2)"
  using completed_checkout [OF assms(1-4,6)] assms(1,2,5) by (simp add: pay_route_def handle_idempotent_operation_def Let_def)

definition demo_desk :: "exn + claims" where
  "demo_desk = Inr (token_payload 0 0 (new_librarian ''LIB'' ''N'' ''e'' (Some ''c'') ''h'' ''B1'') 3600)"

lemma demo_desk_permits:
  "require_permission ''BOOK_ISSUE'' demo_desk = demo_desk" "require_permission ''BILLING_PAY'' demo_desk = demo_desk"
  using require_permission_payload [of "''BOOK_ISSUE''" 0 0 "new_librarian ''LIB'' ''N'' ''e'' (Some ''c'') ''h'' ''B1''" 3600]
    require_permission_payload [of "''BILLING_PAY''" 0 0 "new_librarian ''LIB'' ''N'' ''e'' (Some ''c'') ''h'' ''B1''" 3600]
  by (simp_all add: demo_desk_def has_permission_def get_permissions_def get_role_def new_librarian_def)

lemma demo_issue_route:
  obtains body st' s' where "issue_route \<lparr>ck_lookup = 0, ck_start = 0, ck_end = 1\<rparr> demo_env demo_desk (Some ''k'') ''C1'' ''U1'' 14 (new_idem_store 60) demo_library =
    (Inr body, st', s')"
proof (rule demo_issue)
  fix tx s' assume run: "issue_physical_book demo_env demo_library ''C1'' ''U1'' ''LIB'' 14 = (Inr tx, s')"
  have sub: "claim_sub (token_payload 0 0 (new_librarian ''LIB'' ''N'' ''e'' (Some ''c'') ''h'' ''B1'') 3600) = ''LIB''"
    by (simp add: claim_sub_def token_payload_def new_librarian_def)
  show ?thesis
    using that run demo_desk_permits(1) sub
    by (simp add: issue_route_def demo_desk_def handle_idempotent_operation_def idem_get_def set_in_progress_def new_idem_store_def
        issue_operation_def Let_def)
qed

theorem checkout_retry_is_idempotent_witness:
  "\<exists>body st' s'. issue_route \<lparr>ck_lookup = 0, ck_start = 0, ck_end = 1\<rparr> demo_env demo_desk (Some ''k'') ''C1'' ''U1'' 14 (new_idem_store 60) demo_library =
      (Inr body, st', s') \<and>
    issue_route \<lparr>ck_lookup = 30, ck_start = 30, ck_end = 31\<rparr> demo_env demo_desk (Some ''k'') ''C1'' ''U1'' 14 st' s' = (Inr body, st', s')"
proof (rule demo_issue_route)
  fix body st' s'
  assume run: "issue_route \<lparr>ck_lookup = 0, ck_start = 0, ck_end = 1\<rparr> demo_env demo_desk (Some ''k'') ''C1'' ''U1'' 14 (new_idem_store 60) demo_library = (Inr body, st', s')"
  have 3: "dget (is_memory_store (new_idem_store 60)) (make_key (the (Some ''k'')) (Some ''U1'')) = None" by (simp add: new_idem_store_def)
  obtain cl where cl: "require_permission ''BOOK_ISSUE'' demo_desk = Inr cl" using demo_desk_permits by (simp add: demo_desk_def)
  have "issue_route \<lparr>ck_lookup = 30, ck_start = 30, ck_end = 31\<rparr> demo_env demo_desk (Some ''k'') ''C1'' ''U1'' 14 st' s' = (Inr body, st', s')"
    by (rule checkout_retry_is_idempotent [OF _ _ 3 run cl]) (simp_all add: new_idem_store_def)
  then show ?thesis using run by blast
qed

theorem payment_swallowed_by_checkout_key_witness:
  "\<exists>body st' s'. issue_route \<lparr>ck_lookup = 0, ck_start = 0, ck_end = 1\<rparr> demo_env demo_desk (Some ''k'') ''C1'' ''U1'' 14 (new_idem_store 60) demo_library =
      (Inr body, st', s') \<and>
    pay_route \<lparr>ck_lookup = 30, ck_start = 30, ck_end = 31\<rparr> demo_env demo_desk (Some ''k'') ''U1'' 50 ''UPI'' [] st' s' = (Inr body, st', s')"
proof (rule demo_issue_route)
  fix body st' s'
  assume run: "issue_route \<lparr>ck_lookup = 0, ck_start = 0, ck_end = 1\<rparr> demo_env demo_desk (Some ''k'') ''C1'' ''U1'' 14 (new_idem_store 60) demo_library = (Inr body, st', s')"
  have 3: "dget (is_memory_store (new_idem_store 60)) (make_key (the (Some ''k'')) (Some ''U1'')) = None" by (simp add: new_idem_store_def)
  obtain cl where cl: "require_permission ''BILLING_PAY'' demo_desk = Inr cl" using demo_desk_permits by (simp add: demo_desk_def)
  have "pay_route \<lparr>ck_lookup = 30, ck_start = 30, ck_end = 31\<rparr> demo_env demo_desk (Some ''k'') ''U1'' 50 ''UPI'' [] st' s' = (Inr body, st', s')"
    by (rule payment_swallowed_by_checkout_key [OF _ _ 3 run cl]) (simp_all add: new_idem_store_def)
  then show ?thesis using run by blast
qed

end
