(* ===== verification/Stale_Details.thy ===== *)
theory Stale_Details
  imports Api_Routes
begin

text \<open>
  The one way the cache of title details goes stale: a transfer changes a copy, through the transfer route,
  without dropping the cached details of its title, which \<^verbatim>\<open>libflow/services/circulation_service.py\<close> does for
  every checkout and return.
\<close>

lemma transfer_ok:
  assumes inv: "ledger_inv s" "named_branches s" and c: "get_copy s cid = Some (r, c)"
    and ok: "route_transfer_copy env s cid dest who caller = (Inr out, s')"
  obtains c' where "rp_heap s' = (rp_heap s)(r := Some c')" "rp_books s' = rp_books s" "lb_cache s' = lb_cache s"
    "copy_status c = AVAILABLE" "copy_status c' = IN_TRANSIT" "rp_copies s' = rp_copies s"
proof -
  obtain d where d: "repo_get_branch s dest = Some d" using ok by (auto simp: route_transfer_copy_def split: option.splits)
  let ?s1 = "s\<lparr>lb_branch_mgr := register_branch (lb_branch_mgr s) d\<rparr>"
  let ?bm = "if cp_branch_id c \<in> set (dkeys (bm_branches (lb_branch_mgr ?s1))) then lb_branch_mgr ?s1
      else case repo_get_branch ?s1 (cp_branch_id c) of Some source \<Rightarrow> register_branch (lb_branch_mgr ?s1) source | None \<Rightarrow> lb_branch_mgr ?s1"
  let ?by = "if truthy who then the who else caller"
  have nb1: "named_branches ?s1" by (rule named_register [OF inv(2) d])
  have nb: "named_branches (?s1\<lparr>lb_branch_mgr := ?bm\<rparr>)" using nb1 named_register [OF nb1] by (auto split: option.splits)
  obtain x bm where rq: "request_transfer (ev_now env) (ev_uuid8 env) ?bm c dest ?by = (x, bm)" by fastforce
  have c1: "get_copy ?s1 cid = Some (r, c)" using c by simp
  have run: "route_transfer_copy env s cid dest who caller = (case x of
      Inl e \<Rightarrow> (Inl e, ?s1\<lparr>lb_branch_mgr := bm\<rparr>)
    | Inr p \<Rightarrow> (case p of (t, c') \<Rightarrow> (Inr [(''status'', JStr ''SUCCESS''), (''transfer'', JObj (transfer_to_dict t))],
        save_copy (heap_put r c' (?s1\<lparr>lb_branch_mgr := bm\<rparr>)) r)))"
    unfolding route_transfer_copy_def d option.case Let_def c1 prod.case rq by (rule refl)
  obtain p where p: "x = Inr p" using ok run by (cases x) simp_all
  obtain t c' where x: "x = Inr (t, c')" unfolding p by (cases p) simp
  have s': "s' = save_copy (heap_put r c' (?s1\<lparr>lb_branch_mgr := bm\<rparr>)) r" using ok unfolding run x by simp
  note st = request_transfer_ok [OF rq [unfolded x]]
  have dest: "dest \<noteq> []" using request_dest [OF rq [unfolded x]] nb unfolding named_branches_def by fastforce
  have cc: "copy_consistent c" using inv(1) c unfolding ledger_inv_def by blast
  note con = started_consistent [OF rq [unfolded x] cc dest]
  have g: "get_copy (?s1\<lparr>lb_branch_mgr := bm\<rparr>) cid = Some (r, c)" "ledger_inv (?s1\<lparr>lb_branch_mgr := bm\<rparr>)" using c inv(1) by simp_all
  have "s' = heap_put r c' (?s1\<lparr>lb_branch_mgr := bm\<rparr>)" unfolding s' using move_copy(1) [OF g(2,1), of c'] con by simp
  then show ?thesis using st by (intro that [of c']) (simp_all add: heap_put_def)
qed

lemma heap_copies_eq:
  assumes "map f (heap_copies (h(r := Some c')) cs) = map f (heap_copies h cs)" "h r = Some c" "r \<in> set (dvalues cs)"
  shows "f c' = f c"
proof -
  have "map f (List.map_filter (h(r := Some c')) rs) = map f (List.map_filter h rs) \<Longrightarrow> r \<in> set rs \<Longrightarrow> f c' = f c" for rs
  proof (induction rs)
    case (Cons x rs)
    show ?case
    proof (cases "x = r")
      case True
      then show ?thesis using Cons.prems(1) assms(2) by (simp add: map_filter_simps)
    next
      case False
      then show ?thesis using Cons by (cases "h x") (simp_all add: map_filter_simps)
    qed
  qed simp
  then show ?thesis using assms(1,3) by (simp add: heap_copies_def)
qed

lemma details_differ:
  assumes "is_physical b" "h r = Some c" "r \<in> set (dvalues (copies_of b))" "copy_status c' \<noteq> copy_status c"
  shows "book_to_dict (h(r := Some c')) b \<noteq> book_to_dict h b"
proof
  assume eq: "book_to_dict (h(r := Some c')) b = book_to_dict h b"
  obtain w p cs where d: "bk_details b = PhysicalBook w p cs" using assms(1) by (cases "bk_details b") auto
  have get: "dget (book_to_dict k b) ''copies'' = Some (JList (map (\<lambda>c. JObj (copy_to_dict c)) (heap_copies k cs)))" for k
    by (simp add: book_to_dict_def d dict_update_def)
  have "map (\<lambda>c. JObj (copy_to_dict c)) (heap_copies (h(r := Some c')) cs) = map (\<lambda>c. JObj (copy_to_dict c)) (heap_copies h cs)"
    using get [of h] get [of "h(r := Some c')"] eq by simp
  moreover have "r \<in> set (dvalues cs)" using assms(3) d by (simp add: copies_of_def del: set_map)
  ultimately have "JObj (copy_to_dict c') = JObj (copy_to_dict c)"
    by (intro heap_copies_eq [where f = "\<lambda>c. JObj (copy_to_dict c)" and h = h and r = r and cs = cs, OF _ assms(2)])
  then have "copy_to_dict c' = copy_to_dict c" by simp
  then show False using assms(4) status_value_inj by (simp add: copy_to_dict_def)
qed

text \<open>
  C40: a transfer leaves the cached details of its title stale. If the details of the title are in the cache when
  one of its copies is sent to another branch, readers still get the old details until the entry expires after
  ten minutes: they show the copy as available although it is in transit and no checkout of it can succeed.
\<close>

theorem transfer_leaves_stale_details:
  assumes "ledger_inv s" "named_branches s" "cache_fresh s" "get_copy s cid = Some (r, c)" "get_book s (cp_book_isbn c) = Some b" "is_physical b"
    "dget (lc_cache (lb_cache s)) (details_key (cp_book_isbn c)) = Some e" "\<not> is_expired (of_int (ev_now env')) e"
    "route_transfer_copy env s cid dest who caller = (Inr out, s')"
  shows "fst (get_book_details env' s' (cp_book_isbn c)) = Inr (load_details s (cp_book_isbn c)) \<and>
    load_details s' (cp_book_isbn c) \<noteq> load_details s (cp_book_isbn c) \<and>
    (\<exists>c'. get_copy s' cid = Some (r, c') \<and> copy_status c' = IN_TRANSIT)"
proof (rule transfer_ok [OF assms(1,2,4,9)], goal_cases)
  case (1 c')
  let ?i = "cp_book_isbn c"
  have repo: "repo_inv s" by (rule ledger_repo [OF assms(1)])
  obtain d where e: "ce_value e = Some d" "load_details s ?i = Some d" using assms(3,7) unfolding cache_fresh_def by blast
  have "fst (get_book_details env' s' ?i) = Inr (Some d)"
    using assms(7,8) e(1) 1(3) by (simp add: get_book_details_def get_or_compute_def cache_get_def details_key_def)
  moreover have "load_details s' ?i \<noteq> load_details s ?i"
  proof -
    have db: "dget (rp_books s) ?i = Some b" using assms(5) by (simp add: get_book_def)
    have rc: "dget (rp_copies s) cid = Some r" "rp_heap s r = Some c" using assms(4) by (auto simp: get_copy_Some)
    then have "dget (copies_of b) cid = Some r" "dict_wf (copies_of b)" using repo db assms(6) unfolding repo_inv_def books_ok_def by simp_all
    then have "r \<in> set (dvalues (copies_of b))" using in_dvalues by metis
    then have "book_to_dict (rp_heap s') b \<noteq> book_to_dict (rp_heap s) b"
      unfolding 1(1) using 1(4,5) by (intro details_differ [where h = "rp_heap s" and r = r and c = c, OF assms(6) rc(2)]) (simp_all del: set_map)
    then show ?thesis using db 1(2) by (simp add: load_details_def get_book_def)
  qed
  moreover have "get_copy s' cid = Some (r, c')" using assms(4) 1(1,6) by (simp add: get_copy_Some)
  ultimately show ?thesis using e(2) 1(5) by auto
qed

text \<open>The small library with a second branch, after somebody looked at its title.\<close>

definition demo_branch :: library_branch where
  "demo_branch = \<lparr>br_branch_id = ''B2'', br_name = ''N'', br_city = ''C'', br_address = ''A'', br_phone = ''P'', br_latitude = 0, br_longitude = 0\<rparr>"

definition demo_two_branches :: library where
  "demo_two_branches = demo_library\<lparr>rp_branches := [(''B2'', demo_branch)]\<rparr>"

definition demo_read :: library where
  "demo_read = snd (get_book_details demo_env demo_two_branches ''I1'')"

lemma demo_read_inv: "ledger_inv demo_read" "named_branches demo_read" "cache_fresh demo_read"
proof -
  have same: "same_repo demo_library demo_two_branches" by (simp add: same_repo_def demo_two_branches_def)
  have "cache_fresh demo_two_branches"
    using demo_catalog by (simp add: catalog_inv_def cache_fresh_def demo_two_branches_def load_details_def get_book_def)
  then show "cache_fresh demo_read" unfolding demo_read_def by (rule cache_fresh_details)
  have same': "same_repo demo_two_branches demo_read" by (simp add: same_repo_def demo_read_def get_book_details_def case_prod_unfold)
  show "ledger_inv demo_read" using demo_ledger same_repo_ledger [OF same] same_repo_ledger [OF same'] by simp
  have "lb_branch_mgr demo_read = new_branch_mgr" "rp_branches demo_read = [(''B2'', demo_branch)]"
    by (simp_all add: demo_read_def get_book_details_def case_prod_unfold demo_two_branches_def demo_library_def build_in_memory_container_def)
  then show "named_branches demo_read" by (simp add: named_branches_def new_branch_mgr_def demo_branch_def)
qed

theorem transfer_leaves_stale_details_witness:
  "\<exists>out s'. route_transfer_copy demo_env demo_read ''C1'' ''B2'' None ''LIB'' = (Inr out, s') \<and>
     fst (get_book_details demo_env s' ''I1'') = Inr (load_details demo_read ''I1'') \<and> load_details s' ''I1'' \<noteq> load_details demo_read ''I1''"
proof -
  let ?c = "new_copy ''C1'' ''I1'' ''B1'' ''A1'' 500"
  have fields: "rp_heap demo_read = rp_heap demo_library" "rp_books demo_read = rp_books demo_library" "rp_copies demo_read = rp_copies demo_library"
    "rp_branches demo_read = [(''B2'', demo_branch)]" "lb_branch_mgr demo_read = new_branch_mgr"
    by (simp_all add: demo_read_def get_book_details_def case_prod_unfold demo_two_branches_def, simp add: demo_library_def build_in_memory_container_def)
  have c: "get_copy demo_read ''C1'' = Some (0, ?c)" by (simp add: get_copy_Some fields)
  have isbn: "cp_book_isbn ?c = ''I1''" by (simp add: new_copy_def)
  have b: "get_book demo_read (cp_book_isbn ?c) = Some (demo_book [0])" "is_physical (demo_book [0])"
    by (simp_all add: get_book_def fields isbn demo_book_def)
  have "lc_cache (lb_cache demo_two_branches) = []" "lc_capacity (lb_cache demo_two_branches) = 5000"
    by (simp_all add: demo_two_branches_def demo_library_def build_in_memory_container_def new_lru_def)
  moreover obtain d where "load_details demo_two_branches ''I1'' = Some d"
    by (simp add: load_details_def get_book_def demo_two_branches_def)
  ultimately have cached: "dget (lc_cache (lb_cache demo_read)) (details_key ''I1'') =
      Some (new_cache_entry (of_int (ev_now demo_env)) (details_key ''I1'') (load_details demo_two_branches ''I1'') (Some 600))"
    by (simp add: demo_read_def get_book_details_def get_or_compute_def cache_get_def cache_set_def Let_def details_key_def dpop_def)
  have live: "\<not> is_expired (of_int (ev_now demo_env)) (new_cache_entry (of_int (ev_now demo_env)) (details_key ''I1'') v (Some 600))" for v
    by (simp add: is_expired_def new_cache_entry_def)
  obtain out s' where run: "route_transfer_copy demo_env demo_read ''C1'' ''B2'' None ''LIB'' = (Inr out, s')"
    using c by (simp add: route_transfer_copy_def repo_get_branch_def fields Let_def register_branch_def new_branch_mgr_def demo_branch_def
        request_transfer_def new_copy_def copy_start_transfer_def set_state_def)
  have k: "details_key (cp_book_isbn ?c) = details_key ''I1''" unfolding isbn by (rule refl)
  have "fst (get_book_details demo_env s' (cp_book_isbn ?c)) = Inr (load_details demo_read (cp_book_isbn ?c)) \<and>
      load_details s' (cp_book_isbn ?c) \<noteq> load_details demo_read (cp_book_isbn ?c)"
    using transfer_leaves_stale_details [OF demo_read_inv c b cached [folded k] live [folded k] run] by blast
  then show ?thesis using run unfolding isbn by blast
qed

end
