(* ===== verification/Postgres_Mapping.thy ===== *)
theory Postgres_Mapping
  imports Factory Branch_Manager
begin

text \<open>
  The mapping helpers of \<^verbatim>\<open>libflow/storage/postgres.py\<close> between domain objects and the rows of
  \<^verbatim>\<open>libflow/storage/models.py\<close>. A nullable column, and a column that is read with \<open>or\<close>, is an option. The
  columns that no code of the program reads (\<open>created_at\<close>, the \<open>version\<close> of a copy, surrogate keys) are left to
  the database. The branch of a user is always written with a value, so it is a plain string here.

  A new row object only carries the attributes that were assigned to it, and the difference between an attribute
  that was assigned \<open>None\<close> and one that was not assigned matters when the object is merged into a stored row.
  For the role columns of a user, the only ones that are not always assigned, \<open>None\<close> is therefore a column that
  was not assigned and \<open>Some v\<close> one that was assigned \<open>v\<close>.
\<close>

section \<open>Rows\<close>

record book_row =
  bw_isbn :: string
  bw_title :: string
  bw_authors :: "string list option"
  bw_category :: string
  bw_publication_year :: int
  bw_publisher :: string
  bw_description :: string
  bw_rating :: py_float
  bw_difficulty_level :: string
  bw_keywords :: "string list option"
  bw_borrow_history_count :: "int option"
  bw_format :: string
  bw_weight_grams :: "int option"
  bw_page_count :: "int option"
  bw_download_url :: "string option"
  bw_file_size_mb :: "py_float option"
  bw_file_format :: "string option"
  bw_drm_protected :: "bool option"
  bw_max_concurrent_downloads :: "int option"
  bw_active_readers_count :: "int option"
  bw_stream_url :: "string option"
  bw_duration_minutes :: "int option"
  bw_narrator :: "string option"

record copy_row =
  cw_copy_id :: string
  cw_book_isbn :: string
  cw_branch_id :: string
  cw_shelf_location :: string
  cw_price :: py_float
  cw_status :: string
  cw_current_borrower_id :: "string option"
  cw_current_reserver_id :: "string option"
  cw_target_branch_id :: "string option"
  cw_borrow_count :: "int option"

record user_base =
  uw_user_id :: string
  uw_name :: string
  uw_email :: string
  uw_password_hash :: string
  uw_role :: string
  uw_max_borrow_limit :: int
  uw_branch_id :: string
  uw_active_borrowed_copy_ids :: "string list option"
  uw_borrow_history :: "borrow_entry list option"
  uw_active_reservations :: "string list option"
  uw_unpaid_fines_balance :: "py_float option"
  uw_security_deposit_balance :: "py_float option"
  uw_is_suspended :: "bool option"

text \<open>A stored row, and a row object with the role columns that were assigned to it.\<close>

record user_row = user_base +
  uw_academic_year :: "int option"
  uw_major :: "string option"
  uw_exam_date :: "string option"
  uw_department :: "string option"
  uw_staff_code :: "string option"

record user_model = user_base +
  um_academic_year :: "int option option"
  um_major :: "string option option"
  um_exam_date :: "string option option"
  um_department :: "string option option"
  um_staff_code :: "string option option"

record branch_row =
  lw_branch_id :: string
  lw_name :: string
  lw_city :: string
  lw_address :: string
  lw_phone :: string
  lw_latitude :: py_float
  lw_longitude :: py_float

section \<open>Books\<close>

definition format_to_name :: "book_format \<Rightarrow> string" where
  "format_to_name f = (case f of PHYSICAL \<Rightarrow> ''PHYSICAL'' | EBOOK \<Rightarrow> ''EBOOK'' | AUDIOBOOK \<Rightarrow> ''AUDIOBOOK'')"

definition book_to_model :: "book \<Rightarrow> book_row" where
  "book_to_model b =
     (let model = \<lparr>bw_isbn = bk_isbn b, bw_title = bk_title b, bw_authors = Some (bk_authors b),
        bw_category = bk_category b, bw_publication_year = bk_publication_year b, bw_publisher = bk_publisher b,
        bw_description = bk_description b, bw_rating = bk_rating b, bw_difficulty_level = bk_difficulty_level b,
        bw_keywords = Some (bk_keywords b), bw_borrow_history_count = Some (bk_borrow_history_count b),
        bw_format = format_to_name (get_format b), bw_weight_grams = None, bw_page_count = None,
        bw_download_url = None, bw_file_size_mb = None, bw_file_format = None, bw_drm_protected = None,
        bw_max_concurrent_downloads = None, bw_active_readers_count = None, bw_stream_url = None,
        bw_duration_minutes = None, bw_narrator = None\<rparr>
      in case bk_details b of
           PhysicalBook w p _ \<Rightarrow> model\<lparr>bw_weight_grams := Some w, bw_page_count := Some p\<rparr>
         | EBook url mb fmt drm max_downloads readers \<Rightarrow>
             model\<lparr>bw_download_url := Some url, bw_file_size_mb := Some mb, bw_file_format := Some fmt,
                   bw_drm_protected := Some drm, bw_max_concurrent_downloads := Some max_downloads,
                   bw_active_readers_count := Some readers\<rparr>
         | AudioBook url mins who \<Rightarrow>
             model\<lparr>bw_stream_url := Some url, bw_duration_minutes := Some mins, bw_narrator := Some who\<rparr>)"

definition or_list :: "'a list option \<Rightarrow> 'a list" where
  "or_list x = (case x of None \<Rightarrow> [] | Some xs \<Rightarrow> xs)"

definition or_bool :: "bool option \<Rightarrow> bool" where
  "or_bool x \<longleftrightarrow> x = Some True"

definition common_of_model :: "book_row \<Rightarrow> book_details \<Rightarrow> book" where
  "common_of_model m details =
     \<lparr>bk_isbn = bw_isbn m, bk_title = bw_title m, bk_authors = or_list (bw_authors m), bk_category = bw_category m,
      bk_publication_year = bw_publication_year m, bk_publisher = bw_publisher m, bk_description = bw_description m,
      bk_rating = bw_rating m, bk_difficulty_level = bw_difficulty_level m, bk_keywords = or_list (bw_keywords m),
      bk_borrow_history_count = 0, bk_details = details\<rparr>"

text \<open>The copies are handed over as objects: the identifier and the reference of each.\<close>

definition model_to_book :: "book_row \<Rightarrow> (string \<times> copy_ref) list \<Rightarrow> exn + book" where
  "model_to_book m copies =
     (let finish = (\<lambda>b. Inr (b\<lparr>bk_borrow_history_count := or_int (bw_borrow_history_count m) 0\<rparr>))
      in if bw_format m = format_value PHYSICAL then
           finish (foldl (\<lambda>b (copy_id, r). add_copy b copy_id r)
             (common_of_model m (PhysicalBook (or_int (bw_weight_grams m) 500) (or_int (bw_page_count m) 400) [])) copies)
         else if bw_format m = format_value EBOOK then
           finish (common_of_model m (EBook (or_str (bw_download_url m) []) (or_float (bw_file_size_mb m) 0)
             (or_str (bw_file_format m) ''PDF'') (or_bool (bw_drm_protected m))
             (or_int (bw_max_concurrent_downloads m) 100) (or_int (bw_active_readers_count m) 0)))
         else if bw_format m = format_value AUDIOBOOK then
           finish (common_of_model m (AudioBook (or_str (bw_stream_url m) []) (or_int (bw_duration_minutes m) 0)
             (or_str (bw_narrator m) ''Narrator'')))
         else Inl (ValueError (''Unknown book format in DB: '' @ bw_format m)))"

section \<open>Copies\<close>

definition copy_to_model :: "book_copy \<Rightarrow> copy_row" where
  "copy_to_model c =
     \<lparr>cw_copy_id = cp_copy_id c, cw_book_isbn = cp_book_isbn c, cw_branch_id = cp_branch_id c,
      cw_shelf_location = cp_shelf_location c, cw_price = cp_price c, cw_status = status_value (copy_status c),
      cw_current_borrower_id = cp_borrower c, cw_current_reserver_id = cp_reserver c,
      cw_target_branch_id = cp_target c, cw_borrow_count = Some (cp_borrow_count c)\<rparr>"

definition status_to_state :: "(string, book_copy_state) dict" where
  "status_to_state =
     [(status_value AVAILABLE, AvailableState), (status_value RESERVED, ReservedState),
      (status_value ISSUED, IssuedState), (status_value IN_TRANSIT, InTransitState),
      (status_value UNDER_REPAIR, UnderRepairState), (status_value LOST, LostState)]"

definition model_to_copy :: "copy_row \<Rightarrow> exn + book_copy" where
  "model_to_copy m =
     (let c = new_copy (cw_copy_id m) (cw_book_isbn m) (cw_branch_id m) (cw_shelf_location m) (cw_price m)
      in case dget status_to_state (cw_status m) of
           None \<Rightarrow> Inl (KeyError (cw_status m))
         | Some st \<Rightarrow>
             Inr ((set_state c st)\<lparr>cp_borrower := cw_current_borrower_id m, cp_reserver := cw_current_reserver_id m,
               cp_target := cw_target_branch_id m, cp_borrow_count := or_int (cw_borrow_count m) 0\<rparr>))"

section \<open>Users\<close>

text \<open>
  The list of the elements of a set comes in an order that the language does not fix; it is the parameter
  \<open>order\<close>. A user with the ADMIN role has no role columns.
\<close>

definition user_to_model :: "user_env \<Rightarrow> (string set \<Rightarrow> string list) \<Rightarrow> user \<Rightarrow> user_model" where
  "user_to_model env order u =
     (let model = \<lparr>uw_user_id = us_user_id u, uw_name = us_name u, uw_email = us_email u,
        uw_password_hash = us_password_hash u, uw_role = role_value (get_role u),
        uw_max_borrow_limit = us_max_borrow_limit u, uw_branch_id = us_branch_id u,
        uw_active_borrowed_copy_ids = Some (order (us_active u)), uw_borrow_history = Some (us_history u),
        uw_active_reservations = Some (order (us_active_reservations u)),
        uw_unpaid_fines_balance = Some (us_fines u), uw_security_deposit_balance = Some (us_security_deposit u),
        uw_is_suspended = Some (us_is_suspended u), um_academic_year = None, um_major = None, um_exam_date = None,
        um_department = None, um_staff_code = None\<rparr>
      in case us_details u of
           Student year maj exam \<Rightarrow>
             model\<lparr>um_academic_year := Some (Some year), um_major := Some (Some maj),
                   um_exam_date := Some (map_option (ue_isoformat env) exam)\<rparr>
         | Faculty dept \<Rightarrow> model\<lparr>um_department := Some dept\<rparr>
         | Librarian code \<Rightarrow> model\<lparr>um_staff_code := Some code\<rparr>
         | Admin \<Rightarrow> model)"

text \<open>
  The keyword arguments for the factory. The borrow limit of the row is among them in the source; the factory reads
  no such argument.
\<close>

definition kwargs_of_model :: "user_row \<Rightarrow> user_kwargs" where
  "kwargs_of_model m =
     (let kwargs = no_user_kwargs\<lparr>uk_user_id := Some (uw_user_id m), uk_name := Some (uw_name m),
            uk_email := Some (uw_email m), uk_password_hash := Some (uw_password_hash m), uk_branch_id := Some (uw_branch_id m)\<rparr>
      in if uw_role m = role_value STUDENT then
           kwargs\<lparr>uk_academic_year := Some (or_int (uw_academic_year m) 1),
                  uk_major := Some (or_str (uw_major m) ''Computer Science''),
                  uk_exam_date := map_option ExamText (uw_exam_date m)\<rparr>
         else if uw_role m = role_value FACULTY then kwargs\<lparr>uk_department := Some (uw_department m)\<rparr>
         else if uw_role m = role_value LIBRARIAN then kwargs\<lparr>uk_staff_code := Some (uw_staff_code m)\<rparr>
         else kwargs)"

definition model_to_user :: "user_env \<Rightarrow> user_row \<Rightarrow> exn + user" where
  "model_to_user env m =
     (case create_user env (uw_role m) (kwargs_of_model m) of
        Inl e \<Rightarrow> Inl e
      | Inr u \<Rightarrow>
          Inr (u\<lparr>us_active := set (or_list (uw_active_borrowed_copy_ids m)),
                 us_history := or_list (uw_borrow_history m),
                 us_active_reservations := set (or_list (uw_active_reservations m)),
                 us_fines := or_float (uw_unpaid_fines_balance m) 0,
                 us_security_deposit := or_float (uw_security_deposit_balance m) 0,
                 us_is_suspended := or_bool (uw_is_suspended m)\<rparr>))"

section \<open>Branches\<close>

definition branch_to_model :: "library_branch \<Rightarrow> branch_row" where
  "branch_to_model b =
     \<lparr>lw_branch_id = br_branch_id b, lw_name = br_name b, lw_city = br_city b, lw_address = br_address b,
      lw_phone = br_phone b, lw_latitude = br_latitude b, lw_longitude = br_longitude b\<rparr>"

definition model_to_branch :: "branch_row \<Rightarrow> library_branch" where
  "model_to_branch m =
     \<lparr>br_branch_id = lw_branch_id m, br_name = lw_name m, br_city = lw_city m, br_address = lw_address m,
      br_phone = lw_phone m, br_latitude = lw_latitude m, br_longitude = lw_longitude m\<rparr>"

section \<open>What survives a round trip\<close>

text \<open>
  The row after a row object is merged: assigned columns are overwritten, the others keep the stored value, or are
  empty in a new row. This is the documented behaviour of merging that the laws of a session refer to.
\<close>

definition kept :: "'r option \<Rightarrow> 'a option option \<Rightarrow> ('r \<Rightarrow> 'a option) \<Rightarrow> 'a option" where
  "kept old assigned column = get_arg assigned (case old of None \<Rightarrow> None | Some r \<Rightarrow> column r)"

definition merged_row :: "user_row option \<Rightarrow> user_model \<Rightarrow> user_row" where
  "merged_row old m =
     user_base.extend (user_base.truncate m)
       (user_row.fields (kept old (um_academic_year m) uw_academic_year) (kept old (um_major m) uw_major)
          (kept old (um_exam_date m) uw_exam_date) (kept old (um_department m) uw_department)
          (kept old (um_staff_code m) uw_staff_code))"

text \<open>The user and the book that are read back: the falsy values of some attributes become defaults.\<close>

definition restored_user :: "user \<Rightarrow> user" where
  "restored_user u =
     u\<lparr>us_max_borrow_limit := role_limit (get_role u),
       us_details := (case us_details u of
          Student year maj exam \<Rightarrow> Student (or_int (Some year) 1) (or_str (Some maj) ''Computer Science'') exam
        | d \<Rightarrow> d)\<rparr>"

definition restored_book :: "book \<Rightarrow> (string \<times> copy_ref) list \<Rightarrow> book" where
  "restored_book b copies =
     b\<lparr>bk_details := (case bk_details b of
          PhysicalBook w p _ \<Rightarrow> PhysicalBook (or_int (Some w) 500) (or_int (Some p) 400) (foldl (\<lambda>d (i, r). dset d i r) [] copies)
        | EBook url mb fmt drm max_downloads readers \<Rightarrow>
            EBook url mb (or_str (Some fmt) ''PDF'') drm (or_int (Some max_downloads) 100) readers
        | AudioBook url mins who \<Rightarrow> AudioBook url mins (or_str (Some who) ''Narrator''))\<rparr>"

lemmas or_defs = or_int_def or_float_def or_str_def or_list_def or_bool_def

lemma or_zero [simp]: "or_int (Some i) 0 = i" "or_float (Some x) 0 = x" "or_str (Some s) [] = s"
  "or_list (Some xs) = xs" "or_bool (Some b) = b"
  by (simp_all add: or_defs)

lemma merged_fields [simp]:
  "uw_user_id (merged_row old m) = uw_user_id m" "uw_name (merged_row old m) = uw_name m"
  "uw_email (merged_row old m) = uw_email m" "uw_password_hash (merged_row old m) = uw_password_hash m"
  "uw_role (merged_row old m) = uw_role m" "uw_branch_id (merged_row old m) = uw_branch_id m"
  "uw_active_borrowed_copy_ids (merged_row old m) = uw_active_borrowed_copy_ids m"
  "uw_borrow_history (merged_row old m) = uw_borrow_history m"
  "uw_active_reservations (merged_row old m) = uw_active_reservations m"
  "uw_unpaid_fines_balance (merged_row old m) = uw_unpaid_fines_balance m"
  "uw_security_deposit_balance (merged_row old m) = uw_security_deposit_balance m"
  "uw_is_suspended (merged_row old m) = uw_is_suspended m"
  by (simp_all add: merged_row_def kept_def user_base.defs user_row.defs)

lemma merged_assigned [simp]:
  "um_academic_year m = Some y \<Longrightarrow> uw_academic_year (merged_row old m) = y"
  "um_major m = Some j \<Longrightarrow> uw_major (merged_row old m) = j"
  "um_exam_date m = Some x \<Longrightarrow> uw_exam_date (merged_row old m) = x"
  "um_department m = Some d \<Longrightarrow> uw_department (merged_row old m) = d"
  "um_staff_code m = Some c \<Longrightarrow> uw_staff_code (merged_row old m) = c"
  by (simp_all add: merged_row_def kept_def user_base.defs user_row.defs)

lemma copy_roundtrip: "model_to_copy (copy_to_model c) = Inr c"
proof (cases c)
  case (fields cid isbn branch shelf price st borrower reserver target count)
  then show ?thesis
    by (cases st) (simp_all add: model_to_copy_def copy_to_model_def status_to_state_def copy_status_def set_state_def
        new_copy_def)
qed

lemma branch_roundtrip: "model_to_branch (branch_to_model b) = b"
  by (simp add: model_to_branch_def branch_to_model_def)

lemma add_copies_details:
  "is_physical b \<Longrightarrow>
   foldl (\<lambda>b (copy_id, r). add_copy b copy_id r) b copies =
     b\<lparr>bk_details := PhysicalBook (weight_grams (bk_details b)) (page_count (bk_details b))
         (foldl (\<lambda>d (i, r). dset d i r) (book_copies (bk_details b)) copies)\<rparr>"
proof (induction copies arbitrary: b)
  case Nil
  then show ?case by (cases "bk_details b") simp_all
next
  case (Cons x copies)
  obtain i r where x: "x = (i, r)" by (cases x)
  obtain w p cs where d: "bk_details b = PhysicalBook w p cs" using Cons.prems by (cases "bk_details b") simp_all
  have "add_copy b i r = b\<lparr>bk_details := PhysicalBook w p (dset cs i r)\<rparr>"
    using d by (simp add: add_copy_def with_copies_def copies_of_def)
  then show ?case using Cons.IH [of "add_copy b i r"] x d by simp
qed

lemma book_roundtrip: "model_to_book (book_to_model b) copies = Inr (restored_book b copies)"
  by (cases "bk_details b") (simp_all add: model_to_book_def Let_def book_to_model_def get_format_def format_to_name_def
      restored_book_def common_of_model_def add_copies_details)

lemma user_roundtrip:
  assumes order: "\<And>S. finite S \<Longrightarrow> set (order S) = S" and iso: "\<And>d. ue_fromisoformat env (ue_isoformat env d) = Inr d"
    and fin: "finite (us_active u)" "finite (us_active_reservations u)"
  shows "model_to_user env (merged_row old (user_to_model env order u)) = Inr (restored_user u)"
proof (cases "us_details u")
  case (Student year maj exam)
  then show ?thesis
    using fin by (cases exam) (simp_all del: role_value.simps add: model_to_user_def kwargs_of_model_def user_to_model_def Let_def get_role_def create_user_def
        no_user_kwargs_def exam_of_arg_def iso new_student_def new_user_def order restored_user_def role_limit_def)
qed (use fin in \<open>simp_all del: role_value.simps add: model_to_user_def kwargs_of_model_def user_to_model_def Let_def get_role_def create_user_def
        no_user_kwargs_def new_role_defs new_user_def order restored_user_def role_limit_def\<close>)

end
