(* ===== verification/Postgres_Repository.thy ===== *)
theory Postgres_Repository
  imports Postgres_Mapping "HOL-Library.Multiset"
begin

text \<open>
  The Postgres repositories of \<^verbatim>\<open>libflow/storage/postgres.py\<close>. SQLAlchemy is not part of the repository: the
  engine, its sessions and the queries are the fields of the record \<open>engine\<close>, every one of which may raise, and
  \<open>engine_laws\<close> states what the repositories rely on when a call does not raise. The state \<open>'db\<close> is the committed
  database, \<open>'s\<close> a session with its unit of work.

  The objects that a lookup builds are new objects: a book that is read comes with a heap of its own copies.
\<close>

section \<open>The database library\<close>

text \<open>
  The calls on one mapped class: \<open>s.get\<close>, \<open>s.scalars(select(...).where(...))\<close>, the same query with
  \<open>with_for_update()\<close> and \<open>one_or_none()\<close>, \<open>s.add\<close>, \<open>s.merge\<close>, the assignment of every attribute of a loaded object, and \<open>s.delete\<close>.
\<close>

record ('s, 'm, 'r) table =
  t_get :: "'s \<Rightarrow> string \<Rightarrow> exn + 'r option"
  t_select :: "'s \<Rightarrow> ('r \<Rightarrow> bool) \<Rightarrow> exn + 'r list"
  t_lock_one :: "'s \<Rightarrow> ('r \<Rightarrow> bool) \<Rightarrow> exn + 'r option"
  t_add :: "'s \<Rightarrow> 'm \<Rightarrow> exn + 's"
  t_merge :: "'s \<Rightarrow> 'm \<Rightarrow> exn + 's"
  t_assign :: "'s \<Rightarrow> 'm \<Rightarrow> exn + 's"
  t_delete :: "'s \<Rightarrow> string \<Rightarrow> exn + 's"

record record_row =
  rw_transaction_id :: json
  rw_type :: json
  rw_copy_id :: json
  rw_isbn :: json
  rw_user_id :: json
  rw_borrowed_at :: json
  rw_due_date :: json
  rw_returned_at :: json
  rw_is_late :: bool
  rw_is_damaged :: bool

record ('db, 's) engine =
  en_create_session :: "'db \<Rightarrow> 's"
  en_commit :: "'s \<Rightarrow> 'db \<Rightarrow> exn + 'db"
  en_rollback :: "'s \<Rightarrow> 's"
  en_books :: "('s, book_row, book_row) table"
  en_copies :: "('s, copy_row, copy_row) table"
  en_users :: "('s, user_model, user_row) table"
  en_branches :: "('s, branch_row, branch_row) table"
  en_records :: "('s, record_row, record_row) table"

section \<open>Sessions\<close>

text \<open>
  Every method takes an optional session. Without one it opens a session on the database, commits at the end and
  closes it; with one it joins the transaction of its caller, which it rolls back when it raises.
\<close>

datatype ('db, 's) conn = Own 'db | Given 's

fun in_session :: "('db, 's) engine \<Rightarrow> ('s \<Rightarrow> (exn + 'a) \<times> 's) \<Rightarrow> ('db, 's) conn \<Rightarrow> (exn + 'a) \<times> ('db, 's) conn" where
  "in_session en body (Own db) =
     (case body (en_create_session en db) of
        (Inl e, s) \<Rightarrow> (Inl e, Own db)
      | (Inr x, s) \<Rightarrow> (case en_commit en s db of Inl e \<Rightarrow> (Inl e, Own db) | Inr db' \<Rightarrow> (Inr x, Own db')))"
| "in_session en body (Given s) =
     (case body s of
        (Inl e, s) \<Rightarrow> (Inl e, Given (en_rollback en s))
      | (Inr x, s) \<Rightarrow> (Inr x, Given s))"

definition reads :: "('s \<Rightarrow> exn + 'a) \<Rightarrow> 's \<Rightarrow> (exn + 'a) \<times> 's" where
  "reads f s = (f s, s)"

definition writes :: "('s \<Rightarrow> exn + 's) \<Rightarrow> 's \<Rightarrow> (exn + unit) \<times> 's" where
  "writes f s = (case f s of Inl e \<Rightarrow> (Inl e, s) | Inr s' \<Rightarrow> (Inr (), s'))"

fun collect :: "(exn + 'a) list \<Rightarrow> exn + 'a list" where
  "collect [] = Inr []"
| "collect (Inl e # xs) = Inl e"
| "collect (Inr x # xs) = (case collect xs of Inl e \<Rightarrow> Inl e | Inr ys \<Rightarrow> Inr (x # ys))"

definition map_ok :: "('a \<Rightarrow> exn + 'b) \<Rightarrow> exn + 'a \<Rightarrow> exn + 'b" where
  "map_ok f r = (case r of Inl e \<Rightarrow> Inl e | Inr x \<Rightarrow> f x)"

section \<open>Books and copies\<close>

fun merge_copies :: "('db, 's) engine \<Rightarrow> book_copy list \<Rightarrow> 's \<Rightarrow> exn + 's" where
  "merge_copies en [] s = Inr s"
| "merge_copies en (c # cs) s = map_ok (merge_copies en cs) (t_merge (en_copies en) s (copy_to_model c))"

definition pg_save_book :: "('db, 's) engine \<Rightarrow> copy_heap \<Rightarrow> book \<Rightarrow> ('db, 's) conn \<Rightarrow> (exn + unit) \<times> ('db, 's) conn" where
  "pg_save_book en h b = in_session en (writes (\<lambda>s.
     map_ok (\<lambda>existing.
       map_ok (\<lambda>s. if is_physical b then merge_copies en (heap_copies h (copies_of b)) s else Inr s)
         (if existing \<noteq> None then t_assign (en_books en) s (book_to_model b)
          else t_add (en_books en) s (book_to_model b)))
       (t_get (en_books en) s (bk_isbn b))))"

text \<open>The heap of the copies a lookup built, the reference of a copy being its position.\<close>

definition heap_of :: "book_copy list \<Rightarrow> copy_heap" where
  "heap_of cs r = (if r < length cs then Some (cs ! r) else None)"

definition copy_refs :: "book_copy list \<Rightarrow> (string \<times> copy_ref) list" where
  "copy_refs cs = zip (map cp_copy_id cs) [0..<length cs]"

definition pg_get_book ::
  "('db, 's) engine \<Rightarrow> string \<Rightarrow> ('db, 's) conn \<Rightarrow> (exn + (book \<times> copy_heap) option) \<times> ('db, 's) conn" where
  "pg_get_book en isbn = in_session en (reads (\<lambda>s.
     map_ok (\<lambda>row. case row of
         None \<Rightarrow> Inr None
       | Some model \<Rightarrow>
           map_ok (\<lambda>copies. map_ok (\<lambda>b. Inr (Some (b, heap_of copies))) (model_to_book model (copy_refs copies)))
             (map_ok (\<lambda>rows. collect (map model_to_copy rows)) (t_select (en_copies en) s (\<lambda>c. cw_book_isbn c = isbn))))
       (t_get (en_books en) s isbn)))"

definition pg_list_books :: "('db, 's) engine \<Rightarrow> ('db, 's) conn \<Rightarrow> (exn + book list) \<times> ('db, 's) conn" where
  "pg_list_books en = in_session en (reads (\<lambda>s.
     map_ok (\<lambda>rows. collect (map (\<lambda>m. model_to_book m []) rows)) (t_select (en_books en) s (\<lambda>_. True))))"

definition pg_delete_book :: "('db, 's) engine \<Rightarrow> string \<Rightarrow> ('db, 's) conn \<Rightarrow> (exn + unit) \<times> ('db, 's) conn" where
  "pg_delete_book en isbn = in_session en (writes (\<lambda>s.
     map_ok (\<lambda>row. case row of None \<Rightarrow> Inr s | Some _ \<Rightarrow> t_delete (en_books en) s isbn) (t_get (en_books en) s isbn)))"

definition pg_save_copy :: "('db, 's) engine \<Rightarrow> book_copy \<Rightarrow> ('db, 's) conn \<Rightarrow> (exn + unit) \<times> ('db, 's) conn" where
  "pg_save_copy en c = in_session en (writes (\<lambda>s. t_merge (en_copies en) s (copy_to_model c)))"

definition optional :: "('r \<Rightarrow> exn + 'a) \<Rightarrow> 'r option \<Rightarrow> exn + 'a option" where
  "optional f row = (case row of None \<Rightarrow> Inr None | Some r \<Rightarrow> map_ok (\<lambda>x. Inr (Some x)) (f r))"

definition pg_get_copy :: "('db, 's) engine \<Rightarrow> string \<Rightarrow> ('db, 's) conn \<Rightarrow> (exn + book_copy option) \<times> ('db, 's) conn" where
  "pg_get_copy en copy_id = in_session en (reads (\<lambda>s. map_ok (optional model_to_copy) (t_get (en_copies en) s copy_id)))"

definition pg_list_copies :: "('db, 's) engine \<Rightarrow> ('db, 's) conn \<Rightarrow> (exn + book_copy list) \<times> ('db, 's) conn" where
  "pg_list_copies en = in_session en (reads (\<lambda>s.
     map_ok (\<lambda>rows. collect (map model_to_copy rows)) (t_select (en_copies en) s (\<lambda>_. True))))"

definition pg_count_copies_for_isbn :: "('db, 's) engine \<Rightarrow> string \<Rightarrow> ('db, 's) conn \<Rightarrow> (exn + nat) \<times> ('db, 's) conn" where
  "pg_count_copies_for_isbn en isbn = in_session en (reads (\<lambda>s.
     map_ok (\<lambda>rows. Inr (length rows)) (t_select (en_copies en) s (\<lambda>c. cw_book_isbn c = isbn))))"

text \<open>
  The mutation block of a copy: a transaction that first locks the row of the copy. The block gets the session and
  hands it to the repositories it calls. What the block changes in the memory of the process, the state \<open>'p\<close>, is
  not part of the transaction.
\<close>

definition pg_locking_section ::
  "('db, 's) engine \<Rightarrow> string \<Rightarrow> ('s \<Rightarrow> 'p \<Rightarrow> (exn + 'a) \<times> 's \<times> 'p) \<Rightarrow> 'db \<Rightarrow> 'p \<Rightarrow> (exn + 'a) \<times> 'db \<times> 'p" where
  "pg_locking_section en copy_id body db p =
     (let s = en_create_session en db
      in case t_lock_one (en_copies en) s (\<lambda>c. cw_copy_id c = copy_id) of
           Inl e \<Rightarrow> (Inl e, db, p)
         | Inr None \<Rightarrow> (Inl (CopyNotFoundError copy_id), db, p)
         | Inr (Some _) \<Rightarrow>
             (case body s p of
                (Inl e, s, p) \<Rightarrow> (Inl e, db, p)
              | (Inr x, s, p) \<Rightarrow> (case en_commit en s db of Inl e \<Rightarrow> (Inl e, db, p) | Inr db' \<Rightarrow> (Inr x, db', p))))"

section \<open>Users, branches and circulation records\<close>

definition pg_save_user ::
  "('db, 's) engine \<Rightarrow> user_env \<Rightarrow> (string set \<Rightarrow> string list) \<Rightarrow> user \<Rightarrow> ('db, 's) conn \<Rightarrow> (exn + unit) \<times> ('db, 's) conn" where
  "pg_save_user en env order u = in_session en (writes (\<lambda>s. t_merge (en_users en) s (user_to_model env order u)))"

definition pg_get_user ::
  "('db, 's) engine \<Rightarrow> user_env \<Rightarrow> string \<Rightarrow> bool \<Rightarrow> ('db, 's) conn \<Rightarrow> (exn + user option) \<times> ('db, 's) conn" where
  "pg_get_user en env user_id for_update = in_session en (reads (\<lambda>s.
     map_ok (optional (model_to_user env))
       (if for_update then t_lock_one (en_users en) s (\<lambda>m. uw_user_id m = user_id)
        else t_get (en_users en) s user_id)))"

definition pg_list_users :: "('db, 's) engine \<Rightarrow> user_env \<Rightarrow> ('db, 's) conn \<Rightarrow> (exn + user list) \<times> ('db, 's) conn" where
  "pg_list_users en env = in_session en (reads (\<lambda>s.
     map_ok (\<lambda>rows. collect (map (model_to_user env) rows)) (t_select (en_users en) s (\<lambda>_. True))))"

definition pg_user_exists :: "('db, 's) engine \<Rightarrow> string \<Rightarrow> ('db, 's) conn \<Rightarrow> (exn + bool) \<times> ('db, 's) conn" where
  "pg_user_exists en user_id = in_session en (reads (\<lambda>s.
     map_ok (\<lambda>row. Inr (row \<noteq> None)) (t_get (en_users en) s user_id)))"

definition pg_save_branch :: "('db, 's) engine \<Rightarrow> library_branch \<Rightarrow> ('db, 's) conn \<Rightarrow> (exn + unit) \<times> ('db, 's) conn" where
  "pg_save_branch en b = in_session en (writes (\<lambda>s. t_merge (en_branches en) s (branch_to_model b)))"

definition pg_get_branch :: "('db, 's) engine \<Rightarrow> string \<Rightarrow> ('db, 's) conn \<Rightarrow> (exn + library_branch option) \<times> ('db, 's) conn" where
  "pg_get_branch en branch_id = in_session en (reads (\<lambda>s.
     map_ok (optional (\<lambda>m. Inr (model_to_branch m))) (t_get (en_branches en) s branch_id)))"

definition pg_list_branches :: "('db, 's) engine \<Rightarrow> ('db, 's) conn \<Rightarrow> (exn + library_branch list) \<times> ('db, 's) conn" where
  "pg_list_branches en = in_session en (reads (\<lambda>s.
     map_ok (\<lambda>rows. Inr (map model_to_branch rows)) (t_select (en_branches en) s (\<lambda>_. True))))"

text \<open>The truth value of a JSON value, for the two flags of a record.\<close>

fun json_truthy :: "json \<Rightarrow> bool" where
  "json_truthy JNull \<longleftrightarrow> False"
| "json_truthy (JBool b) \<longleftrightarrow> b"
| "json_truthy (JInt i) \<longleftrightarrow> i \<noteq> 0"
| "json_truthy (JFloat x) \<longleftrightarrow> x \<noteq> 0"
| "json_truthy (JStr s) \<longleftrightarrow> s \<noteq> []"
| "json_truthy (JList xs) \<longleftrightarrow> xs \<noteq> []"
| "json_truthy (JObj d) \<longleftrightarrow> d \<noteq> []"

definition record_to_row :: "(string, json) dict \<Rightarrow> record_row" where
  "record_to_row rec =
     \<lparr>rw_transaction_id = dget_default rec ''transaction_id'' (JStr []), rw_type = dget_default rec ''type'' (JStr []),
      rw_copy_id = dget_default rec ''copy_id'' (JStr []), rw_isbn = dget_default rec ''isbn'' (JStr []),
      rw_user_id = dget_default rec ''user_id'' (JStr []), rw_borrowed_at = dget_default rec ''borrowed_at'' JNull,
      rw_due_date = dget_default rec ''due_date'' JNull, rw_returned_at = dget_default rec ''returned_at'' JNull,
      rw_is_late = json_truthy (dget_default rec ''is_late'' (JBool False)),
      rw_is_damaged = json_truthy (dget_default rec ''is_damaged'' (JBool False))\<rparr>"

definition row_to_dict :: "record_row \<Rightarrow> (string, json) dict" where
  "row_to_dict row =
     [(''transaction_id'', rw_transaction_id row), (''type'', rw_type row), (''copy_id'', rw_copy_id row),
      (''isbn'', rw_isbn row), (''user_id'', rw_user_id row), (''borrowed_at'', rw_borrowed_at row),
      (''due_date'', rw_due_date row), (''returned_at'', rw_returned_at row), (''is_late'', JBool (rw_is_late row)),
      (''is_damaged'', JBool (rw_is_damaged row))]"

definition pg_save_record :: "('db, 's) engine \<Rightarrow> (string, json) dict \<Rightarrow> ('db, 's) conn \<Rightarrow> (exn + unit) \<times> ('db, 's) conn" where
  "pg_save_record en rec = in_session en (writes (\<lambda>s. t_add (en_records en) s (record_to_row rec)))"

definition pg_list_records :: "('db, 's) engine \<Rightarrow> ('db, 's) conn \<Rightarrow> (exn + (string, json) dict list) \<times> ('db, 's) conn" where
  "pg_list_records en = in_session en (reads (\<lambda>s.
     map_ok (\<lambda>rows. Inr (map row_to_dict rows)) (t_select (en_records en) s (\<lambda>_. True))))"

definition pg_count :: "('db, 's) engine \<Rightarrow> ('db, 's) conn \<Rightarrow> (exn + nat) \<times> ('db, 's) conn" where
  "pg_count en = in_session en (reads (\<lambda>s. map_ok (\<lambda>rows. Inr (length rows)) (t_select (en_records en) s (\<lambda>_. True))))"

section \<open>What the repositories rely on\<close>

text \<open>
  The contents of a database, and what a session shows of it: the rows of each table under their primary key. The laws
  are the documented behaviour of the calls when they do not raise: a new session starts from the committed contents;
  a commit of the only open session publishes what the session shows; a query returns the matching rows, in any order,
  and a query for one row returns a matching row if there is one;
  a row object that is added, merged or assigned to a loaded object becomes the row of its key, where merging keeps
  the columns that were not assigned; deleting a book deletes its copies (\<open>ondelete="CASCADE"\<close>).
\<close>

record tables =
  tb_books :: "(string, book_row) dict"
  tb_copies :: "(string, copy_row) dict"
  tb_users :: "(string, user_row) dict"
  tb_branches :: "(string, branch_row) dict"
  tb_records :: "record_row list"

definition row_keyed :: "('r \<Rightarrow> string) \<Rightarrow> (string, 'r) dict \<Rightarrow> bool" where
  "row_keyed key d \<longleftrightarrow> dict_wf d \<and> (\<forall>p \<in> set d. key (snd p) = fst p)"

definition tables_ok :: "tables \<Rightarrow> bool" where
  "tables_ok t \<longleftrightarrow> row_keyed bw_isbn (tb_books t) \<and> row_keyed cw_copy_id (tb_copies t) \<and>
     row_keyed uw_user_id (tb_users t) \<and> row_keyed lw_branch_id (tb_branches t)"

definition query_laws :: "('s, 'm, 'r) table \<Rightarrow> ('s \<Rightarrow> (string, 'r) dict) \<Rightarrow> bool" where
  "query_laws t rows \<longleftrightarrow>
     (\<forall>s k r. t_get t s k = Inr r \<longrightarrow> r = dget (rows s) k) \<and>
     (\<forall>s P rs. t_select t s P = Inr rs \<longrightarrow> mset rs = mset (filter P (dvalues (rows s)))) \<and>
     (\<forall>s P r. t_lock_one t s P = Inr r \<longrightarrow>
        (case r of None \<Rightarrow> \<forall>x \<in> set (dvalues (rows s)). \<not> P x | Some x \<Rightarrow> x \<in> set (dvalues (rows s)) \<and> P x))"

definition store_laws ::
  "('s, 'm, 'r) table \<Rightarrow> ('s \<Rightarrow> tables) \<Rightarrow> (((string, 'r) dict \<Rightarrow> (string, 'r) dict) \<Rightarrow> tables \<Rightarrow> tables) \<Rightarrow>
   ('m \<Rightarrow> string) \<Rightarrow> ('r option \<Rightarrow> 'm \<Rightarrow> 'r) \<Rightarrow> bool" where
  "store_laws t sv upd key merged \<longleftrightarrow>
     (\<forall>s m s'. t_merge t s m = Inr s' \<or> t_add t s m = Inr s' \<or> t_assign t s m = Inr s' \<longrightarrow>
        sv s' = upd (\<lambda>d. dset d (key m) (merged (dget d (key m)) m)) (sv s))"

abbreviation replaced :: "'r option \<Rightarrow> 'r \<Rightarrow> 'r" where
  "replaced old m \<equiv> m"

definition engine_laws :: "('db, 's) engine \<Rightarrow> ('s \<Rightarrow> tables) \<Rightarrow> ('db \<Rightarrow> tables) \<Rightarrow> bool" where
  "engine_laws en sv dv \<longleftrightarrow>
     (\<forall>db. sv (en_create_session en db) = dv db) \<and> (\<forall>s db db'. en_commit en s db = Inr db' \<longrightarrow> dv db' = sv s) \<and>
     (\<forall>s. tables_ok (sv s)) \<and>
     query_laws (en_books en) (\<lambda>s. tb_books (sv s)) \<and> query_laws (en_copies en) (\<lambda>s. tb_copies (sv s)) \<and>
     query_laws (en_users en) (\<lambda>s. tb_users (sv s)) \<and> query_laws (en_branches en) (\<lambda>s. tb_branches (sv s)) \<and>
     store_laws (en_books en) sv tb_books_update bw_isbn replaced \<and>
     store_laws (en_copies en) sv tb_copies_update cw_copy_id replaced \<and>
     store_laws (en_users en) sv tb_users_update uw_user_id merged_row \<and>
     store_laws (en_branches en) sv tb_branches_update lw_branch_id replaced \<and>
     (\<forall>s i s'. t_delete (en_books en) s i = Inr s' \<longrightarrow>
        sv s' = (sv s)\<lparr>tb_books := dpop (tb_books (sv s)) i,
                       tb_copies := filter (\<lambda>(k, c). cw_book_isbn c \<noteq> i) (tb_copies (sv s))\<rparr>) \<and>
     (\<forall>s m s'. t_add (en_records en) s m = Inr s' \<longrightarrow> sv s' = (sv s)\<lparr>tb_records := tb_records (sv s) @ [m]\<rparr>) \<and>
     (\<forall>s P rs. t_select (en_records en) s P = Inr rs \<longrightarrow> mset rs = mset (filter P (tb_records (sv s))))"

section \<open>Reading and writing in a session of one's own\<close>

lemma map_ok_Inr: "map_ok f r = Inr y \<longleftrightarrow> (\<exists>x. r = Inr x \<and> f x = Inr y)"
  by (cases r) (auto simp: map_ok_def)

lemma collect_Inr: "collect xs = Inr ys \<longleftrightarrow> xs = map Inr ys"
proof (induction xs arbitrary: ys rule: collect.induct)
  case (3 x xs)
  show ?case
  proof (cases "collect xs")
    case (Inl e)
    then have "xs \<noteq> map Inr zs" for zs using 3 [of zs] by simp
    with Inl show ?thesis by (cases ys) simp_all
  next
    case (Inr zs)
    then have "xs = map Inr zs" using 3 [of zs] by simp
    moreover have "map Inr zs = map Inr vs \<longleftrightarrow> zs = vs" for vs :: "'a list" by (rule inj_map_eq_map) simp
    ultimately show ?thesis using Inr by (cases ys) auto
  qed
qed auto

lemma own_read:
  assumes "in_session en (reads f) (Own db) = (Inr x, c)"
  shows "f (en_create_session en db) = Inr x"
  using assms by (auto simp: reads_def split: sum.splits)

lemma own_write:
  assumes "in_session en (writes f) (Own db) = (Inr x, Own db')"
  obtains s where "f (en_create_session en db) = Inr s" "en_commit en s db = Inr db'"
  using assms by (auto simp: writes_def split: sum.splits)

lemma query_lawsD:
  assumes "query_laws t rows"
  shows "t_get t s k = Inr r \<Longrightarrow> r = dget (rows s) k"
    "t_select t s P = Inr rs \<Longrightarrow> mset rs = mset (filter P (dvalues (rows s)))"
    "t_lock_one t s P = Inr w \<Longrightarrow> (case w of None \<Rightarrow> \<forall>x \<in> set (dvalues (rows s)). \<not> P x | Some x \<Rightarrow> x \<in> set (dvalues (rows s)) \<and> P x)"
  using assms by (simp_all add: query_laws_def)

lemma engine_lawsD:
  assumes "engine_laws en sv dv"
  shows "query_laws (en_books en) (\<lambda>s. tb_books (sv s))" "query_laws (en_copies en) (\<lambda>s. tb_copies (sv s))"
    "query_laws (en_users en) (\<lambda>s. tb_users (sv s))" "query_laws (en_branches en) (\<lambda>s. tb_branches (sv s))"
    "tables_ok (sv s)"
  using assms unfolding engine_laws_def by blast+

lemma session_start: "engine_laws en sv dv \<Longrightarrow> sv (en_create_session en db) = dv db"
  by (simp add: engine_laws_def)

lemma own_write_tables:
  assumes laws: "engine_laws en sv dv" and w: "in_session en (writes f) (Own db) = (Inr x, Own db')"
    and f: "\<And>s s'. f s = Inr s' \<Longrightarrow> sv s' = step (sv s)"
  shows "dv db' = step (dv db)"
  by (rule own_write [OF w]) (use laws f in \<open>metis engine_laws_def\<close>)

lemma row_keyed_key: "row_keyed key d \<Longrightarrow> dget d i = Some r \<Longrightarrow> key r = i"
  by (auto simp: row_keyed_def dest!: map_of_SomeD)

lemma row_keyed_member: "row_keyed key d \<Longrightarrow> x \<in> set (dvalues d) \<and> key x = k \<longleftrightarrow> dget d k = Some x"
  using in_dvalues [of d x] row_keyed_key [of key d] by (auto simp: row_keyed_def)

lemma row_keyed_distinct: "row_keyed key d \<Longrightarrow> distinct (map key (dvalues d))"
proof -
  assume d: "row_keyed key d"
  then have "map key (dvalues d) = dkeys d" by (simp add: row_keyed_def)
  with d show ?thesis by (simp only:) (simp add: row_keyed_def dict_wf_def)
qed

lemma lock_one_keyed:
  assumes q: "query_laws t rows" and d: "row_keyed key (rows s)" and r: "t_lock_one t s (\<lambda>m. key m = k) = Inr r"
  shows "r = dget (rows s) k"
proof (cases r)
  case None
  then have "\<forall>x \<in> set (dvalues (rows s)). key x \<noteq> k" using query_lawsD(3) [OF q r] by simp
  then show ?thesis using row_keyed_member [OF d, of "the (dget (rows s) k)" k] None by (cases "dget (rows s) k") auto
next
  case (Some x)
  then have "x \<in> set (dvalues (rows s)) \<and> key x = k" using query_lawsD(3) [OF q r] by simp
  then show ?thesis using row_keyed_member [OF d] Some by simp
qed

lemma user_row_read:
  assumes laws: "engine_laws en sv dv"
    and row: "(if fu then t_lock_one (en_users en) s (\<lambda>m. uw_user_id m = i) else t_get (en_users en) s i) = Inr row"
  shows "row = dget (tb_users (sv s)) i"
proof (cases fu)
  case True
  have "row_keyed uw_user_id (tb_users (sv s))" using engine_lawsD(5) [OF laws] by (simp add: tables_ok_def)
  with True row lock_one_keyed [OF engine_lawsD(3) [OF laws]] show ?thesis by simp
next
  case False
  then show ?thesis using row by (simp add: query_lawsD(1) [OF engine_lawsD(3) [OF laws]])
qed

lemma pg_get_user_row:
  assumes laws: "engine_laws en sv dv" and g: "pg_get_user en env i fu (Own db) = (Inr r, c)"
  shows "optional (model_to_user env) (dget (tb_users (dv db)) i) = Inr r"
proof -
  let ?s = "en_create_session en db"
  from own_read [OF g [unfolded pg_get_user_def]] obtain row where
    "(if fu then t_lock_one (en_users en) ?s (\<lambda>m. uw_user_id m = i) else t_get (en_users en) ?s i) = Inr row"
    and r: "optional (model_to_user env) row = Inr r" by (auto simp: map_ok_Inr)
  from user_row_read [OF laws this(1)] show ?thesis using r session_start [OF laws] by simp
qed

lemma pg_get_copy_row:
  assumes laws: "engine_laws en sv dv" and g: "pg_get_copy en i (Own db) = (Inr r, c)"
  shows "optional model_to_copy (dget (tb_copies (dv db)) i) = Inr r"
proof -
  obtain row where row: "t_get (en_copies en) (en_create_session en db) i = Inr row" "optional model_to_copy row = Inr r"
    using own_read [OF g [unfolded pg_get_copy_def]] by (auto simp: map_ok_Inr)
  show ?thesis
    using query_lawsD(1) [OF engine_lawsD(2) [OF laws] row(1)] row(2) session_start [OF laws, of db] by simp
qed

lemma pg_save_user_tables:
  assumes "engine_laws en sv dv" "pg_save_user en env order u (Own db) = (Inr x, Own db')"
  shows "dv db' = tb_users_update (\<lambda>d. dset d (us_user_id u) (merged_row (dget d (us_user_id u)) (user_to_model env order u))) (dv db)"
proof -
  have k: "uw_user_id (user_to_model env order u) = us_user_id u"
    by (cases "us_details u") (simp_all add: user_to_model_def)
  show ?thesis
    by (rule own_write_tables [OF assms(1) assms(2) [unfolded pg_save_user_def]])
      (use assms(1) in \<open>simp add: engine_laws_def store_laws_def k\<close>)
qed

lemma pg_save_copy_tables:
  assumes "engine_laws en sv dv" "pg_save_copy en c (Own db) = (Inr x, Own db')"
  shows "dv db' = tb_copies_update (\<lambda>d. dset d (cp_copy_id c) (copy_to_model c)) (dv db)"
  by (rule own_write_tables [OF assms(1) assms(2) [unfolded pg_save_copy_def]])
    (use assms(1) in \<open>simp add: engine_laws_def store_laws_def copy_to_model_def\<close>)

section \<open>Lookups after saves\<close>

lemma engine_merge_copy:
  "engine_laws en sv dv \<Longrightarrow> t_merge (en_copies en) s m = Inr s' \<Longrightarrow> sv s' = tb_copies_update (\<lambda>d. dset d (cw_copy_id m) m) (sv s)"
  by (simp add: engine_laws_def store_laws_def)

lemma engine_put_book:
  "engine_laws en sv dv \<Longrightarrow> t_assign (en_books en) s m = Inr s' \<or> t_add (en_books en) s m = Inr s' \<Longrightarrow>
   sv s' = tb_books_update (\<lambda>d. dset d (bw_isbn m) m) (sv s)"
  unfolding engine_laws_def store_laws_def by metis

definition put_copy_rows :: "book_copy list \<Rightarrow> (string, copy_row) dict \<Rightarrow> (string, copy_row) dict" where
  "put_copy_rows cs d = foldl (\<lambda>d c. dset d (cp_copy_id c) (copy_to_model c)) d cs"

lemma merge_copies_tables:
  assumes laws: "engine_laws en sv dv"
  shows "merge_copies en cs s = Inr s' \<Longrightarrow> sv s' = tb_copies_update (put_copy_rows cs) (sv s)"
proof (induction cs arbitrary: s)
  case Nil
  then show ?case by (simp add: put_copy_rows_def)
next
  case (Cons c cs)
  then obtain s1 where s1: "t_merge (en_copies en) s (copy_to_model c) = Inr s1" "merge_copies en cs s1 = Inr s'"
    by (auto simp: map_ok_Inr)
  show ?case
    using engine_merge_copy [OF laws s1(1)] Cons.IH [OF s1(2)] by (simp add: put_copy_rows_def copy_to_model_def)
qed

lemma dget_put_copy_rows:
  "c \<in> set cs \<Longrightarrow> distinct (map cp_copy_id cs) \<Longrightarrow> dget (put_copy_rows cs d) (cp_copy_id c) = Some (copy_to_model c)"
proof (induction cs rule: rev_induct)
  case (snoc x cs)
  then have "cp_copy_id c \<noteq> cp_copy_id x" if "c \<noteq> x" using that by (auto simp: image_iff)
  with snoc show ?case by (cases "c = x") (auto simp: put_copy_rows_def)
qed simp

lemma pg_save_book_tables:
  assumes laws: "engine_laws en sv dv" and w: "pg_save_book en h b (Own db) = (Inr x, Own db')"
  shows "tb_books (dv db') = dset (tb_books (dv db)) (bk_isbn b) (book_to_model b) \<and>
    tb_copies (dv db') = (if is_physical b then put_copy_rows (heap_copies h (copies_of b)) (tb_copies (dv db)) else tb_copies (dv db))"
proof -
  have k: "bw_isbn (book_to_model b) = bk_isbn b" by (cases "bk_details b") (simp_all add: book_to_model_def)
  let ?step = "\<lambda>t. tb_copies_update (if is_physical b then put_copy_rows (heap_copies h (copies_of b)) else id)
      (tb_books_update (\<lambda>d. dset d (bk_isbn b) (book_to_model b)) t)"
  have "dv db' = ?step (dv db)"
  proof (rule own_write_tables [OF laws w [unfolded pg_save_book_def]])
    fix s s'
    assume "map_ok (\<lambda>existing. map_ok (\<lambda>s. if is_physical b then merge_copies en (heap_copies h (copies_of b)) s else Inr s)
         (if existing \<noteq> None then t_assign (en_books en) s (book_to_model b) else t_add (en_books en) s (book_to_model b)))
       (t_get (en_books en) s (bk_isbn b)) = Inr s'"
    then obtain ex :: "book_row option" and s1 where ex: "(if ex \<noteq> None then t_assign (en_books en) s (book_to_model b) else t_add (en_books en) s (book_to_model b)) = Inr s1"
      and s2: "(if is_physical b then merge_copies en (heap_copies h (copies_of b)) s1 else Inr s1) = Inr s'"
      unfolding map_ok_Inr by blast
    have s1: "t_assign (en_books en) s (book_to_model b) = Inr s1 \<or> t_add (en_books en) s (book_to_model b) = Inr s1"
      using ex by (cases ex) simp_all
    show "sv s' = ?step (sv s)"
      using engine_put_book [OF laws s1] s2 merge_copies_tables [OF laws, of "heap_copies h (copies_of b)" s1 s'] k
      by (cases "is_physical b") simp_all
  qed
  then show ?thesis by simp
qed

text \<open>The book a lookup builds from rows that carry distinct copy identifiers.\<close>

lemma dget_copy_refs:
  assumes "distinct (map cp_copy_id cs)" "i < length cs"
  shows "dget (foldl (\<lambda>d (i, r). dset d i r) [] (copy_refs cs)) (cp_copy_id (cs ! i)) = Some i"
proof -
  have fold: "dget (foldl (\<lambda>d (i, r). dset d i r) [] xs) k = dget (rev xs) k" for xs :: "(string \<times> copy_ref) list" and k
    by (induction xs rule: rev_induct) auto
  have dist: "distinct (map fst (rev (copy_refs cs)))" using assms(1) by (simp add: copy_refs_def rev_map [symmetric])
  have "(cp_copy_id (cs ! i), i) \<in> set (copy_refs cs)"
    using assms(2) by (auto simp: copy_refs_def in_set_zip intro!: exI [of _ i])
  then show ?thesis using dist fold by simp
qed

lemma get_book_copies:
  assumes laws: "engine_laws en sv dv" and g: "pg_get_book en isbn (Own db) = (Inr r, c)"
    and row: "dget (tb_books (dv db)) isbn = Some m"
  obtains cs b where "r = Some (b, heap_of cs)" "model_to_book m (copy_refs cs) = Inr b" "distinct (map cp_copy_id cs)"
    "\<And>x w. dget (tb_copies (dv db)) x = Some w \<Longrightarrow> cw_book_isbn w = isbn \<Longrightarrow> model_to_copy w \<in> Inr ` set cs"
proof -
  let ?s = "en_create_session en db"
  have get: "t_get (en_books en) ?s isbn = Inr x \<Longrightarrow> x = Some m" for x
    using query_lawsD(1) [OF engine_lawsD(1) [OF laws], of ?s isbn x] session_start [OF laws, of db] row by simp
  obtain rows cs b where rows: "t_select (en_copies en) ?s (\<lambda>c. cw_book_isbn c = isbn) = Inr rows"
    and cs: "map model_to_copy rows = map Inr cs" and b: "model_to_book m (copy_refs cs) = Inr b" "r = Some (b, heap_of cs)"
    using own_read [OF g [unfolded pg_get_book_def]] by (auto simp: map_ok_Inr collect_Inr dest!: get)
  have t: "row_keyed cw_copy_id (tb_copies (dv db))"
    using engine_lawsD(5) [OF laws, of ?s] session_start [OF laws, of db] by (simp add: tables_ok_def)
  have ms: "mset rows = mset (filter (\<lambda>c. cw_book_isbn c = isbn) (dvalues (tb_copies (dv db))))"
    using query_lawsD(2) [OF engine_lawsD(2) [OF laws] rows] session_start [OF laws, of db] by simp
  have id: "cp_copy_id x = cw_copy_id w" if "model_to_copy w = Inr x" for w x
    using that by (auto simp: model_to_copy_def Let_def new_copy_def set_state_def split: option.splits)
  have "distinct (map cw_copy_id rows)"
  proof -
    have "distinct (map cw_copy_id (filter (\<lambda>c. cw_book_isbn c = isbn) (dvalues (tb_copies (dv db)))))"
      by (rule distinct_map_filter [OF row_keyed_distinct [OF t]])
    then show ?thesis by (metis ms mset_map mset_eq_imp_distinct_iff)
  qed
  moreover have "map cp_copy_id cs = map cw_copy_id rows"
  proof (rule nth_equalityI)
    have len: "length rows = length cs" using cs by (metis length_map)
    then show "length (map cp_copy_id cs) = length (map cw_copy_id rows)" by simp
    fix i assume i: "i < length (map cp_copy_id cs)"
    then have "model_to_copy (rows ! i) = Inr (cs ! i)" using cs len by (metis length_map nth_map)
    from id [OF this] show "map cp_copy_id cs ! i = map cw_copy_id rows ! i" using i len by simp
  qed
  ultimately have dist: "distinct (map cp_copy_id cs)" by simp
  show ?thesis
  proof (rule that [OF b(2,1) dist])
    fix x w assume w: "dget (tb_copies (dv db)) x = Some w" "cw_book_isbn w = isbn"
    have "w \<in> set (dvalues (tb_copies (dv db)))" using w(1) row_keyed_member [OF t] by blast
    then have "w \<in> set rows" using w(2) mset_eq_setD [OF ms] by (simp del: set_map)
    then have "model_to_copy w \<in> set (map model_to_copy rows)" by simp
    then show "model_to_copy w \<in> Inr ` set cs" unfolding cs by simp
  qed
qed

text \<open>
  C13: a saved book is found with its copies. When a book is saved and then looked up, both without an error of the database,
  the lookup returns the book with the attributes it was saved with (up to the defaults that replace zero and empty
  values), and a physical book is returned with every one of its copies, each exactly as it was saved.
\<close>

theorem postgres_book_roundtrip:
  assumes laws: "engine_laws en sv dv"
    and saved: "pg_save_book en h b (Own db) = (Inr x, Own db')" and got: "pg_get_book en (bk_isbn b) (Own db') = (Inr r, c)"
    and ids: "distinct (map cp_copy_id (heap_copies h (copies_of b)))"
    and isbns: "\<And>cp. cp \<in> set (heap_copies h (copies_of b)) \<Longrightarrow> cp_book_isbn cp = bk_isbn b"
  shows "\<exists>b' h' refs. r = Some (b', h') \<and> b' = restored_book b refs \<and>
    (is_physical b \<longrightarrow> (\<forall>cp \<in> set (heap_copies h (copies_of b)). \<exists>ref. dget (copies_of b') (cp_copy_id cp) = Some ref \<and> h' ref = Some cp))"
proof -
  note t = pg_save_book_tables [OF laws saved]
  have row: "dget (tb_books (dv db')) (bk_isbn b) = Some (book_to_model b)" using t by simp
  from get_book_copies [OF laws got row] obtain cs b' where r: "r = Some (b', heap_of cs)"
    and b': "model_to_book (book_to_model b) (copy_refs cs) = Inr b'" and dist: "distinct (map cp_copy_id cs)"
    and all: "\<And>x w. dget (tb_copies (dv db')) x = Some w \<Longrightarrow> cw_book_isbn w = bk_isbn b \<Longrightarrow> model_to_copy w \<in> Inr ` set cs"
    by blast
  have restored: "b' = restored_book b (copy_refs cs)" using b' by (simp add: book_roundtrip)
  have "\<exists>ref. dget (copies_of b') (cp_copy_id cp) = Some ref \<and> heap_of cs ref = Some cp"
    if phys: "is_physical b" and cp: "cp \<in> set (heap_copies h (copies_of b))" for cp
  proof -
    have "dget (tb_copies (dv db')) (cp_copy_id cp) = Some (copy_to_model cp)"
      using t phys dget_put_copy_rows [OF cp ids] by simp
    moreover have "cw_book_isbn (copy_to_model cp) = bk_isbn b" using isbns [OF cp] by (simp add: copy_to_model_def)
    ultimately have "model_to_copy (copy_to_model cp) \<in> Inr ` set cs" by (rule all)
    then have "cp \<in> set cs" by (auto simp: copy_roundtrip)
    then obtain i where i: "i < length cs" "cs ! i = cp" by (auto simp: in_set_conv_nth)
    have "copies_of b' = foldl (\<lambda>d (i, r). dset d i r) [] (copy_refs cs)"
      using phys restored by (cases "bk_details b") (simp_all add: restored_book_def copies_of_def)
    then show ?thesis using dget_copy_refs [OF dist i(1)] i by (auto simp: heap_of_def)
  qed
  then show ?thesis using r restored by blast
qed


text \<open>
  A saved copy is found exactly as it was saved, and no other copy is affected.
\<close>

theorem postgres_copy_roundtrip:
  assumes laws: "engine_laws en sv dv" and saved: "pg_save_copy en cp (Own db) = (Inr x, Own db')"
    and got: "pg_get_copy en i (Own db') = (Inr r, c)" and before: "pg_get_copy en i (Own db) = (Inr r0, c0)"
  shows "r = (if i = cp_copy_id cp then Some cp else r0)"
  using pg_get_copy_row [OF laws got] pg_get_copy_row [OF laws before] pg_save_copy_tables [OF laws saved]
  by (cases "i = cp_copy_id cp") (simp_all add: optional_def map_ok_def copy_roundtrip)

lemma section_committed:
  assumes laws: "engine_laws en sv dv" and run: "pg_locking_section en copy_id body db p = (Inr x, db', p')"
  obtains s s' where "s = en_create_session en db" "sv s = dv db" "dget (tb_copies (dv db)) copy_id \<noteq> None"
    "body s p = (Inr x, s', p')" "en_commit en s' db = Inr db'" "dv db' = sv s'"
proof -
  let ?s = "en_create_session en db"
  obtain w s' where w: "t_lock_one (en_copies en) ?s (\<lambda>c. cw_copy_id c = copy_id) = Inr (Some w)"
    and s': "body ?s p = (Inr x, s', p')" "en_commit en s' db = Inr db'"
    using run by (auto simp: pg_locking_section_def Let_def split: sum.splits option.splits prod.splits)
  have "row_keyed cw_copy_id (tb_copies (sv ?s))" using engine_lawsD(5) [OF laws] by (simp add: tables_ok_def)
  from lock_one_keyed [OF engine_lawsD(2) [OF laws] this w]
  have "dget (tb_copies (dv db)) copy_id = Some w" using session_start [OF laws] by simp
  moreover have "dv db' = sv s'" using laws s'(2) by (simp add: engine_laws_def)
  ultimately show thesis using that [OF refl _ _ s'] session_start [OF laws] by simp
qed

lemma section_raised:
  "pg_locking_section en copy_id body db p = (Inl e, db', p') \<Longrightarrow> db' = db"
  by (auto simp: pg_locking_section_def Let_def split: sum.splits option.splits prod.splits)

text \<open>
  A mutation block over Postgres is a transaction. If the block, the lock or the commit raises, the database is what it
  was. Otherwise the row of the copy existed, the block started from the committed contents, and the new contents are
  exactly what the block made of them. A copy that has no row is never mutated: the block does not run. The memory of
  the process is outside the transaction: it is as it was only if the block did not run.
\<close>

theorem locking_section_transactional:
  assumes laws: "engine_laws en sv dv" and run: "pg_locking_section en copy_id body db p = (r, db', p')"
  shows "case r of
      Inl e \<Rightarrow> db' = db \<and> (p' = p \<or> (\<exists>s s' r'. sv s = dv db \<and> body s p = (r', s', p')))
    | Inr x \<Rightarrow> \<exists>s s'. sv s = dv db \<and> dget (tb_copies (dv db)) copy_id \<noteq> None \<and> body s p = (Inr x, s', p') \<and> dv db' = sv s'"
proof (cases r)
  case (Inl e)
  then have "db' = db \<and> (p' = p \<or> (\<exists>s' r'. body (en_create_session en db) p = (r', s', p')))"
    using run by (auto simp: pg_locking_section_def Let_def split: sum.splits option.splits prod.splits)
  with Inl session_start [OF laws] show ?thesis by auto
next
  case (Inr x)
  then have "pg_locking_section en copy_id body db p = (Inr x, db', p')" using run by simp
  from section_committed [OF laws this] obtain s s' where "sv s = dv db" "dget (tb_copies (dv db)) copy_id \<noteq> None"
    "body s p = (Inr x, s', p')" "dv db' = sv s'" by metis
  with Inr show ?thesis by auto
qed

section \<open>A database that satisfies the laws\<close>

text \<open>Contents kept as they are, with every call succeeding: the laws can hold, and the theorems apply to it.\<close>

definition no_tables :: tables where
  "no_tables = \<lparr>tb_books = [], tb_copies = [], tb_users = [], tb_branches = [], tb_records = []\<rparr>"

definition shown :: "tables \<Rightarrow> tables" where
  "shown t = (if tables_ok t then t else no_tables)"

definition plain_table ::
  "(tables \<Rightarrow> (string, 'r) dict) \<Rightarrow> (((string, 'r) dict \<Rightarrow> (string, 'r) dict) \<Rightarrow> tables \<Rightarrow> tables) \<Rightarrow> ('m \<Rightarrow> string) \<Rightarrow>
   ('r option \<Rightarrow> 'm \<Rightarrow> 'r) \<Rightarrow> (tables, 'm, 'r) table" where
  "plain_table rows upd key merged =
     (let put = (\<lambda>s m. Inr (upd (\<lambda>d. dset d (key m) (merged (dget d (key m)) m)) (shown s)))
      in \<lparr>t_get = \<lambda>s k. Inr (dget (rows (shown s)) k), t_select = \<lambda>s P. Inr (filter P (dvalues (rows (shown s)))),
          t_lock_one = \<lambda>s P. Inr (find P (dvalues (rows (shown s)))), t_add = put, t_merge = put, t_assign = put,
          t_delete = \<lambda>s i. Inl (RuntimeError [])\<rparr>)"

definition plain_records :: "(tables, record_row, record_row) table" where
  "plain_records = \<lparr>t_get = \<lambda>s k. Inr None, t_select = \<lambda>s P. Inr (filter P (tb_records (shown s))),
     t_lock_one = \<lambda>s P. Inr (find P (tb_records (shown s))), t_add = \<lambda>s m. Inr ((shown s)\<lparr>tb_records := tb_records (shown s) @ [m]\<rparr>),
     t_merge = \<lambda>s m. Inl (RuntimeError []), t_assign = \<lambda>s m. Inl (RuntimeError []), t_delete = \<lambda>s i. Inl (RuntimeError [])\<rparr>"

definition plain_engine :: "(tables, tables) engine" where
  "plain_engine = \<lparr>en_create_session = \<lambda>db. db, en_commit = \<lambda>s db. Inr s, en_rollback = \<lambda>s. s,
     en_books = (plain_table tb_books tb_books_update bw_isbn replaced)
       \<lparr>t_delete := \<lambda>s i. Inr ((shown s)\<lparr>tb_books := dpop (tb_books (shown s)) i,
          tb_copies := filter (\<lambda>(k, c). cw_book_isbn c \<noteq> i) (tb_copies (shown s))\<rparr>)\<rparr>,
     en_copies = plain_table tb_copies tb_copies_update cw_copy_id replaced,
     en_users = plain_table tb_users tb_users_update uw_user_id merged_row,
     en_branches = plain_table tb_branches tb_branches_update lw_branch_id replaced, en_records = plain_records\<rparr>"

lemma shown_ok [simp]: "tables_ok (shown t)"
  by (simp add: shown_def no_tables_def tables_ok_def row_keyed_def)

lemma shown_id: "tables_ok t \<Longrightarrow> shown t = t"
  by (simp add: shown_def)

lemma set_dset: "set (dset d k v) \<subseteq> insert (k, v) (set d)"
  by (induction d k v rule: dset.induct) auto

lemma row_keyed_dset: "row_keyed key d \<Longrightarrow> key r = k \<Longrightarrow> row_keyed key (dset d k r)"
  using set_dset [of d k r] by (auto simp: row_keyed_def)

lemma row_keyed_filter: "row_keyed key d \<Longrightarrow> row_keyed key (filter P d)"
  by (auto simp: row_keyed_def dict_wf_def distinct_map_filter)

lemma row_keyed_dpop: "row_keyed key d \<Longrightarrow> row_keyed key (dpop d k)"
  by (simp add: dpop_def row_keyed_filter)

lemma shown_updates:
  "shown (tb_books_update (\<lambda>d. dset d (bw_isbn m) m) (shown t)) = tb_books_update (\<lambda>d. dset d (bw_isbn m) m) (shown t)"
  "shown (tb_copies_update (\<lambda>d. dset d (cw_copy_id w) w) (shown t)) = tb_copies_update (\<lambda>d. dset d (cw_copy_id w) w) (shown t)"
  "shown (tb_users_update (\<lambda>d. dset d (uw_user_id u) (merged_row (dget d (uw_user_id u)) u)) (shown t)) =
     tb_users_update (\<lambda>d. dset d (uw_user_id u) (merged_row (dget d (uw_user_id u)) u)) (shown t)"
  "shown (tb_branches_update (\<lambda>d. dset d (lw_branch_id b) b) (shown t)) = tb_branches_update (\<lambda>d. dset d (lw_branch_id b) b) (shown t)"
  "shown ((shown t)\<lparr>tb_records := rs\<rparr>) = (shown t)\<lparr>tb_records := rs\<rparr>"
  "shown ((shown t)\<lparr>tb_books := dpop (tb_books (shown t)) i, tb_copies := filter P (tb_copies (shown t))\<rparr>) =
     (shown t)\<lparr>tb_books := dpop (tb_books (shown t)) i, tb_copies := filter P (tb_copies (shown t))\<rparr>"
  using shown_ok [of t] by (auto intro!: shown_id simp: tables_ok_def row_keyed_dset row_keyed_dpop row_keyed_filter)

lemma plain_table_laws:
  "query_laws (plain_table rows upd key merged) (\<lambda>s. rows (shown s))"
  "(\<And>s m. shown (upd (\<lambda>d. dset d (key m) (merged (dget d (key m)) m)) (shown s)) = upd (\<lambda>d. dset d (key m) (merged (dget d (key m)) m)) (shown s)) \<Longrightarrow>
   store_laws (plain_table rows upd key merged) shown upd key merged"
  by (auto simp: query_laws_def store_laws_def plain_table_def Let_def find_None_iff split: option.splits)
    (auto simp: find_Some_iff)

lemma delete_laws:
  "query_laws (t\<lparr>t_delete := f\<rparr>) rows = query_laws t rows" "store_laws (t\<lparr>t_delete := f\<rparr>) sv upd key merged = store_laws t sv upd key merged"
  by (simp_all add: query_laws_def store_laws_def)

lemma plain_engine_laws: "engine_laws plain_engine shown shown"
  unfolding engine_laws_def
  by (intro conjI) (simp_all add: plain_engine_def delete_laws plain_table_laws shown_updates plain_records_def)

lemmas plain_defs = plain_engine_def plain_table_def Let_def reads_def writes_def map_ok_def

lemma plain_save_copy:
  "pg_save_copy plain_engine c (Own db) = (Inr (), Own (tb_copies_update (\<lambda>d. dset d (cp_copy_id c) (copy_to_model c)) (shown db)))"
  by (simp add: pg_save_copy_def plain_defs copy_to_model_def)

lemma plain_get_copy:
  assumes "optional model_to_copy (dget (tb_copies (shown db)) i) = Inr r"
  shows "pg_get_copy plain_engine i (Own db) = (Inr r, Own db)"
  using assms by (simp add: pg_get_copy_def plain_defs)

lemma plain_get_user:
  assumes "optional (model_to_user env) (dget (tb_users (shown db)) i) = Inr r"
  shows "pg_get_user plain_engine env i False (Own db) = (Inr r, Own db)"
  using assms by (simp add: pg_get_user_def plain_defs)

definition demo_copy :: book_copy where
  "demo_copy = (new_copy ''C1'' ''I1'' ''B1'' ''A1'' 500)\<lparr>cp_state := IssuedState, cp_borrower := Some ''U1'', cp_borrow_count := 3\<rparr>"

definition copy_tables :: tables where
  "copy_tables = no_tables\<lparr>tb_copies := [(''C1'', copy_to_model demo_copy)]\<rparr>"

lemma demo_tables:
  "shown no_tables = no_tables" "shown copy_tables = copy_tables" "cp_copy_id demo_copy = ''C1''"
  by (simp_all add: shown_def tables_ok_def row_keyed_def dict_wf_def no_tables_def copy_tables_def copy_to_model_def demo_copy_def new_copy_def)

lemma nothing_stored [simp]: "tb_copies no_tables = []" "tb_users no_tables = []" "tb_books no_tables = []"
  by (simp_all add: no_tables_def)

theorem postgres_copy_roundtrip_witness:
  "pg_save_copy plain_engine demo_copy (Own no_tables) = (Inr (), Own copy_tables) \<and>
   pg_get_copy plain_engine ''C1'' (Own copy_tables) = (Inr (Some demo_copy), Own copy_tables)"
proof -
  have s: "pg_save_copy plain_engine demo_copy (Own no_tables) = (Inr (), Own copy_tables)"
    by (simp add: plain_save_copy demo_tables) (simp add: copy_tables_def)
  have b: "pg_get_copy plain_engine ''C1'' (Own no_tables) = (Inr None, Own no_tables)"
    by (rule plain_get_copy) (simp add: demo_tables optional_def)
  have "optional model_to_copy (dget (tb_copies (shown copy_tables)) ''C1'') = Inr (Some demo_copy)"
    by (simp only: demo_tables) (simp add: copy_tables_def optional_def copy_roundtrip map_ok_def)
  note g = plain_get_copy [OF this]
  from postgres_copy_roundtrip [OF plain_engine_laws s g b] s g show ?thesis by simp
qed

definition demo_user :: user where
  "demo_user = (new_faculty ''U1'' ''N'' ''e'' (Some ''CS'') ''h'' ''B1'')\<lparr>us_active := {''C1''}, us_fines := 12, us_max_borrow_limit := 3\<rparr>"

definition iso_user_env :: user_env where
  "iso_user_env = plain_user_env\<lparr>
     ue_isoformat := \<lambda>d. if d < 0 then CHR ''-'' # replicate (nat (- d)) (CHR ''d'') else replicate (nat d) (CHR ''d''),
     ue_fromisoformat := \<lambda>t. Inr (if t \<noteq> [] \<and> hd t = CHR ''-'' then - int (length (tl t)) else int (length t))\<rparr>"

lemma iso_user_env_law: "ue_fromisoformat iso_user_env (ue_isoformat iso_user_env d) = Inr d"
  by (cases "nat d") (auto simp: iso_user_env_def)

definition user_tables :: tables where
  "user_tables = no_tables\<lparr>tb_users := [(''U1'', merged_row None (user_to_model iso_user_env sorted_list_of_set demo_user))]\<rparr>"

lemma demo_user_fields:
  "us_user_id demo_user = ''U1''" "finite (us_active demo_user)" "finite (us_active_reservations demo_user)"
  "uw_user_id (user_to_model env order demo_user) = ''U1''" "us_max_borrow_limit demo_user = 3"
  by (simp_all add: demo_user_def new_faculty_def new_user_def user_to_model_def)

lemma user_tables_shown: "shown user_tables = user_tables"
  by (rule shown_id) (simp add: tables_ok_def row_keyed_def dict_wf_def user_tables_def no_tables_def demo_user_fields)


definition shelf_book :: book where
  "shelf_book = \<lparr>bk_isbn = ''I1'', bk_title = ''T'', bk_authors = [''A''], bk_category = ''General'', bk_publication_year = 2024,
     bk_publisher = ''P'', bk_description = [], bk_rating = 4, bk_difficulty_level = ''Intermediate'', bk_keywords = [],
     bk_borrow_history_count = 2, bk_details = PhysicalBook 0 350 [(''C1'', 0)]\<rparr>"

definition shelf_heap :: copy_heap where
  "shelf_heap = Map.empty(0 \<mapsto> demo_copy)"

definition book_tables :: tables where
  "book_tables = copy_tables\<lparr>tb_books := [(''I1'', book_to_model shelf_book)]\<rparr>"

lemma shelf_copies: "heap_copies shelf_heap (copies_of shelf_book) = [demo_copy]" "bk_isbn shelf_book = ''I1''" "is_physical shelf_book"
  "bw_isbn (book_to_model shelf_book) = ''I1''" "cp_book_isbn demo_copy = ''I1''"
  by (simp_all add: heap_copies_def copies_of_def shelf_book_def shelf_heap_def List.map_filter_def book_to_model_def demo_copy_def new_copy_def)

lemma shelf_tables:
  "shown book_tables = book_tables" "tb_books book_tables = [(''I1'', book_to_model shelf_book)]"
  "tb_copies book_tables = [(''C1'', copy_to_model demo_copy)]"
  "shown (no_tables\<lparr>tb_books := [(''I1'', book_to_model shelf_book)]\<rparr>) = no_tables\<lparr>tb_books := [(''I1'', book_to_model shelf_book)]\<rparr>"
  "cw_copy_id (copy_to_model demo_copy) = ''C1''" "cw_book_isbn (copy_to_model demo_copy) = ''I1''"
  by (auto intro!: shown_id simp: tables_ok_def row_keyed_def dict_wf_def book_tables_def copy_tables_def no_tables_def
      shelf_copies copy_to_model_def demo_tables)

lemma plain_save_shelf: "pg_save_book plain_engine shelf_heap shelf_book (Own no_tables) = (Inr (), Own book_tables)"
proof -
  have e3: "no_tables\<lparr>tb_books := [(''I1'', book_to_model shelf_book)], tb_copies := [(''C1'', copy_to_model demo_copy)]\<rparr> = book_tables"
    by (simp add: book_tables_def copy_tables_def no_tables_def)
  have e1: "tb_books_update (\<lambda>d. dset d ''I1'' (book_to_model shelf_book)) no_tables = no_tables\<lparr>tb_books := [(''I1'', book_to_model shelf_book)]\<rparr>"
    by (simp add: no_tables_def)
  have e2: "tb_copies_update (\<lambda>d. dset d ''C1'' (copy_to_model demo_copy)) (no_tables\<lparr>tb_books := [(''I1'', book_to_model shelf_book)]\<rparr>) =
      no_tables\<lparr>tb_books := [(''I1'', book_to_model shelf_book)], tb_copies := [(''C1'', copy_to_model demo_copy)]\<rparr>"
    by (simp add: no_tables_def)
  show ?thesis
    by (simp add: pg_save_book_def plain_defs demo_tables shelf_copies shelf_tables) (simp only: e1 e2 e3 shelf_tables(4))
qed

text \<open>The weight of zero grams comes back as the default of five hundred.\<close>

theorem postgres_book_roundtrip_witness:
  "\<exists>b' h'. pg_save_book plain_engine shelf_heap shelf_book (Own no_tables) = (Inr (), Own book_tables) \<and>
     pg_get_book plain_engine ''I1'' (Own book_tables) = (Inr (Some (b', h')), Own book_tables) \<and>
     (\<exists>ref. dget (copies_of b') ''C1'' = Some ref \<and> h' ref = Some demo_copy) \<and> weight_grams (bk_details b') = 500"
proof -
  have g: "pg_get_book plain_engine (bk_isbn shelf_book) (Own book_tables) =
      (Inr (Some (restored_book shelf_book (copy_refs [demo_copy]), heap_of [demo_copy])), Own book_tables)"
    by (simp add: pg_get_book_def plain_defs shelf_copies shelf_tables copy_roundtrip book_roundtrip)
  have "distinct (map cp_copy_id (heap_copies shelf_heap (copies_of shelf_book)))" by (simp add: shelf_copies)
  from postgres_book_roundtrip [OF plain_engine_laws plain_save_shelf g this] plain_save_shelf g show ?thesis
    by (auto simp: shelf_copies demo_tables restored_book_def) (simp_all add: shelf_book_def or_int_def)
qed

text \<open>
  A block that stores a copy, notes it in the memory of the process and then raises leaves the database as it was, but
  not the note; without the error the copy is stored.
\<close>

definition lose_copy :: "bool \<Rightarrow> tables \<Rightarrow> nat \<Rightarrow> (exn + unit) \<times> tables \<times> nat" where
  "lose_copy fails s n =
     (case pg_save_copy plain_engine (set_state demo_copy LostState) (Given s) of
        (Inr x, Given s) \<Rightarrow> (if fails then Inl (RuntimeError ''boom'') else Inr (), s, n + 1)
      | (r, _) \<Rightarrow> (r, s, n))"

lemma plain_section:
  assumes "tables_ok db" "dget (tb_copies db) i = Some w"
  shows "pg_locking_section plain_engine i body db p =
      (case body db p of (Inl e, s, p) \<Rightarrow> (Inl e, db, p) | (Inr x, s, p) \<Rightarrow> (Inr x, s, p))"
proof -
  have "\<exists>x. find (\<lambda>c. cw_copy_id c = i) (dvalues (tb_copies db)) = Some x"
  proof (rule ccontr)
    assume "\<nexists>x. find (\<lambda>c. cw_copy_id c = i) (dvalues (tb_copies db)) = Some x"
    then have "find (\<lambda>c. cw_copy_id c = i) (dvalues (tb_copies db)) = None" by simp
    moreover have "w \<in> set (dvalues (tb_copies db)) \<and> cw_copy_id w = i"
      using row_keyed_member [of cw_copy_id "tb_copies db" w i] assms by (simp add: tables_ok_def)
    ultimately show False by (auto simp: find_None_iff)
  qed
  then show ?thesis using assms(1)
    by (auto simp: pg_locking_section_def plain_defs shown_id split: prod.splits sum.splits)
qed

theorem locking_section_transactional_witness:
  "pg_locking_section plain_engine ''C1'' (lose_copy True) copy_tables 0 = (Inl (RuntimeError ''boom''), copy_tables, 1) \<and>
   (\<exists>db'. pg_locking_section plain_engine ''C1'' (lose_copy False) copy_tables 0 = (Inr (), db', 1) \<and>
     (\<exists>s s'. shown s = copy_tables \<and> lose_copy False s 0 = (Inr (), s', 1) \<and> shown db' = shown s'))"
proof -
  have ok: "tables_ok copy_tables" using demo_tables(2) shown_ok [of copy_tables] by simp
  have row: "dget (tb_copies copy_tables) ''C1'' = Some (copy_to_model demo_copy)" by (simp add: copy_tables_def)
  note run = plain_section [OF ok row]
  obtain s where l: "lose_copy b copy_tables n = (if b then Inl (RuntimeError ''boom'') else Inr (), s, n + 1)" for b n
    by (simp add: lose_copy_def pg_save_copy_def plain_defs)
  have t: "pg_locking_section plain_engine ''C1'' (lose_copy False) copy_tables 0 = (Inr (), s, 1)" by (simp add: run l)
  have "pg_locking_section plain_engine ''C1'' (lose_copy True) copy_tables 0 = (Inl (RuntimeError ''boom''), copy_tables, 1)"
    by (simp add: run l)
  with locking_section_transactional [OF plain_engine_laws t] t show ?thesis by (auto simp: demo_tables)
qed

end
