(* ===== verification/Postgres_Rebalancing.thy ===== *)
theory Postgres_Rebalancing
  imports Postgres_Repository Rebalancer
begin

text \<open>
  What the rebalancing engine of \<^verbatim>\<open>libflow/ai/rebalancer.py\<close> sees when the books come from the
  Postgres repository of \<^verbatim>\<open>libflow/storage/postgres.py\<close>.
\<close>

lemma listed_books_have_no_copies:
  assumes "pg_list_books en (Own db) = (Inr bs, c)" "b \<in> set bs"
  shows "copies_of b = []"
proof -
  obtain rows where "map (\<lambda>m. model_to_book m []) rows = map Inr bs"
    using own_read [OF assms(1) [unfolded pg_list_books_def]] by (auto simp: map_ok_Inr collect_Inr)
  then have "Inr b \<in> set (map (\<lambda>m. model_to_book m []) rows)" using assms(2) by simp
  then obtain m where "model_to_book m [] = Inr b" by auto
  then show ?thesis
    by (auto simp: model_to_book_def Let_def common_of_model_def copies_of_def split: if_splits)
qed

lemma no_candidates_without_copies: "copies_of b = [] \<Longrightarrow> dest_candidates hypot ref s branches fl b dest = []"
proof -
  assume "copies_of b = []"
  then have "copies_at h b br = []" for h br by (simp add: copies_at_def heap_copies_def List.map_filter_def)
  then have "source_candidate hypot h b w dest src = None" for h w src by (simp add: source_candidate_def)
  then have "List.map_filter (source_candidate hypot (rp_heap s) b w dest) branches = []" for w by (simp add: List.map_filter_def)
  then show ?thesis by (simp add: dest_candidates_def Let_def)
qed

text \<open>
  C33: over the Postgres listing there is nothing to rebalance. The listing of the Postgres repository returns physical
  books without their copies, so whenever the books the rebalancing engine works on are those of a Postgres listing,
  its plan is empty, whatever the demand and wherever the copies are.
\<close>

theorem postgres_rebalancing_plans_nothing:
  assumes listed: "pg_list_books en (Own db) = (Inr bs, c)" and books: "list_books s = bs"
  shows "calculate_rebalancing_plan hypot ref s = []"
proof -
  have none: "plan_candidates hypot ref s branches fl = []" for branches fl
    using listed_books_have_no_copies [OF listed] books
    by (auto simp: plan_candidates_def no_candidates_without_copies)
  show ?thesis
    by (simp add: calculate_rebalancing_plan_def none Let_def heap_drain.simps heappop_def)
qed

text \<open>The copy of the book is in the database, but not in the listed book.\<close>

theorem postgres_rebalancing_plans_nothing_witness:
  "tb_copies book_tables \<noteq> [] \<and> pg_list_books plain_engine (Own book_tables) = (Inr [restored_book shelf_book []], Own book_tables) \<and>
   calculate_rebalancing_plan (\<lambda>x y. x + y) 0 (build_in_memory_container\<lparr>rp_books := [(''I1'', restored_book shelf_book [])]\<rparr>) = []"
proof -
  have l: "pg_list_books plain_engine (Own book_tables) = (Inr [restored_book shelf_book []], Own book_tables)"
    by (simp add: pg_list_books_def plain_defs shelf_tables book_roundtrip)
  have "list_books (build_in_memory_container\<lparr>rp_books := [(''I1'', restored_book shelf_book [])]\<rparr>) = [restored_book shelf_book []]"
    by (simp add: list_books_def)
  from postgres_rebalancing_plans_nothing [OF l this, of "\<lambda>x y. x + y" 0] l show ?thesis by (simp add: shelf_tables)
qed

end
