(* ===== verification/Postgres_Outbox.thy ===== *)
theory Postgres_Outbox
  imports Outbox
begin

text \<open>
  The Postgres outbox of \<^verbatim>\<open>libflow/storage/outbox.py\<close>. The sessions and the queries on the outbox table are the
  record \<open>outbox_engine\<close>, with their documented behaviour in \<open>outbox_laws\<close>; a row has the fields of the event record of
  the in-memory outbox. A session that is given to \<open>save_event\<close> is not committed there, so that the event
  becomes visible together with the change it reports.
\<close>

record ('db, 's) outbox_engine =
  oq_session :: "'db \<Rightarrow> 's"
  oq_commit :: "'s \<Rightarrow> 'db \<Rightarrow> exn + 'db"
  oq_add :: "'s \<Rightarrow> outbox_event \<Rightarrow> exn + 's"
  oq_select :: "'s \<Rightarrow> (outbox_event \<Rightarrow> bool) \<Rightarrow> nat option \<Rightarrow> exn + outbox_event list"
  oq_select_skip_locked :: "'s \<Rightarrow> (outbox_event \<Rightarrow> bool) \<Rightarrow> nat option \<Rightarrow> exn + outbox_event list"
  oq_assign :: "'s \<Rightarrow> outbox_event \<Rightarrow> exn + 's"

section \<open>Operations\<close>

definition new_event :: "timestamp \<Rightarrow> string \<Rightarrow> string \<Rightarrow> payload \<Rightarrow> outbox_event" where
  "new_event now uuid12 topic payload =
     \<lparr>oe_event_id = ''EVT-'' @ uuid12, oe_topic = topic, oe_payload = payload, oe_status = OB_PENDING,
      oe_retry_count = 0, oe_created_at = now, oe_published_at = None\<rparr>"

definition pg_add_event :: "('db, 's) outbox_engine \<Rightarrow> timestamp \<Rightarrow> string \<Rightarrow> string \<Rightarrow> payload \<Rightarrow> 's \<Rightarrow> (exn + outbox_event) \<times> 's" where
  "pg_add_event q now uuid12 topic payload s =
     (let e = new_event now uuid12 topic payload
      in case oq_add q s e of Inl x \<Rightarrow> (Inl x, s) | Inr s \<Rightarrow> (Inr e, s))"

definition pg_save_event :: "('db, 's) outbox_engine \<Rightarrow> timestamp \<Rightarrow> string \<Rightarrow> string \<Rightarrow> payload \<Rightarrow> 'db \<Rightarrow> (exn + outbox_event) \<times> 'db" where
  "pg_save_event q now uuid12 topic payload db =
     (case pg_add_event q now uuid12 topic payload (oq_session q db) of
        (Inl x, s) \<Rightarrow> (Inl x, db)
      | (Inr e, s) \<Rightarrow> (case oq_commit q s db of Inl x \<Rightarrow> (Inl x, db) | Inr db \<Rightarrow> (Inr e, db)))"

fun claim_rows :: "('db, 's) outbox_engine \<Rightarrow> outbox_event list \<Rightarrow> 's \<Rightarrow> (exn + outbox_event list) \<times> 's" where
  "claim_rows q [] s = (Inr [], s)"
| "claim_rows q (r # rows) s =
     (let r = r\<lparr>oe_status := OB_IN_FLIGHT\<rparr>
      in case oq_assign q s r of
           Inl x \<Rightarrow> (Inl x, s)
         | Inr s \<Rightarrow> (case claim_rows q rows s of (Inl x, s) \<Rightarrow> (Inl x, s) | (Inr rs, s) \<Rightarrow> (Inr (r # rs), s)))"

definition is_pending :: "outbox_event \<Rightarrow> bool" where
  "is_pending e \<longleftrightarrow> oe_status e = OB_PENDING"

definition pg_fetch_pending :: "('db, 's) outbox_engine \<Rightarrow> nat \<Rightarrow> bool \<Rightarrow> 'db \<Rightarrow> (exn + outbox_event list) \<times> 'db" where
  "pg_fetch_pending q limit claim db =
     (let s = oq_session q db
      in if claim then
           (case oq_select_skip_locked q s is_pending (Some limit) of
              Inl x \<Rightarrow> (Inl x, db)
            | Inr rows \<Rightarrow>
                (case claim_rows q rows s of
                   (Inl x, s) \<Rightarrow> (Inl x, db)
                 | (Inr rs, s) \<Rightarrow> (case oq_commit q s db of Inl x \<Rightarrow> (Inl x, db) | Inr db \<Rightarrow> (Inr rs, db))))
         else (oq_select q s is_pending (Some limit), db))"

definition pg_update_event :: "('db, 's) outbox_engine \<Rightarrow> (outbox_event \<Rightarrow> outbox_event) \<Rightarrow> string \<Rightarrow> 'db \<Rightarrow> (exn + unit) \<times> 'db" where
  "pg_update_event q f event_id db =
     (let s = oq_session q db
      in case oq_select q s (\<lambda>e. oe_event_id e = event_id) None of
           Inl x \<Rightarrow> (Inl x, db)
         | Inr [] \<Rightarrow> (Inr (), db)
         | Inr (row # _) \<Rightarrow>
             (case oq_assign q s (f row) of
                Inl x \<Rightarrow> (Inl x, db)
              | Inr s \<Rightarrow> (case oq_commit q s db of Inl x \<Rightarrow> (Inl x, db) | Inr db \<Rightarrow> (Inr (), db))))"

definition pg_mark_published :: "('db, 's) outbox_engine \<Rightarrow> timestamp \<Rightarrow> string \<Rightarrow> 'db \<Rightarrow> (exn + unit) \<times> 'db" where
  "pg_mark_published q now = pg_update_event q (\<lambda>e. e\<lparr>oe_status := OB_PUBLISHED, oe_published_at := Some now\<rparr>)"

definition pg_mark_failed :: "('db, 's) outbox_engine \<Rightarrow> string \<Rightarrow> 'db \<Rightarrow> (exn + unit) \<times> 'db" where
  "pg_mark_failed q = pg_update_event q failed_event"

section \<open>What the outbox relies on\<close>

text \<open>
  The events by identifier, as a session and as the committed database show them. A query returns matching rows, each
  once, at most as many as the limit; a query that skips locked rows may leave some out.
\<close>

type_synonym event_view = "string \<rightharpoonup> outbox_event"

definition rows_of :: "event_view \<Rightarrow> (outbox_event \<Rightarrow> bool) \<Rightarrow> nat option \<Rightarrow> outbox_event list \<Rightarrow> bool" where
  "rows_of v P limit rs \<longleftrightarrow> distinct (event_ids rs) \<and> (\<forall>e \<in> set rs. P e \<and> v (oe_event_id e) = Some e) \<and>
     (\<forall>n. limit = Some n \<longrightarrow> length rs \<le> n)"

definition outbox_laws :: "('db, 's) outbox_engine \<Rightarrow> ('s \<Rightarrow> event_view) \<Rightarrow> ('db \<Rightarrow> event_view) \<Rightarrow> bool" where
  "outbox_laws q sv dv \<longleftrightarrow>
     (\<forall>db. sv (oq_session q db) = dv db) \<and> (\<forall>s db db'. oq_commit q s db = Inr db' \<longrightarrow> dv db' = sv s) \<and>
     (\<forall>s i e. sv s i = Some e \<longrightarrow> oe_event_id e = i) \<and>
     (\<forall>s e s'. oq_add q s e = Inr s' \<or> oq_assign q s e = Inr s' \<longrightarrow> sv s' = (sv s)(oe_event_id e \<mapsto> e)) \<and>
     (\<forall>s P cap rs. oq_select q s P cap = Inr rs \<or> oq_select_skip_locked q s P cap = Inr rs \<longrightarrow> rows_of (sv s) P cap rs) \<and>
     (\<forall>s P rs. oq_select q s P None = Inr rs \<longrightarrow> (\<forall>i e. sv s i = Some e \<and> P e \<longrightarrow> e \<in> set rs))"

lemma outbox_lawsD:
  assumes "outbox_laws q sv dv"
  shows "sv (oq_session q db) = dv db" "oq_commit q s db = Inr db' \<Longrightarrow> dv db' = sv s" "sv s i = Some e \<Longrightarrow> oe_event_id e = i"
    "oq_add q s e = Inr s' \<Longrightarrow> sv s' = (sv s)(oe_event_id e \<mapsto> e)" "oq_assign q s e = Inr s' \<Longrightarrow> sv s' = (sv s)(oe_event_id e \<mapsto> e)"
    "oq_select q s P cap = Inr rs \<Longrightarrow> rows_of (sv s) P cap rs" "oq_select_skip_locked q s P cap = Inr rs \<Longrightarrow> rows_of (sv s) P cap rs"
    "oq_select q s P None = Inr rs \<Longrightarrow> sv s i = Some e \<Longrightarrow> P e \<Longrightarrow> e \<in> set rs"
  using assms unfolding outbox_laws_def by blast+

definition in_flight :: "outbox_event \<Rightarrow> outbox_event" where
  "in_flight e = e\<lparr>oe_status := OB_IN_FLIGHT\<rparr>"

lemma in_flight_id [simp]: "oe_event_id (in_flight e) = oe_event_id e"
  by (simp add: in_flight_def)

lemma claim_rows_view:
  assumes laws: "outbox_laws q sv dv"
  shows "claim_rows q rows s = (Inr rs, s') \<Longrightarrow> rs = map in_flight rows \<and>
    (distinct (event_ids rows) \<longrightarrow> (\<forall>i. sv s' i = (case find_event rows i of Some e \<Rightarrow> Some (in_flight e) | None \<Rightarrow> sv s i)))"
proof (induction rows arbitrary: s rs)
  case (Cons r rows)
  then obtain s1 rs1 where s1: "oq_assign q s (in_flight r) = Inr s1" "claim_rows q rows s1 = (Inr rs1, s')" "rs = in_flight r # rs1"
    by (auto simp: Let_def in_flight_def split: sum.splits prod.splits)
  note ih = Cons.IH [OF s1(2)]
  have "find_event rows (oe_event_id r) = None" if "distinct (event_ids (r # rows))" using that by (simp add: find_event_None)
  then show ?case using ih s1(3) outbox_lawsD(5) [OF laws s1(1)] by (auto split: option.splits)
qed simp

lemma claim_view:
  assumes laws: "outbox_laws q sv dv" and claim: "pg_fetch_pending q limit True db = (Inr evs, db')"
  obtains rows where "evs = map in_flight rows" "rows_of (dv db) is_pending (Some limit) rows"
    "\<And>i. dv db' i = (case find_event rows i of Some e \<Rightarrow> Some (in_flight e) | None \<Rightarrow> dv db i)"
proof -
  obtain rows s where r: "oq_select_skip_locked q (oq_session q db) is_pending (Some limit) = Inr rows"
    "claim_rows q rows (oq_session q db) = (Inr evs, s)" "oq_commit q s db = Inr db'"
    using claim by (auto simp: pg_fetch_pending_def Let_def split: sum.splits prod.splits)
  have rows: "rows_of (dv db) is_pending (Some limit) rows" using outbox_lawsD(7,1) [OF laws] r(1) by metis
  then have d: "distinct (event_ids rows)" by (simp add: rows_of_def)
  note c = claim_rows_view [OF laws r(2)]
  have "dv db' i = (case find_event rows i of Some e \<Rightarrow> Some (in_flight e) | None \<Rightarrow> dv db i)" for i
    using c d outbox_lawsD(2) [OF laws r(3)] outbox_lawsD(1) [OF laws, of db] by metis
  then show thesis using that [OF _ rows] c by blast
qed

text \<open>
  C16: events are claimed by one worker only. A claim over Postgres returns at most as many events as asked for; each of them was
  pending, is in flight afterwards, and no other event changes. A claim by another worker after it returns none of them.
\<close>

theorem postgres_claims_exclusive:
  assumes laws: "outbox_laws q sv dv" and first: "pg_fetch_pending q limit True db = (Inr evs, db')"
    and second: "pg_fetch_pending q limit' True db' = (Inr evs', db'')"
  shows "length evs \<le> limit \<and> set (event_ids evs) \<inter> set (event_ids evs') = {} \<and>
    (\<forall>e \<in> set evs. \<exists>p. dv db (oe_event_id e) = Some p \<and> is_pending p \<and> dv db' (oe_event_id e) = Some (in_flight p)) \<and>
    (\<forall>i. i \<notin> set (event_ids evs) \<longrightarrow> dv db' i = dv db i)"
proof -
  obtain rows where rows: "evs = map in_flight rows" "rows_of (dv db) is_pending (Some limit) rows"
    "\<And>i. dv db' i = (case find_event rows i of Some e \<Rightarrow> Some (in_flight e) | None \<Rightarrow> dv db i)"
    using claim_view [OF laws first] by metis
  obtain rows' where rows': "evs' = map in_flight rows'" "rows_of (dv db') is_pending (Some limit') rows'"
    using claim_view [OF laws second] by metis
  have ids: "event_ids (map in_flight xs) = event_ids xs" for xs by simp
  have d: "distinct (event_ids rows)" using rows(2) by (simp add: rows_of_def)
  have found: "find_event rows (oe_event_id e) = Some e" if "e \<in> set rows" for e using find_event_in [OF d] that by simp
  have "i \<notin> set (event_ids rows')" if i: "i \<in> set (event_ids rows)" for i
  proof
    assume "i \<in> set (event_ids rows')"
    then obtain e' where e': "e' \<in> set rows'" "oe_event_id e' = i" by auto
    obtain e where e: "e \<in> set rows" "oe_event_id e = i" using i by auto
    have "dv db' i = Some (in_flight e)" using rows(3) [of i] found [OF e(1)] e(2) by simp
    moreover have "dv db' i = Some e'" "is_pending e'" using rows'(2) e' by (auto simp: rows_of_def)
    ultimately show False by (simp add: is_pending_def in_flight_def)
  qed
  moreover have "\<exists>p. dv db (oe_event_id e) = Some p \<and> is_pending p \<and> dv db' (oe_event_id e) = Some (in_flight p)" if e: "e \<in> set evs" for e
  proof -
    obtain p where p: "p \<in> set rows" "e = in_flight p" using e rows(1) by auto
    then show ?thesis using rows(2,3) found [OF p(1)] by (auto simp: rows_of_def)
  qed
  moreover have "dv db' i = dv db i" if "i \<notin> set (event_ids evs)" for i
    using that rows(3) [of i] find_event_None [of rows i] unfolding rows(1) ids by simp
  moreover have "length evs \<le> limit" using rows(1,2) by (simp add: rows_of_def)
  ultimately show ?thesis unfolding rows(1) rows'(1) ids by blast
qed

text \<open>
  The outcome of a delivery is recorded exactly as in memory: the event with the given identifier, if there is one, is
  updated by the same rule, and no other event changes.
\<close>

theorem postgres_outcome_refines:
  assumes laws: "outbox_laws q sv dv" and f: "\<And>e. oe_event_id (f e) = oe_event_id e"
    and run: "pg_update_event q f i db = (Inr (), db')"
  shows "dv db' j = (if j = i then map_option f (dv db i) else dv db j)"
proof -
  let ?s = "oq_session q db"
  obtain rs where rs: "oq_select q ?s (\<lambda>e. oe_event_id e = i) None = Inr rs"
    using run by (auto simp: pg_update_event_def Let_def split: sum.splits)
  have rows: "rows_of (dv db) (\<lambda>e. oe_event_id e = i) None rs" using outbox_lawsD(6,1) [OF laws] rs by metis
  show ?thesis
  proof (cases rs)
    case Nil
    have "dv db i = None"
    proof (rule ccontr)
      assume "dv db i \<noteq> None"
      then obtain e where e: "sv ?s i = Some e" using outbox_lawsD(1) [OF laws] by auto
      from outbox_lawsD(8) [OF laws rs e] outbox_lawsD(3) [OF laws e] Nil show False by simp
    qed
    moreover have "db' = db" using run rs Nil by (simp add: pg_update_event_def)
    ultimately show ?thesis by simp
  next
    case (Cons row rest)
    have row: "oe_event_id row = i" "dv db i = Some row" using rows Cons by (auto simp: rows_of_def)
    obtain s where s: "oq_assign q ?s (f row) = Inr s" "oq_commit q s db = Inr db'"
      using run rs Cons by (auto simp: pg_update_event_def Let_def split: sum.splits)
    show ?thesis
      using outbox_lawsD(2) [OF laws s(2)] outbox_lawsD(5) [OF laws s(1)] outbox_lawsD(1) [OF laws] f row by simp
  qed
qed

section \<open>A table that satisfies the laws\<close>

definition clean :: "outbox \<Rightarrow> outbox" where
  "clean es = (if distinct (event_ids es) then es else [])"

definition capped :: "nat option \<Rightarrow> 'a list \<Rightarrow> 'a list" where
  "capped cap xs = (case cap of None \<Rightarrow> xs | Some n \<Rightarrow> take n xs)"

definition list_engine :: "(outbox, outbox) outbox_engine" where
  "list_engine = \<lparr>oq_session = \<lambda>db. db, oq_commit = \<lambda>s db. Inr s,
     oq_add = \<lambda>s e. if find_event (clean s) (oe_event_id e) = None then Inr (clean s @ [e]) else Inl (RuntimeError ''unique''),
     oq_select = \<lambda>s P cap. Inr (capped cap (filter P (clean s))),
     oq_select_skip_locked = \<lambda>s P cap. Inr (capped cap (filter P (clean s))),
     oq_assign = \<lambda>s e. if find_event (clean s) (oe_event_id e) \<noteq> None then Inr (update_event (oe_event_id e) (\<lambda>_. e) (clean s))
        else Inl (RuntimeError ''stale'')\<rparr>"

lemma clean_distinct [simp]: "distinct (event_ids (clean es))"
  by (simp add: clean_def)

lemma clean_id: "distinct (event_ids es) \<Longrightarrow> clean es = es"
  by (simp add: clean_def)

lemma update_same_id:
  assumes "distinct (event_ids es)" "find_event es (oe_event_id e) \<noteq> None"
  shows "event_ids (update_event (oe_event_id e) (\<lambda>_. e) es) = event_ids es"
    "find_event (update_event (oe_event_id e) (\<lambda>_. e) es) i = (if i = oe_event_id e then Some e else find_event es i)"
  using assms by (induction es) auto

lemma capped_rows: "rows_of (find_event (clean s)) P cap (capped cap (filter P (clean s)))"
proof -
  have "set (capped cap (filter P (clean s))) \<subseteq> {e \<in> set (clean s). P e}"
    by (auto simp: capped_def split: option.splits dest: in_set_takeD)
  moreover have "distinct (event_ids (capped cap (filter P (clean s))))"
    using distinct_map_filter [OF clean_distinct [of s], of P] by (auto simp: capped_def take_map [symmetric] split: option.splits)
  ultimately show ?thesis using find_event_in [OF clean_distinct [of s]] by (auto simp: rows_of_def capped_def)
qed

lemma list_engine_laws: "outbox_laws list_engine (\<lambda>s. find_event (clean s)) (\<lambda>s. find_event (clean s))"
proof -
  let ?v = "\<lambda>s. find_event (clean s)"
  have add: "?v s' = (?v s)(oe_event_id e \<mapsto> e)" if "oq_add list_engine s e = Inr s'" for s s' e
  proof -
    have new: "find_event (clean s) (oe_event_id e) = None" and s': "s' = clean s @ [e]"
      using that by (auto simp: list_engine_def split: if_splits)
    then have "distinct (event_ids s')" using find_event_None [of "clean s"] by auto
    then show ?thesis using new s' by (auto simp: clean_id find_event_append fun_eq_iff split: option.splits)
  qed
  have upd: "?v s' = (?v s)(oe_event_id e \<mapsto> e)" if "oq_assign list_engine s e = Inr s'" for s s' e
  proof -
    have old: "find_event (clean s) (oe_event_id e) \<noteq> None" and s': "s' = update_event (oe_event_id e) (\<lambda>_. e) (clean s)"
      using that by (auto simp: list_engine_def split: if_splits)
    note u = update_same_id [OF clean_distinct old]
    have "distinct (event_ids s')" unfolding s' u(1) by simp
    then show ?thesis using u(2) by (simp add: clean_id s' fun_eq_iff)
  qed
  have all: "e \<in> set (clean s)" if "?v s i = Some e" for s i e
    using that find_event_in [OF clean_distinct, of e s] find_event_id by fastforce
  have "\<forall>db. ?v (oq_session list_engine db) = ?v db" "\<forall>s db db'. oq_commit list_engine s db = Inr db' \<longrightarrow> ?v db' = ?v s"
    by (simp_all add: list_engine_def)
  moreover have "\<forall>s i e. ?v s i = Some e \<longrightarrow> oe_event_id e = i" by (blast dest: find_event_id)
  moreover have "\<forall>s e s'. oq_add list_engine s e = Inr s' \<or> oq_assign list_engine s e = Inr s' \<longrightarrow> ?v s' = (?v s)(oe_event_id e \<mapsto> e)"
    using add upd by blast
  moreover have "\<forall>s P cap rs. oq_select list_engine s P cap = Inr rs \<or> oq_select_skip_locked list_engine s P cap = Inr rs \<longrightarrow> rows_of (?v s) P cap rs"
    by (auto simp: list_engine_def capped_rows)
  moreover have "\<forall>s P rs. oq_select list_engine s P None = Inr rs \<longrightarrow> (\<forall>i e. ?v s i = Some e \<and> P e \<longrightarrow> e \<in> set rs)"
    by (auto simp: list_engine_def capped_def dest: all)
  ultimately show ?thesis unfolding outbox_laws_def by (intro conjI)
qed

definition two_events :: outbox where
  "two_events = [new_event 0 ''A'' ''t'' [], new_event 0 ''B'' ''t'' []]"

theorem postgres_claims_exclusive_witness:
  "\<exists>evs db' evs' db''. pg_fetch_pending list_engine 1 True two_events = (Inr evs, db') \<and>
     pg_fetch_pending list_engine 1 True db' = (Inr evs', db'') \<and> event_ids evs = [''EVT-A''] \<and> event_ids evs' = [''EVT-B''] \<and>
     set (event_ids evs) \<inter> set (event_ids evs') = {}"
proof -
  let ?a = "in_flight (new_event 0 ''A'' ''t'' [])" and ?b = "new_event 0 ''B'' ''t'' []"
  have one: "pg_fetch_pending list_engine 1 True two_events = (Inr [?a], [?a, ?b])"
    by (simp add: Let_def pg_fetch_pending_def list_engine_def two_events_def new_event_def clean_def capped_def is_pending_def in_flight_def)
  have two: "pg_fetch_pending list_engine 1 True [?a, ?b] = (Inr [in_flight ?b], [?a, in_flight ?b])"
    by (simp add: Let_def pg_fetch_pending_def list_engine_def new_event_def clean_def capped_def is_pending_def in_flight_def)
  from postgres_claims_exclusive [OF list_engine_laws one two] one two show ?thesis by (simp add: new_event_def)
qed

theorem postgres_outcome_refines_witness:
  "\<exists>db'. pg_mark_failed list_engine ''EVT-A'' two_events = (Inr (), db') \<and>
     map_option oe_retry_count (find_event (clean db') ''EVT-A'') = Some 1 \<and> find_event (clean db') ''EVT-B'' = find_event (clean two_events) ''EVT-B''"
proof -
  have f: "oe_event_id (failed_event e) = oe_event_id e" for e by (simp add: failed_event_def Let_def)
  obtain db' where run: "pg_update_event list_engine failed_event ''EVT-A'' two_events = (Inr (), db')"
    by (simp add: Let_def pg_update_event_def list_engine_def two_events_def new_event_def clean_def capped_def failed_event_def)
  have e: "find_event (clean two_events) ''EVT-A'' = Some (new_event 0 ''A'' ''t'' [])"
    by (simp add: two_events_def new_event_def clean_def)
  have "find_event (clean db') ''EVT-A'' = map_option failed_event (find_event (clean two_events) ''EVT-A'')"
    "find_event (clean db') ''EVT-B'' = find_event (clean two_events) ''EVT-B''"
    using postgres_outcome_refines [OF list_engine_laws f run, of "''EVT-A''"] postgres_outcome_refines [OF list_engine_laws f run, of "''EVT-B''"]
    by simp_all
  then show ?thesis using run unfolding pg_mark_failed_def e by (simp add: failed_event_def new_event_def)
qed

end
