(* ===== verification/Redis_Cache.thy ===== *)
theory Redis_Cache
  imports Circuit_Breaker
begin

text \<open>
  The Redis cache of \<^verbatim>\<open>libflow/storage/redis_cache.py\<close>. The client is a parameter: each command acts on the server
  state \<open>'s\<close> and may raise. Encoding to and from JSON text is the record \<open>codec\<close>; \<open>cd_loads\<close> is \<open>None\<close> where
  \<open>json.loads\<close> raises. A Python value is a \<open>json\<close> value, \<open>None\<close> being \<open>JNull\<close>. Every command of \<open>get\<close> and \<open>set\<close> goes
  through the circuit breaker of the cache, which counts the errors of the client library only.
\<close>

record 's redis_client =
  rd_ping :: "('s, bool) action"
  rd_get :: "string \<Rightarrow> ('s, string option) action"
  rd_set :: "string \<Rightarrow> string \<Rightarrow> ('s, unit) action"
  rd_setex :: "string \<Rightarrow> int \<Rightarrow> string \<Rightarrow> ('s, unit) action"
  rd_delete :: "string list \<Rightarrow> ('s, int) action"
  rd_scan_iter :: "string \<Rightarrow> ('s, string list) action"
  rd_info :: "string \<Rightarrow> ('s, (string, int) dict) action"

record codec =
  cd_dumps :: "json \<Rightarrow> string"
  cd_loads :: "string \<Rightarrow> json option"

record 's redis_cache =
  rc_server :: 's
  rc_hits :: int
  rc_misses :: int
  rc_breaker :: breaker

definition new_redis_cache :: "py_float \<Rightarrow> 's \<Rightarrow> 's redis_cache" where
  "new_redis_cache now server =
     \<lparr>rc_server = server, rc_hits = 0, rc_misses = 0, rc_breaker = new_breaker now ''redis_cache'' 3 5\<rparr>"

definition serialize :: "codec \<Rightarrow> json \<Rightarrow> string" where
  "serialize cd v = cd_dumps cd v"

definition deserialize :: "codec \<Rightarrow> string option \<Rightarrow> json" where
  "deserialize cd raw =
     (case raw of None \<Rightarrow> JNull | Some t \<Rightarrow> (case cd_loads cd t of Some v \<Rightarrow> v | None \<Rightarrow> JStr t))"

fun redis_error :: "exn \<Rightarrow> bool" where
  "redis_error (RedisError _) = True"
| "redis_error _ = False"

section \<open>Commands\<close>

text \<open>A command of the client as an action on the cache object.\<close>

definition on_server :: "('s, 'a) action \<Rightarrow> ('s redis_cache, 'a) action" where
  "on_server cmd c = (case cmd (rc_server c) of (r, s) \<Rightarrow> (r, c\<lparr>rc_server := s\<rparr>))"

definition guarded_call ::
  "py_float \<Rightarrow> py_float \<Rightarrow> ('s redis_cache, 'a) action \<Rightarrow> ('s redis_cache, 'a) action \<Rightarrow> ('s redis_cache, 'a) action" where
  "guarded_call now later operation fallback c =
     (case cb_call redis_error now later (rc_breaker c) operation (Some fallback) c of
        (r, c, cb) \<Rightarrow> (r, c\<lparr>rc_breaker := cb\<rparr>))"

definition connection_ok :: "'s redis_client \<Rightarrow> py_float \<Rightarrow> py_float \<Rightarrow> ('s redis_cache, bool) action" where
  "connection_ok cl now later = guarded_call now later (on_server (rd_ping cl)) (\<lambda>c. (Inr False, c))"

definition redis_read :: "'s redis_client \<Rightarrow> codec \<Rightarrow> string \<Rightarrow> ('s redis_cache, json) action" where
  "redis_read cl cd key c =
     (case on_server (rd_get cl key) c of
        (Inl e, c) \<Rightarrow> (Inl e, c)
      | (Inr None, c) \<Rightarrow> (Inr JNull, c\<lparr>rc_misses := rc_misses c + 1\<rparr>)
      | (Inr (Some raw), c) \<Rightarrow> (Inr (deserialize cd (Some raw)), c\<lparr>rc_hits := rc_hits c + 1\<rparr>))"

definition read_fallback :: "('s redis_cache, json) action" where
  "read_fallback c = (Inr JNull, c\<lparr>rc_misses := rc_misses c + 1\<rparr>)"

definition redis_get :: "'s redis_client \<Rightarrow> codec \<Rightarrow> py_float \<Rightarrow> py_float \<Rightarrow> string \<Rightarrow> ('s redis_cache, json) action" where
  "redis_get cl cd now later key = guarded_call now later (redis_read cl cd key) read_fallback"

definition py_int_of :: "py_float \<Rightarrow> int" where
  "py_int_of x = (if x \<ge> 0 then \<lfloor>x\<rfloor> else \<lceil>x\<rceil>)"

definition redis_write :: "'s redis_client \<Rightarrow> codec \<Rightarrow> string \<Rightarrow> json \<Rightarrow> py_float option \<Rightarrow> ('s redis_cache, unit) action" where
  "redis_write cl cd key v ttl =
     (case ttl of
        None \<Rightarrow> on_server (rd_set cl key (serialize cd v))
      | Some t \<Rightarrow> on_server (rd_setex cl key (py_int_of t) (serialize cd v)))"

definition redis_set ::
  "'s redis_client \<Rightarrow> codec \<Rightarrow> py_float \<Rightarrow> py_float \<Rightarrow> string \<Rightarrow> json \<Rightarrow> py_float option \<Rightarrow> ('s redis_cache, unit) action" where
  "redis_set cl cd now later key v ttl = guarded_call now later (redis_write cl cd key v ttl) (\<lambda>c. (Inr (), c))"

text \<open>The invalidations bypass the breaker; an error of the client library counts as nothing to delete.\<close>

definition or_on_error :: "'a \<Rightarrow> ('s redis_cache, 'a) action \<Rightarrow> ('s redis_cache, 'a) action" where
  "or_on_error d act c = (case act c of (Inl e, c) \<Rightarrow> if redis_error e then (Inr d, c) else (Inl e, c) | (Inr x, c) \<Rightarrow> (Inr x, c))"

definition redis_invalidate :: "'s redis_client \<Rightarrow> string \<Rightarrow> ('s redis_cache, bool) action" where
  "redis_invalidate cl key = or_on_error False (\<lambda>c.
     case on_server (rd_delete cl [key]) c of (Inl e, c) \<Rightarrow> (Inl e, c) | (Inr n, c) \<Rightarrow> (Inr (n \<noteq> 0), c))"

definition redis_invalidate_prefix :: "'s redis_client \<Rightarrow> string \<Rightarrow> ('s redis_cache, int) action" where
  "redis_invalidate_prefix cl pfx = or_on_error 0 (\<lambda>c.
     case on_server (rd_scan_iter cl (pfx @ ''*'')) c of
       (Inl e, c) \<Rightarrow> (Inl e, c)
     | (Inr keys, c) \<Rightarrow> if keys = [] then (Inr 0, c) else on_server (rd_delete cl keys) c)"

definition redis_get_or_compute ::
  "'s redis_client \<Rightarrow> codec \<Rightarrow> (nat \<Rightarrow> py_float) \<Rightarrow> string \<Rightarrow> (exn + json) \<Rightarrow> py_float \<Rightarrow> ('s redis_cache, json) action" where
  "redis_get_or_compute cl cd clock key computed ttl c =
     (case redis_get cl cd (clock 0) (clock 1) key c of
        (Inl e, c) \<Rightarrow> (Inl e, c)
      | (Inr cached, c) \<Rightarrow>
          if cached \<noteq> JNull then (Inr cached, c)
          else (case computed of
                  Inl e \<Rightarrow> (Inl e, c)
                | Inr v \<Rightarrow>
                    if v = JNull then (Inr v, c)
                    else (case redis_set cl cd (clock 2) (clock 3) key v (Some ttl) c of
                            (Inl e, c) \<Rightarrow> (Inl e, c)
                          | (Inr _, c) \<Rightarrow> (Inr v, c))))"

definition redis_get_stats :: "'s redis_client \<Rightarrow> ('s redis_cache, (string, json) dict) action" where
  "redis_get_stats cl c =
     (case or_on_error ([], 0) (\<lambda>c.
         case on_server (rd_info cl ''stats'') c of
           (Inl e, c) \<Rightarrow> (Inl e, c)
         | (Inr info, c) \<Rightarrow>
             (case on_server (rd_info cl ''clients'') c of
                (Inl e, c) \<Rightarrow> (Inl e, c)
              | (Inr clients, c) \<Rightarrow> (Inr (info, dget_default clients ''connected_clients'' 0), c))) c of
        (Inl e, c) \<Rightarrow> (Inl e, c)
      | (Inr (info, connected_clients), c) \<Rightarrow>
          let all = rc_hits c + rc_misses c;
              hit_ratio = (if all > 0 then of_int (rc_hits c) / of_int all else 0)
          in (Inr [(''backend'', JStr ''redis''), (''hits'', JInt (rc_hits c)), (''misses'', JInt (rc_misses c)),
                   (''hit_ratio_pct'', JFloat (py_round (hit_ratio * 100) 2)),
                   (''redis_keyspace_hits'', JInt (dget_default info ''keyspace_hits'' 0)),
                   (''redis_keyspace_misses'', JInt (dget_default info ''keyspace_misses'' 0)),
                   (''connected_clients'', JInt connected_clients)], c))"

section \<open>Degradation\<close>

text \<open>A client whose commands raise nothing but the errors of its library.\<close>

definition client_errors :: "'s redis_client \<Rightarrow> bool" where
  "client_errors cl \<longleftrightarrow>
     (\<forall>k s e. fst (rd_get cl k s) = Inl e \<longrightarrow> redis_error e) \<and> (\<forall>k v s e. fst (rd_set cl k v s) = Inl e \<longrightarrow> redis_error e) \<and>
     (\<forall>k n v s e. fst (rd_setex cl k n v s) = Inl e \<longrightarrow> redis_error e)"

text \<open>What a guarded call does: the operation runs or not, and an error of the library turns into the fallback.\<close>

lemma guarded_call_cases:
  obtains (blocked) cb where "guarded_call now later op fb c = (case fb c of (r, c') \<Rightarrow> (r, c'\<lparr>rc_breaker := cb\<rparr>))"
  | (ran) x c1 cb where "op c = (Inr x, c1)" "guarded_call now later op fb c = (Inr x, c1\<lparr>rc_breaker := cb\<rparr>)"
  | (caught) e c1 cb where "op c = (Inl e, c1)" "redis_error e"
      "guarded_call now later op fb c = (case fb c1 of (r, c') \<Rightarrow> (r, c'\<lparr>rc_breaker := cb\<rparr>))"
  | (raised) e c1 cb where "op c = (Inl e, c1)" "\<not> redis_error e" "guarded_call now later op fb c = (Inl e, c1\<lparr>rc_breaker := cb\<rparr>)"
proof -
  obtain ok cb0 where g: "call_guard now (rc_breaker c) = (ok, cb0)" by fastforce
  obtain r c1 where o: "op c = (r, c1)" by fastforce
  consider "\<not> ok" | x where "ok" "r = Inr x" | e where "ok" "r = Inl e" "redis_error e" | e where "ok" "r = Inl e" "\<not> redis_error e"
    by (cases r) auto
  then show thesis
  proof cases
    case 1
    then show thesis using g by (intro blocked [of cb0]) (simp add: guarded_call_def cb_call_def split: prod.splits)
  next
    case (2 x)
    then show thesis using g o by (intro ran [of x c1 "on_success cb0"]) (simp_all add: guarded_call_def cb_call_def)
  next
    case (3 e)
    then show thesis using g o
      by (intro caught [of e c1 "on_failure later cb0"]) (simp_all add: guarded_call_def cb_call_def split: prod.splits)
  next
    case (4 e)
    then show thesis using g o by (intro raised [of e c1 cb0]) (simp_all add: guarded_call_def cb_call_def)
  qed
qed

lemma on_server_fields [simp]:
  "rc_hits (snd (on_server cmd c)) = rc_hits c" "rc_misses (snd (on_server cmd c)) = rc_misses c"
  "fst (on_server cmd c) = fst (cmd (rc_server c))" "rc_server (snd (on_server cmd c)) = snd (cmd (rc_server c))"
  by (simp_all add: on_server_def case_prod_unfold)

lemma redis_get_total:
  assumes "client_errors cl"
  obtains r c' where "redis_get cl cd now later key c = (Inr r, c')" "rc_hits c' + rc_misses c' = rc_hits c + rc_misses c + 1"
    "r = JNull \<or> (\<exists>raw. fst (rd_get cl key (rc_server c)) = Inr (Some raw) \<and> r = deserialize cd (Some raw))"
proof -
  obtain x s where g: "rd_get cl key (rc_server c) = (x, s)" by fastforce
  have err: "redis_error e" if "x = Inl e" for e using assms g that unfolding client_errors_def by (metis fst_conv)
  show thesis
  proof (cases rule: guarded_call_cases [of now later "redis_read cl cd key" read_fallback c])
    case (blocked cb)
    then show thesis
      by (intro that [of JNull "c\<lparr>rc_misses := rc_misses c + 1, rc_breaker := cb\<rparr>"]) (simp_all add: redis_get_def read_fallback_def)
  next
    case (ran r c1 cb)
    then show thesis using g
      by (intro that [of r "c1\<lparr>rc_breaker := cb\<rparr>"])
        (auto simp: redis_get_def redis_read_def on_server_def split: sum.splits option.splits)
  next
    case (caught e c1 cb)
    then have "rc_hits c1 = rc_hits c \<and> rc_misses c1 = rc_misses c"
      using g by (auto simp: redis_read_def on_server_def split: sum.splits option.splits)
    with caught show thesis
      by (intro that [of JNull "c1\<lparr>rc_misses := rc_misses c1 + 1, rc_breaker := cb\<rparr>"]) (simp_all add: redis_get_def read_fallback_def)
  next
    case (raised e c1 cb)
    then have "x = Inl e" using g by (auto simp: redis_read_def on_server_def split: sum.splits option.splits)
    with raised err show thesis by blast
  qed
qed

lemma redis_set_total:
  assumes "client_errors cl"
  obtains c' where "redis_set cl cd now later key v ttl c = (Inr (), c')" "rc_hits c' = rc_hits c" "rc_misses c' = rc_misses c"
proof -
  let ?w = "redis_write cl cd key v ttl"
  have fields: "rc_hits (snd (?w c)) = rc_hits c" "rc_misses (snd (?w c)) = rc_misses c"
    by (simp_all add: redis_write_def split: option.splits)
  have err: "redis_error e" if "fst (?w c) = Inl e" for e
    using that assms by (auto simp: redis_write_def client_errors_def split: option.splits)
  show thesis
  proof (cases rule: guarded_call_cases [of now later ?w "\<lambda>c. (Inr (), c)" c])
    case (raised e c1 cb)
    then show thesis using err by simp
  qed (use fields in \<open>auto intro!: that simp: redis_set_def\<close>)
qed

text \<open>
  C30: losing Redis never loses an answer. As long as the client raises nothing but the errors of its own library, a
  read-through lookup whose source of truth has a value returns a value and raises nothing, in every state of the
  breaker: the cached one, if the server returned one, and the computed one otherwise. It counts as exactly one hit
  or miss.
\<close>

theorem redis_outage_is_invisible:
  assumes "client_errors cl"
  shows "\<exists>r c'. redis_get_or_compute cl cd clock key (Inr v) ttl c = (Inr r, c') \<and>
    rc_hits c' + rc_misses c' = rc_hits c + rc_misses c + 1 \<and>
    (r = v \<or> (\<exists>raw. fst (rd_get cl key (rc_server c)) = Inr (Some raw) \<and> r = deserialize cd (Some raw)))"
proof -
  obtain r c1 where g: "redis_get cl cd (clock 0) (clock 1) key c = (Inr r, c1)"
    "rc_hits c1 + rc_misses c1 = rc_hits c + rc_misses c + 1"
    "r = JNull \<or> (\<exists>raw. fst (rd_get cl key (rc_server c)) = Inr (Some raw) \<and> r = deserialize cd (Some raw))"
    by (rule redis_get_total [OF assms, of cd "clock 0" "clock 1" key c])
  obtain c2 where s: "redis_set cl cd (clock 2) (clock 3) key v (Some ttl) c1 = (Inr (), c2)" "rc_hits c2 = rc_hits c1" "rc_misses c2 = rc_misses c1"
    by (rule redis_set_total [OF assms])
  consider "r \<noteq> JNull" | "r = JNull" "v = JNull" | "r = JNull" "v \<noteq> JNull" by blast
  then show ?thesis by cases (use g s in \<open>simp_all add: redis_get_or_compute_def\<close>)
qed

text \<open>
  A value that was written is read back. With a closed breaker, a server that returns what was last stored and a codec
  that can be undone, a read after a write returns the written value.
\<close>

definition server_laws :: "'s redis_client \<Rightarrow> bool" where
  "server_laws cl \<longleftrightarrow>
     (\<forall>k n v s. fst (rd_setex cl k n v s) = Inr () \<longrightarrow> fst (rd_get cl k (snd (rd_setex cl k n v s))) = Inr (Some v))"

theorem redis_read_your_write:
  assumes laws: "server_laws cl" and codec: "cd_loads cd (cd_dumps cd v) = Some v" and closed: "cb_state (rc_breaker c) = CLOSED"
    and stored: "fst (rd_setex cl key (py_int_of ttl) (cd_dumps cd v) (rc_server c)) = Inr ()"
  shows "fst (redis_get cl cd now' later' key (snd (redis_set cl cd now later key v (Some ttl) c))) = Inr v"
proof -
  let ?w = "on_server (rd_setex cl key (py_int_of ttl) (cd_dumps cd v)) c"
  have w: "redis_write cl cd key v (Some ttl) c = (Inr (), snd ?w)"
    using stored by (simp add: redis_write_def serialize_def prod_eq_iff)
  then have s: "snd (redis_set cl cd now later key v (Some ttl) c) = (snd ?w)\<lparr>rc_breaker := on_success (rc_breaker c)\<rparr>"
    using closed by (simp add: redis_set_def guarded_call_def cb_call_def call_guard_def)
  have "fst (rd_get cl key (snd (rd_setex cl key (py_int_of ttl) (cd_dumps cd v) (rc_server c)))) = Inr (Some (cd_dumps cd v))"
    using laws stored by (simp add: server_laws_def)
  then show ?thesis unfolding s
    by (simp add: redis_get_def guarded_call_def cb_call_def call_guard_def on_success_def redis_read_def on_server_def
        case_prod_unfold deserialize_def codec)
qed

text \<open>
  An invalidation that fails is forgotten. If the server refuses a delete, the invalidation reports that there was
  nothing to delete and raises nothing, and a later read still returns the old value.
\<close>

theorem lost_invalidation_serves_old_value:
  assumes refused: "rd_delete cl [key] (rc_server c) = (Inl (RedisError m), rc_server c)"
    and there: "fst (rd_get cl key (rc_server c)) = Inr (Some raw)" and closed: "cb_state (rc_breaker c) = CLOSED"
  shows "redis_invalidate cl key c = (Inr False, c) \<and>
    fst (redis_get cl cd now later key (snd (redis_invalidate cl key c))) = Inr (deserialize cd (Some raw))"
proof -
  have i: "redis_invalidate cl key c = (Inr False, c)"
    using refused by (simp add: redis_invalidate_def or_on_error_def on_server_def)
  show ?thesis unfolding i using there closed
    by (simp add: redis_get_def guarded_call_def cb_call_def call_guard_def redis_read_def on_server_def case_prod_unfold)
qed

section \<open>A server\<close>

text \<open>A server that keeps what is stored, can be unreachable, and can refuse to delete.\<close>

record toy_server =
  ts_store :: "(string, string) dict"
  ts_up :: bool
  ts_readonly :: bool

definition when_up :: "('a \<times> toy_server) \<Rightarrow> toy_server \<Rightarrow> (exn + 'a) \<times> toy_server" where
  "when_up r s = (if ts_up s then (Inr (fst r), snd r) else (Inl (RedisError ''unreachable''), s))"

definition toy_client :: "toy_server redis_client" where
  "toy_client = \<lparr>rd_ping = \<lambda>s. when_up (True, s) s, rd_get = \<lambda>k s. when_up (dget (ts_store s) k, s) s,
     rd_set = \<lambda>k v s. when_up ((), s\<lparr>ts_store := dset (ts_store s) k v\<rparr>) s,
     rd_setex = \<lambda>k n v s. when_up ((), s\<lparr>ts_store := dset (ts_store s) k v\<rparr>) s,
     rd_delete = \<lambda>ks s. if ts_readonly s then (Inl (RedisError ''READONLY''), s) else when_up (int (length ks), s\<lparr>ts_store := foldl dpop (ts_store s) ks\<rparr>) s,
     rd_scan_iter = \<lambda>p s. when_up (filter (prefix (butlast p)) (dkeys (ts_store s)), s) s, rd_info = \<lambda>k s. when_up ([], s) s\<rparr>"

definition text_codec :: codec where
  "text_codec = \<lparr>cd_dumps = \<lambda>v. (case v of JStr t \<Rightarrow> CHR ''s'' # t | _ \<Rightarrow> []),
     cd_loads = \<lambda>t. (case t of c # r \<Rightarrow> if c = CHR ''s'' then Some (JStr r) else None | [] \<Rightarrow> None)\<rparr>"

lemma toy_client_laws: "client_errors toy_client" "server_laws toy_client"
  by (auto simp: client_errors_def server_laws_def toy_client_def when_up_def split: if_splits)

definition toy_cache :: "bool \<Rightarrow> toy_server redis_cache" where
  "toy_cache up = new_redis_cache 0 \<lparr>ts_store = [(''k'', ''sold'')], ts_up = up, ts_readonly = True\<rparr>"

theorem redis_outage_is_invisible_witness:
  "fst (redis_get_or_compute toy_client text_codec (\<lambda>n. of_nat n) ''k'' (Inr (JStr ''new'')) 300 (toy_cache False)) = Inr (JStr ''new'')"
  using redis_outage_is_invisible [OF toy_client_laws(1), of text_codec "\<lambda>n. of_nat n" "''k''" "JStr ''new''" 300 "toy_cache False"]
  by (auto simp: toy_client_def when_up_def toy_cache_def new_redis_cache_def)

theorem redis_read_your_write_witness:
  "fst (redis_get toy_client text_codec 0 0 ''a'' (snd (redis_set toy_client text_codec 0 0 ''a'' (JStr ''v'') (Some 300) (toy_cache True)))) = Inr (JStr ''v'')"
  by (rule redis_read_your_write [OF toy_client_laws(2)])
    (simp_all add: text_codec_def toy_cache_def new_redis_cache_def new_breaker_def toy_client_def when_up_def)

theorem lost_invalidation_serves_old_value_witness:
  "fst (redis_get toy_client text_codec 0 0 ''k'' (snd (redis_invalidate toy_client ''k'' (toy_cache True)))) = Inr (JStr ''old'')"
proof -
  have d: "rd_delete toy_client [''k''] (rc_server (toy_cache True)) = (Inl (RedisError ''READONLY''), rc_server (toy_cache True))"
    by (simp add: toy_client_def toy_cache_def new_redis_cache_def)
  have g: "fst (rd_get toy_client ''k'' (rc_server (toy_cache True))) = Inr (Some ''sold'')"
    by (simp add: toy_client_def toy_cache_def new_redis_cache_def when_up_def)
  have c: "cb_state (rc_breaker (toy_cache True)) = CLOSED" by (simp add: toy_cache_def new_redis_cache_def new_breaker_def)
  have "deserialize text_codec (Some ''sold'') = JStr ''old''" by (simp add: deserialize_def text_codec_def)
  with lost_invalidation_serves_old_value [OF d g c, of text_codec 0 0] show ?thesis by metis
qed

end
