(* ===== verification/Postgres_Circulation.thy ===== *)
theory Postgres_Circulation
  imports Postgres_Repository Postgres_Outbox Redis_Cache Circulation
begin

text \<open>
  Checkouts and returns of \<^verbatim>\<open>libflow/services/circulation_service.py\<close> in the deployed wiring of
  \<^verbatim>\<open>build_postgres_container\<close>: the repositories and the outbox share the session of the mutation block, the cache is
  the Redis cache, and the reservation desk, the dispatcher, the forecaster, the rebalancer and the audit log stay in the
  memory of the process. The database and the Redis server are the parameters of the theories this one is built on;
  \<open>backend_laws\<close> adds that the outbox table and the other tables are in one database.
\<close>

section \<open>The deployed wiring\<close>

record 'r process =
  pr_cache :: "'r redis_cache"
  pr_reservations :: reservation_mgr
  pr_dispatcher :: dispatcher
  pr_forecaster :: forecaster
  pr_rebalancer :: rebalancer
  pr_audit :: "log_entry list"

record ('db, 's, 'r) backend =
  be_engine :: "('db, 's) engine"
  be_outbox :: "('db, 's) outbox_engine"
  be_redis :: "'r redis_client"
  be_users :: user_env
  be_order :: "string set \<Rightarrow> string list"

definition build_postgres_process :: "py_float \<Rightarrow> 'r \<Rightarrow> 'r process" where
  "build_postgres_process now server =
     \<lparr>pr_cache = new_redis_cache now server, pr_reservations = new_reservation_mgr, pr_dispatcher = container_dispatcher,
      pr_forecaster = new_forecaster, pr_rebalancer = new_rebalancer, pr_audit = []\<rparr>"

text \<open>A call of a repository or of the outbox with the session of the block; what follows it sees the session as it left it.\<close>

definition in_tx ::
  "(('db, 's) conn \<Rightarrow> (exn + 'a) \<times> ('db, 's) conn) \<Rightarrow> ('a \<Rightarrow> 's \<Rightarrow> 'p \<Rightarrow> (exn + 'b) \<times> 's \<times> 'p) \<Rightarrow> 's \<Rightarrow> 'p \<Rightarrow> (exn + 'b) \<times> 's \<times> 'p" where
  "in_tx m k s p =
     (case m (Given s) of (r, c) \<Rightarrow>
        let s = (case c of Given s' \<Rightarrow> s' | Own _ \<Rightarrow> s)
        in case r of Inl e \<Rightarrow> (Inl e, s, p) | Inr x \<Rightarrow> k x s p)"

definition event_tx ::
  "('db, 's) outbox_engine \<Rightarrow> call_env \<Rightarrow> string \<Rightarrow> payload \<Rightarrow> ('s \<Rightarrow> 'p \<Rightarrow> (exn + 'b) \<times> 's \<times> 'p) \<Rightarrow> 's \<Rightarrow> 'p \<Rightarrow> (exn + 'b) \<times> 's \<times> 'p" where
  "event_tx q env topic payload k s p =
     (case pg_add_event q (ev_now env) (ev_uuid12 env) topic payload s of
        (Inl e, s) \<Rightarrow> (Inl e, s, p)
      | (Inr _, s) \<Rightarrow> k s p)"

definition invalidate_tx ::
  "'r redis_client \<Rightarrow> string \<Rightarrow> ('s \<Rightarrow> 'r process \<Rightarrow> (exn + 'b) \<times> 's \<times> 'r process) \<Rightarrow> 's \<Rightarrow> 'r process \<Rightarrow> (exn + 'b) \<times> 's \<times> 'r process" where
  "invalidate_tx cl key k s p =
     (case redis_invalidate cl key (pr_cache p) of
        (Inl e, c) \<Rightarrow> (Inl e, s, p\<lparr>pr_cache := c\<rparr>)
      | (Inr _, c) \<Rightarrow> k s (p\<lparr>pr_cache := c\<rparr>))"

definition pr_dispatch :: "call_env \<Rightarrow> 'r process \<Rightarrow> string \<Rightarrow> string \<Rightarrow> string \<Rightarrow> payload \<Rightarrow> 'r process" where
  "pr_dispatch env p event_type recipient_id message payload =
     p\<lparr>pr_dispatcher := dispatch (pr_dispatcher p)
        \<lparr>ne_event_type = event_type, ne_recipient_id = recipient_id, ne_message = message,
         ne_payload = payload, ne_timestamp = ev_now env\<rparr>\<rparr>"

definition pr_log :: "call_env \<Rightarrow> 'r process \<Rightarrow> string \<Rightarrow> string \<Rightarrow> string \<Rightarrow> payload \<Rightarrow> 'r process" where
  "pr_log env p actor_id action resource_id details =
     p\<lparr>pr_audit := log_event (ev_now env) (pr_audit p) actor_id action resource_id details\<rparr>"

section \<open>Checkout\<close>

text \<open>The part after \<open>copy.check_out\<close>: what is stored, and the events in the memory of the process.\<close>

definition pg_record_issue ::
  "('db, 's, 'r) backend \<Rightarrow> call_env \<Rightarrow> string \<Rightarrow> string \<Rightarrow> int \<Rightarrow> user \<Rightarrow> book_copy \<Rightarrow> 's \<Rightarrow> 'r process \<Rightarrow>
     (exn + (string, json) dict \<times> book_copy \<times> timestamp) \<times> 's \<times> 'r process" where
  "pg_record_issue be env copy_id user_id loan_days u c =
     (let u = add_borrow (ev_now env) u copy_id (cp_book_isbn c);
          due_date = ev_now env + loan_days * 86400;
          tx = tx_record env copy_id (cp_book_isbn c) user_id due_date
      in in_tx (pg_save_record (be_engine be) tx) (\<lambda>_.
         in_tx (pg_save_copy (be_engine be) c) (\<lambda>_.
         in_tx (pg_save_user (be_engine be) (be_users be) (be_order be) u) (\<lambda>_.
         event_tx (be_outbox be) env ''copy.issued''
           [(''copy_id'', JStr copy_id), (''isbn'', JStr (cp_book_isbn c)), (''user_id'', JStr user_id),
            (''due_date'', JInt due_date), (''transaction_id'', JStr (''TX-'' @ ev_uuid8 env))] (\<lambda>s p.
           let p = p\<lparr>pr_forecaster := record_checkout (pr_forecaster p) (cp_book_isbn c) (date_of (ev_now env)) (Some (cp_branch_id c))\<rparr>;
               p = p\<lparr>pr_rebalancer := snd (record_checkout_hook (ev_now env) (pr_rebalancer p) copy_id (cp_branch_id c))\<rparr>
           in invalidate_tx (be_redis be) (''book:'' @ cp_book_isbn c) (\<lambda>s p. (Inr (tx, c, due_date), s, p)) s p)))))"

definition pg_issue_section ::
  "('db, 's, 'r) backend \<Rightarrow> call_env \<Rightarrow> string \<Rightarrow> string \<Rightarrow> int \<Rightarrow> 's \<Rightarrow> 'r process \<Rightarrow>
     (exn + (string, json) dict \<times> book_copy \<times> timestamp) \<times> 's \<times> 'r process" where
  "pg_issue_section be env copy_id user_id loan_days =
     in_tx (pg_get_user (be_engine be) (be_users be) user_id True) (\<lambda>user s p. case user of
        None \<Rightarrow> (Inl (UserNotFoundError user_id), s, p)
      | Some u \<Rightarrow>
          if \<not> can_borrow u then (Inl (UserNotEligibleError user_id ''borrow limit reached or unpaid fines''), s, p)
          else in_tx (pg_get_copy (be_engine be) copy_id) (\<lambda>copy s p. case copy of
            None \<Rightarrow> (Inl (CopyNotFoundError copy_id), s, p)
          | Some c \<Rightarrow>
              if copy_status c \<noteq> AVAILABLE \<and> \<not> (copy_status c = RESERVED \<and> cp_reserver c = Some user_id)
              then (Inl (CopyUnavailableError copy_id (Some (status_value (copy_status c)))), s, p)
              else case copy_check_out c user_id of
                Inl e \<Rightarrow> (Inl (InvalidStateTransitionError (exn_message e)), s, p)
              | Inr c \<Rightarrow> pg_record_issue be env copy_id user_id loan_days u c s p) s p)"

definition pg_issue_physical_book ::
  "('db, 's, 'r) backend \<Rightarrow> call_env \<Rightarrow> 'db \<Rightarrow> 'r process \<Rightarrow> string \<Rightarrow> string \<Rightarrow> string \<Rightarrow> int \<Rightarrow> (exn + (string, json) dict) \<times> 'db \<times> 'r process" where
  "pg_issue_physical_book be env db p copy_id user_id actor_id loan_days =
     (case pg_locking_section (be_engine be) copy_id (pg_issue_section be env copy_id user_id loan_days) db p of
        (Inl e, db, p) \<Rightarrow> (Inl e, db, p)
      | (Inr (tx, c, due_date), db, p) \<Rightarrow>
          let p = pr_dispatch env p ''BOOK_ISSUED'' user_id (issue_message env copy_id due_date)
                    [(''copy_id'', JStr copy_id), (''isbn'', JStr (cp_book_isbn c)), (''due_date'', JInt due_date)];
              p = pr_log env p actor_id ''ISSUE_BOOK'' copy_id [(''user_id'', JStr user_id), (''isbn'', JStr (cp_book_isbn c))]
          in (Inr tx, db, p))"

section \<open>Return\<close>

text \<open>The part after \<open>copy.return_book\<close>: the copy is stored, assigned to the next waiting user, and reported.\<close>

definition pg_record_return ::
  "('db, 's, 'r) backend \<Rightarrow> call_env \<Rightarrow> string \<Rightarrow> string \<Rightarrow> bool \<Rightarrow> bool \<Rightarrow> string \<Rightarrow> book_copy \<Rightarrow> 's \<Rightarrow> 'r process \<Rightarrow>
     (exn + (string, json) dict) \<times> 's \<times> 'r process" where
  "pg_record_return be env copy_id actor_id is_late is_damaged borrower_id c =
     in_tx (pg_save_copy (be_engine be) c) (\<lambda>_ s p.
       let (assigned, rm, disp) = handle_copy_returned (ev_strftime env) (ev_now env) (pr_reservations p)
             (Some (pr_dispatcher p)) (cp_book_isbn c) copy_id 48;
           p = p\<lparr>pr_reservations := rm, pr_dispatcher := the disp\<rparr>
       in case (case assigned of None \<Rightarrow> Inr c | Some e \<Rightarrow> copy_reserve c (re_user_id e)) of
            Inl e \<Rightarrow> (Inl e, s, p)
          | Inr c \<Rightarrow> in_tx (if assigned = None then (\<lambda>conn. (Inr (), conn)) else pg_save_copy (be_engine be) c) (\<lambda>_.
              event_tx (be_outbox be) env ''copy.returned''
                [(''copy_id'', JStr copy_id), (''isbn'', JStr (cp_book_isbn c)), (''user_id'', JStr borrower_id),
                 (''is_late'', JBool is_late), (''is_damaged'', JBool is_damaged),
                 (''assigned_reservation'', assigned_json assigned)] (
              invalidate_tx (be_redis be) (''book:'' @ cp_book_isbn c) (\<lambda>s p.
                (Inr [(''copy_id'', JStr copy_id), (''status'', JStr (status_value (copy_status c))),
                      (''previous_borrower'', JStr borrower_id),
                      (''auto_assigned_to_reservation'', json_opt (\<lambda>e. JObj (reservation_to_dict e)) assigned)], s,
                 pr_log env p actor_id ''RETURN_BOOK'' copy_id
                   [(''previous_borrower'', JStr borrower_id), (''is_late'', JBool is_late),
                    (''is_damaged'', JBool is_damaged), (''assigned_reservation'', assigned_json assigned)])))) s p)"

definition pg_return_section ::
  "('db, 's, 'r) backend \<Rightarrow> call_env \<Rightarrow> string \<Rightarrow> string \<Rightarrow> bool \<Rightarrow> bool \<Rightarrow> 's \<Rightarrow> 'r process \<Rightarrow>
     (exn + (string, json) dict) \<times> 's \<times> 'r process" where
  "pg_return_section be env copy_id actor_id is_late is_damaged =
     in_tx (pg_get_copy (be_engine be) copy_id) (\<lambda>copy s p. case copy of
        None \<Rightarrow> (Inl (CopyNotFoundError copy_id), s, p)
      | Some c \<Rightarrow>
          if \<not> truthy (cp_borrower c)
          then (Inl (InvalidStateTransitionError (''Copy '' @ quoted copy_id @ '' is not currently issued to any user.'')), s, p)
          else
            let borrower_id = the (cp_borrower c)
            in in_tx (pg_get_user (be_engine be) (be_users be) borrower_id False) (\<lambda>user.
               in_tx (case user of
                        None \<Rightarrow> (\<lambda>conn. (Inr (), conn))
                      | Some u \<Rightarrow> pg_save_user (be_engine be) (be_users be) (be_order be) (record_return (ev_now env) u copy_id is_late is_damaged)) (\<lambda>_ s p.
                 case copy_return_book c of
                   Inl e \<Rightarrow> (Inl e, s, p)
                 | Inr c \<Rightarrow> pg_record_return be env copy_id actor_id is_late is_damaged borrower_id c s p)) s p)"

definition pg_return_physical_book ::
  "('db, 's, 'r) backend \<Rightarrow> call_env \<Rightarrow> 'db \<Rightarrow> 'r process \<Rightarrow> string \<Rightarrow> string \<Rightarrow> bool \<Rightarrow> bool \<Rightarrow> (exn + (string, json) dict) \<times> 'db \<times> 'r process" where
  "pg_return_physical_book be env db p copy_id actor_id is_late is_damaged =
     pg_locking_section (be_engine be) copy_id (pg_return_section be env copy_id actor_id is_late is_damaged) db p"

section \<open>What the service relies on\<close>

text \<open>One database: the same sessions and commits for both sets of tables, and a write to a table changes no other.\<close>

definition backend_laws ::
  "('db, 's, 'r) backend \<Rightarrow> ('s \<Rightarrow> tables) \<Rightarrow> ('db \<Rightarrow> tables) \<Rightarrow> ('s \<Rightarrow> event_view) \<Rightarrow> ('db \<Rightarrow> event_view) \<Rightarrow> bool" where
  "backend_laws be sv dv ov odv \<longleftrightarrow>
     engine_laws (be_engine be) sv dv \<and> outbox_laws (be_outbox be) ov odv \<and>
     oq_session (be_outbox be) = en_create_session (be_engine be) \<and> oq_commit (be_outbox be) = en_commit (be_engine be) \<and>
     (\<forall>s e s'. oq_add (be_outbox be) s e = Inr s' \<longrightarrow> sv s' = sv s) \<and>
     (\<forall>s m s'. t_add (en_records (be_engine be)) s m = Inr s' \<longrightarrow> ov s' = ov s) \<and>
     (\<forall>s m s'. t_merge (en_copies (be_engine be)) s m = Inr s' \<longrightarrow> ov s' = ov s) \<and>
     (\<forall>s m s'. t_merge (en_users (be_engine be)) s m = Inr s' \<longrightarrow> ov s' = ov s)"

lemma backend_lawsD:
  assumes "backend_laws be sv dv ov odv"
  shows "engine_laws (be_engine be) sv dv" "outbox_laws (be_outbox be) ov odv"
  using assms by (simp_all add: backend_laws_def)

lemma outbox_start: "backend_laws be sv dv ov odv \<Longrightarrow> ov (en_create_session (be_engine be) db) = odv db"
  by (metis backend_laws_def outbox_lawsD(1))

lemma outbox_commit: "backend_laws be sv dv ov odv \<Longrightarrow> en_commit (be_engine be) s db = Inr db' \<Longrightarrow> odv db' = ov s"
  by (metis backend_laws_def outbox_lawsD(2))

text \<open>What a lookup finds in the tables.\<close>

definition stored_user :: "user_env \<Rightarrow> tables \<Rightarrow> string \<Rightarrow> exn + user option" where
  "stored_user ue t i = optional (model_to_user ue) (dget (tb_users t) i)"

definition stored_copy :: "tables \<Rightarrow> string \<Rightarrow> exn + book_copy option" where
  "stored_copy t i = optional model_to_copy (dget (tb_copies t) i)"

lemma stored_copy_id: "tables_ok t \<Longrightarrow> stored_copy t i = Inr (Some c) \<Longrightarrow> cp_copy_id c = i"
  by (auto simp: stored_copy_def optional_def map_ok_def model_to_copy_def Let_def new_copy_def set_state_def tables_ok_def
      dest: row_keyed_key split: option.splits sum.splits)

lemma model_to_user_id: "model_to_user ue m = Inr u \<Longrightarrow> us_user_id u = uw_user_id m"
proof -
  assume "model_to_user ue m = Inr u"
  then obtain v where v: "create_user ue (uw_role m) (kwargs_of_model m) = Inr v" and u: "us_user_id u = us_user_id v"
    by (auto simp: model_to_user_def split: sum.splits)
  have "uk_user_id (kwargs_of_model m) = Some (uw_user_id m)" by (simp add: kwargs_of_model_def Let_def)
  with create_user_ok [OF v] u show ?thesis by (metis option.inject)
qed

lemma stored_user_id: "tables_ok t \<Longrightarrow> stored_user ue t i = Inr (Some u) \<Longrightarrow> us_user_id u = i"
  by (auto simp: stored_user_def optional_def map_ok_def tables_ok_def dest!: model_to_user_id dest: row_keyed_key
      split: option.splits sum.splits)

section \<open>The steps of a block\<close>

text \<open>A step of a block that succeeds, by what it reads and what it writes.\<close>

lemma in_tx_Inr:
  "in_tx (in_session en f) k s p = (Inr y, s', p') \<longleftrightarrow> (\<exists>x s1. f s = (Inr x, s1) \<and> k x s1 p = (Inr y, s', p'))"
  by (auto simp: in_tx_def split: sum.splits prod.splits)

lemma skip_tx: "in_tx (\<lambda>conn. (Inr (), conn)) k s p = k () s p"
  by (simp add: in_tx_def)

lemma tx_get_user:
  assumes "engine_laws en sv dv" "in_tx (pg_get_user en ue i fu) k s p = (Inr y, s', p')"
  obtains r where "stored_user ue (sv s) i = Inr r" "k r s p = (Inr y, s', p')"
proof -
  from assms(2) obtain row r where
    "(if fu then t_lock_one (en_users en) s (\<lambda>m. uw_user_id m = i) else t_get (en_users en) s i) = Inr row"
    and r: "optional (model_to_user ue) row = Inr r" "k r s p = (Inr y, s', p')"
    by (auto simp: pg_get_user_def in_tx_Inr reads_def map_ok_Inr)
  from user_row_read [OF assms(1) this(1)] r show thesis by (intro that [of r]) (simp_all add: stored_user_def)
qed

lemma tx_get_copy:
  assumes "engine_laws en sv dv" "in_tx (pg_get_copy en i) k s p = (Inr y, s', p')"
  obtains r where "stored_copy (sv s) i = Inr r" "k r s p = (Inr y, s', p')"
proof -
  from assms(2) obtain row r where row: "t_get (en_copies en) s i = Inr row"
    and r: "optional model_to_copy row = Inr r" "k r s p = (Inr y, s', p')"
    by (auto simp: pg_get_copy_def in_tx_Inr reads_def map_ok_Inr)
  from query_lawsD(1) [OF engine_lawsD(2) [OF assms(1)] row] r show thesis
    by (intro that [of r]) (simp_all add: stored_copy_def)
qed

lemma writes_Inr: "writes f s = (Inr x, s1) \<longleftrightarrow> f s = Inr s1"
  by (auto simp: writes_def split: sum.splits)

lemma tx_save_record:
  assumes "backend_laws be sv dv ov odv" "in_tx (pg_save_record (be_engine be) tx) k s p = (Inr y, s', p')"
  obtains s1 where "sv s1 = (sv s)\<lparr>tb_records := tb_records (sv s) @ [record_to_row tx]\<rparr>" "ov s1 = ov s" "k () s1 p = (Inr y, s', p')"
proof -
  from assms(2) obtain s1 where s1: "t_add (en_records (be_engine be)) s (record_to_row tx) = Inr s1" "k () s1 p = (Inr y, s', p')"
    by (auto simp: pg_save_record_def in_tx_Inr writes_Inr)
  then show thesis using assms(1) by (intro that [of s1]) (simp_all add: backend_laws_def engine_laws_def)
qed

lemma tx_save_copy:
  assumes "backend_laws be sv dv ov odv" "in_tx (pg_save_copy (be_engine be) c) k s p = (Inr y, s', p')"
  obtains s1 where "sv s1 = (sv s)\<lparr>tb_copies := dset (tb_copies (sv s)) (cp_copy_id c) (copy_to_model c)\<rparr>" "ov s1 = ov s"
    "k () s1 p = (Inr y, s', p')"
proof -
  from assms(2) obtain s1 where s1: "t_merge (en_copies (be_engine be)) s (copy_to_model c) = Inr s1" "k () s1 p = (Inr y, s', p')"
    by (auto simp: pg_save_copy_def in_tx_Inr writes_Inr)
  have "cw_copy_id (copy_to_model c) = cp_copy_id c" by (simp add: copy_to_model_def)
  then show thesis using assms(1) s1 engine_merge_copy [OF backend_lawsD(1) [OF assms(1)] s1(1)]
    by (intro that [of s1]) (auto simp: backend_laws_def)
qed

definition put_user :: "('db, 's, 'r) backend \<Rightarrow> user \<Rightarrow> tables \<Rightarrow> tables" where
  "put_user be u t = t\<lparr>tb_users := dset (tb_users t) (us_user_id u)
     (merged_row (dget (tb_users t) (us_user_id u)) (user_to_model (be_users be) (be_order be) u))\<rparr>"

lemma put_user_frame [simp]:
  "tb_copies (put_user be u t) = tb_copies t" "tb_records (put_user be u t) = tb_records t" "tb_books (put_user be u t) = tb_books t"
  "tb_branches (put_user be u t) = tb_branches t"
  by (simp_all add: put_user_def)

lemma tx_save_user:
  assumes "backend_laws be sv dv ov odv"
    "in_tx (pg_save_user (be_engine be) (be_users be) (be_order be) u) k s p = (Inr y, s', p')"
  obtains s1 where "sv s1 = put_user be u (sv s)" "ov s1 = ov s" "k () s1 p = (Inr y, s', p')"
proof -
  let ?m = "user_to_model (be_users be) (be_order be) u"
  from assms(2) obtain s1 where s1: "t_merge (en_users (be_engine be)) s ?m = Inr s1" "k () s1 p = (Inr y, s', p')"
    by (auto simp: pg_save_user_def in_tx_Inr writes_Inr)
  have "uw_user_id ?m = us_user_id u" by (cases "us_details u") (simp_all add: user_to_model_def)
  moreover have "sv s1 = tb_users_update (\<lambda>d. dset d (uw_user_id ?m) (merged_row (dget d (uw_user_id ?m)) ?m)) (sv s)"
    using backend_lawsD(1) [OF assms(1)] s1(1) by (simp add: engine_laws_def store_laws_def)
  ultimately show thesis using assms(1) s1 by (intro that [of s1]) (auto simp: backend_laws_def put_user_def)
qed

lemma tx_event:
  assumes "backend_laws be sv dv ov odv" "event_tx (be_outbox be) env topic pl k s p = (Inr y, s', p')"
  obtains s1 where "sv s1 = sv s" "ov s1 = (ov s)(''EVT-'' @ ev_uuid12 env \<mapsto> new_event (ev_now env) (ev_uuid12 env) topic pl)"
    "k s1 p = (Inr y, s', p')"
proof -
  let ?e = "new_event (ev_now env) (ev_uuid12 env) topic pl"
  from assms(2) obtain s1 where s1: "oq_add (be_outbox be) s ?e = Inr s1" "k s1 p = (Inr y, s', p')"
    by (auto simp: event_tx_def pg_add_event_def Let_def split: sum.splits prod.splits)
  have "oe_event_id ?e = ''EVT-'' @ ev_uuid12 env" by (simp add: new_event_def)
  then show thesis using assms(1) s1 outbox_lawsD(4) [OF backend_lawsD(2) [OF assms(1)] s1(1)]
    by (intro that [of s1]) (auto simp: backend_laws_def)
qed

lemma tx_invalidate:
  assumes "invalidate_tx cl key k s p = (Inr y, s', p')"
  obtains c where "k s (p\<lparr>pr_cache := c\<rparr>) = (Inr y, s', p')"
  using assms by (auto simp: invalidate_tx_def split: sum.splits prod.splits)

section \<open>Checkouts\<close>

definition free_for :: "book_copy \<Rightarrow> string \<Rightarrow> bool" where
  "free_for c uid \<longleftrightarrow> copy_status c = AVAILABLE \<or> copy_status c = RESERVED \<and> cp_reserver c = Some uid"

definition issued_payload :: "call_env \<Rightarrow> string \<Rightarrow> string \<Rightarrow> string \<Rightarrow> int \<Rightarrow> payload" where
  "issued_payload env cid isbn uid days =
     [(''copy_id'', JStr cid), (''isbn'', JStr isbn), (''user_id'', JStr uid),
      (''due_date'', JInt (ev_now env + days * 86400)), (''transaction_id'', JStr (''TX-'' @ ev_uuid8 env))]"

definition checked_out ::
  "('db, 's, 'r) backend \<Rightarrow> call_env \<Rightarrow> string \<Rightarrow> string \<Rightarrow> int \<Rightarrow> user \<Rightarrow> book_copy \<Rightarrow> tables \<Rightarrow> tables" where
  "checked_out be env cid uid days u c t =
     put_user be (add_borrow (ev_now env) u cid (cp_book_isbn c))
       (t\<lparr>tb_records := tb_records t @ [record_to_row (tx_record env cid (cp_book_isbn c) uid (ev_now env + days * 86400))],
          tb_copies := dset (tb_copies t) (cp_copy_id c) (copy_to_model (issued_copy c uid))\<rparr>)"

lemma issued_copy_ids [simp]: "cp_copy_id (issued_copy c uid) = cp_copy_id c" "cp_book_isbn (issued_copy c uid) = cp_book_isbn c"
  by (simp_all add: issued_copy_def)

lemma pg_record_issue_ok:
  assumes laws: "backend_laws be sv dv ov odv"
    and run: "pg_record_issue be env cid uid days u (issued_copy c uid) s p = (Inr (tx, c', due), s', p')"
  shows "tx = tx_record env cid (cp_book_isbn c) uid (ev_now env + days * 86400) \<and> sv s' = checked_out be env cid uid days u c (sv s) \<and>
    ov s' = (ov s)(''EVT-'' @ ev_uuid12 env \<mapsto>
      new_event (ev_now env) (ev_uuid12 env) ''copy.issued'' (issued_payload env cid (cp_book_isbn c) uid days))"
  using run unfolding pg_record_issue_def Let_def
  apply (rule tx_save_record [OF laws])
  apply (erule tx_save_copy [OF laws])
  apply (erule tx_save_user [OF laws])
  apply (erule tx_event [OF laws])
  apply (erule tx_invalidate)
  apply (auto simp: checked_out_def issued_payload_def)
  done

lemma pg_issue_section_ok:
  assumes laws: "backend_laws be sv dv ov odv"
    and run: "pg_issue_section be env cid uid days s p = (Inr (tx, c', due), s', p')"
  obtains u c where "stored_user (be_users be) (sv s) uid = Inr (Some u)" "can_borrow u" "stored_copy (sv s) cid = Inr (Some c)"
    "free_for c uid" "tx = tx_record env cid (cp_book_isbn c) uid (ev_now env + days * 86400)"
    "sv s' = checked_out be env cid uid days u c (sv s)"
    "ov s' = (ov s)(''EVT-'' @ ev_uuid12 env \<mapsto>
       new_event (ev_now env) (ev_uuid12 env) ''copy.issued'' (issued_payload env cid (cp_book_isbn c) uid days))"
proof (rule tx_get_user [OF backend_lawsD(1) [OF laws] run [unfolded pg_issue_section_def]], goal_cases)
  case (1 r)
  note stored = 1(2) and run1 = 1(3)
  from run1 obtain u where r: "r = Some u" "can_borrow u" by (auto split: option.splits if_splits)
  show ?case
  proof (rule tx_get_copy [OF backend_lawsD(1) [OF laws] run1 [unfolded r(1), simplified r(2) option.case if_False not_True_eq_False]], goal_cases)
    case (1 q)
    from 1(2) obtain c where q: "q = Some c" "free_for c uid" by (auto simp: free_for_def split: option.splits if_splits)
    have "copy_check_out c uid = Inr (issued_copy c uid)" using q(2) check_out_guarded by (simp add: free_for_def)
    then have "pg_record_issue be env cid uid days u (issued_copy c uid) s p = (Inr (tx, c', due), s', p')"
      using 1(2) q by (auto simp: free_for_def split: if_splits)
    from pg_record_issue_ok [OF laws this] show ?case using stored r q 1(1) by (intro that [of u c]) simp_all
  qed
qed

text \<open>The same for the whole operation, over the committed database.\<close>

lemma pg_issue_ok:
  assumes laws: "backend_laws be sv dv ov odv" and run: "pg_issue_physical_book be env db p cid uid actor days = (Inr tx, db', p')"
  obtains u c where "stored_user (be_users be) (dv db) uid = Inr (Some u)" "can_borrow u" "stored_copy (dv db) cid = Inr (Some c)"
    "cp_copy_id c = cid" "us_user_id u = uid" "free_for c uid"
    "tx = tx_record env cid (cp_book_isbn c) uid (ev_now env + days * 86400)"
    "dv db' = checked_out be env cid uid days u c (dv db)"
    "odv db' = (odv db)(''EVT-'' @ ev_uuid12 env \<mapsto>
       new_event (ev_now env) (ev_uuid12 env) ''copy.issued'' (issued_payload env cid (cp_book_isbn c) uid days))"
proof -
  note el = backend_lawsD(1) [OF laws]
  obtain c' due p1 where sec: "pg_locking_section (be_engine be) cid (pg_issue_section be env cid uid days) db p = (Inr (tx, c', due), db', p1)"
    using run by (auto simp: pg_issue_physical_book_def Let_def split: prod.splits sum.splits)
  show thesis
  proof (rule section_committed [OF el sec], goal_cases)
    case (1 s s')
    note s = 1
    have ok: "tables_ok (dv db)" using engine_lawsD(5) [OF el, of s] s(2) by simp
    show ?case
    proof (rule pg_issue_section_ok [OF laws s(4)], goal_cases)
      case (1 u c)
      then show ?case
        using s stored_copy_id [OF ok] stored_user_id [OF ok] outbox_start [OF laws, of db] outbox_commit [OF laws s(5)]
        by (intro that [of u c]) simp_all
    qed
  qed
qed

lemma issued_stored: "cp_copy_id c = cid \<Longrightarrow> stored_copy (checked_out be env cid uid days u c t) cid = Inr (Some (issued_copy c uid))"
  by (simp add: stored_copy_def checked_out_def optional_def map_ok_def copy_roundtrip)

text \<open>
  C5: a checkout over Postgres is atomic, with its event. If it raises, at whatever point, the database is what it was. If it
  succeeds, the user was eligible and the copy was free or kept for that user, and the committed changes are exactly
  these four: the copy is issued, the loan is added to the user, one circulation record is added, and one pending event
  that reports the checkout is in the outbox.
\<close>

theorem postgres_checkout_atomic:
  assumes laws: "backend_laws be sv dv ov odv" and run: "pg_issue_physical_book be env db p cid uid actor days = (r, db', p')"
  shows "case r of
      Inl e \<Rightarrow> db' = db
    | Inr tx \<Rightarrow> \<exists>u c. stored_user (be_users be) (dv db) uid = Inr (Some u) \<and> can_borrow u \<and>
        stored_copy (dv db) cid = Inr (Some c) \<and> free_for c uid \<and>
        tx = tx_record env cid (cp_book_isbn c) uid (ev_now env + days * 86400) \<and>
        dv db' = (dv db)\<lparr>
          tb_records := tb_records (dv db) @ [record_to_row tx],
          tb_copies := dset (tb_copies (dv db)) cid (copy_to_model (issued_copy c uid)),
          tb_users := dset (tb_users (dv db)) uid (merged_row (dget (tb_users (dv db)) uid)
            (user_to_model (be_users be) (be_order be) (add_borrow (ev_now env) u cid (cp_book_isbn c))))\<rparr> \<and>
        odv db' = (odv db)(''EVT-'' @ ev_uuid12 env \<mapsto>
          new_event (ev_now env) (ev_uuid12 env) ''copy.issued'' (issued_payload env cid (cp_book_isbn c) uid days))"
proof (cases r)
  case (Inl e)
  then show ?thesis using run
    by (auto simp: pg_issue_physical_book_def Let_def split: prod.splits sum.splits dest: section_raised)
next
  case (Inr tx)
  show ?thesis
  proof (rule pg_issue_ok [OF laws run [unfolded Inr]], goal_cases)
    case (1 u c)
    have "us_user_id (add_borrow (ev_now env) u cid (cp_book_isbn c)) = uid" using 1(5) by (simp add: add_borrow_def)
    with 1 show ?case unfolding Inr
      by (simp only: sum.case) (intro exI [of _ u] exI [of _ c], simp add: checked_out_def put_user_def)
  qed
qed

text \<open>
  C6: a copy is checked out once. After a checkout over Postgres the stored copy is issued to the user, and a second checkout of
  it, by whomever, in whatever process and at whatever time, raises and leaves the database as it is.
\<close>

theorem postgres_no_double_checkout:
  assumes laws: "backend_laws be sv dv ov odv" and first: "pg_issue_physical_book be env db p cid uid actor days = (Inr tx, db1, p1)"
    and second: "pg_issue_physical_book be env' db1 q cid uid' actor' days' = (r, db2, q')"
  shows "(\<exists>c. stored_copy (dv db1) cid = Inr (Some c) \<and> copy_status c = ISSUED \<and> cp_borrower c = Some uid) \<and>
    (\<exists>e. r = Inl e) \<and> db2 = db1"
proof -
  obtain u c where "cp_copy_id c = cid" "dv db1 = checked_out be env cid uid days u c (dv db)"
    by (rule pg_issue_ok [OF laws first])
  then have st: "stored_copy (dv db1) cid = Inr (Some (issued_copy c uid))" by (simp add: issued_stored)
  have iss: "copy_status (issued_copy c uid) = ISSUED" "cp_borrower (issued_copy c uid) = Some uid" by (simp_all add: issued_copy_def)
  have "r \<noteq> Inr tx'" for tx'
  proof
    assume "r = Inr tx'"
    from pg_issue_ok [OF laws second [unfolded this]] obtain c' where "stored_copy (dv db1) cid = Inr (Some c')" "free_for c' uid'"
      by metis
    with st iss(1) show False by (auto simp: free_for_def)
  qed
  then obtain e where r: "r = Inl e" by (cases r) auto
  then have "db2 = db1" using second
    by (auto simp: pg_issue_physical_book_def Let_def split: prod.splits sum.splits dest: section_raised)
  with st iss r show ?thesis by blast
qed

section \<open>Returns\<close>

definition put_back ::
  "('db, 's, 'r) backend \<Rightarrow> call_env \<Rightarrow> string \<Rightarrow> bool \<Rightarrow> bool \<Rightarrow> user option \<Rightarrow> book_copy \<Rightarrow> string option \<Rightarrow> tables \<Rightarrow> tables" where
  "put_back be env cid late dam mu c n t =
     (let t = (case mu of None \<Rightarrow> t | Some u \<Rightarrow> put_user be (record_return (ev_now env) u cid late dam) t)
      in t\<lparr>tb_copies := dset (tb_copies t) (cp_copy_id c) (copy_to_model (shelved c n))\<rparr>)"

lemma return_issued: "copy_status c = ISSUED \<Longrightarrow> copy_return_book c = Inr (shelved c None)"
  by (cases "cp_state c") (auto simp: copy_return_book_def shelved_def set_state_def copy_status_def)

lemma reserve_shelved: "copy_reserve (shelved c None) w = Inr (shelved c (Some w))"
  by (simp add: copy_reserve_def shelved_def set_state_def)

lemma shelved_ids [simp]: "cp_copy_id (shelved c n) = cp_copy_id c" "cp_book_isbn (shelved c n) = cp_book_isbn c"
  by (simp_all add: shelved_def)

lemma pg_record_return_ok:
  assumes laws: "backend_laws be sv dv ov odv"
    and run: "pg_record_return be env cid actor late dam b (shelved c None) s p = (Inr out, s', p')"
    and handled: "handle_copy_returned (ev_strftime env) (ev_now env) (pr_reservations p) (Some (pr_dispatcher p)) (cp_book_isbn c) cid 48 = (assigned, rm, disp)"
  shows "sv s' = (sv s)\<lparr>tb_copies := dset (tb_copies (sv s)) (cp_copy_id c) (copy_to_model (shelved c (map_option re_user_id assigned)))\<rparr> \<and>
    ov s' = (ov s)(''EVT-'' @ ev_uuid12 env \<mapsto> new_event (ev_now env) (ev_uuid12 env) ''copy.returned''
      [(''copy_id'', JStr cid), (''isbn'', JStr (cp_book_isbn c)), (''user_id'', JStr b), (''is_late'', JBool late),
       (''is_damaged'', JBool dam), (''assigned_reservation'', assigned_json assigned)]) \<and>
    pr_reservations p' = rm"
proof (cases assigned)
  case None
  note run' = run [unfolded pg_record_return_def]
  show ?thesis
    apply (rule tx_save_copy [OF laws run'])
    apply (simp add: handled None skip_tx)
    apply (erule tx_event [OF laws])
    apply (erule tx_invalidate)
    apply (auto simp: pr_log_def)
    done
next
  case (Some e)
  note run' = run [unfolded pg_record_return_def]
  show ?thesis
    apply (rule tx_save_copy [OF laws run'])
    apply (simp add: handled Some reserve_shelved)
    apply (erule tx_save_copy [OF laws])
    apply (erule tx_event [OF laws])
    apply (erule tx_invalidate)
    apply (auto simp: pr_log_def)
    done
qed

lemma pg_return_section_ok:
  assumes laws: "backend_laws be sv dv ov odv" and run: "pg_return_section be env cid actor late dam s p = (Inr out, s', p')"
    and con: "\<And>c. stored_copy (sv s) cid = Inr (Some c) \<Longrightarrow> copy_consistent c"
    and handled: "\<And>isbn. handle_copy_returned (ev_strftime env) (ev_now env) (pr_reservations p) (Some (pr_dispatcher p)) isbn cid 48 =
      (assigned isbn, rm isbn, disp isbn)"
  obtains c b mu where "stored_copy (sv s) cid = Inr (Some c)" "cp_borrower c = Some b" "copy_status c = ISSUED"
    "stored_user (be_users be) (sv s) b = Inr mu"
    "sv s' = put_back be env cid late dam mu c (map_option re_user_id (assigned (cp_book_isbn c))) (sv s)"
    "pr_reservations p' = rm (cp_book_isbn c)"
proof (rule tx_get_copy [OF backend_lawsD(1) [OF laws] run [unfolded pg_return_section_def]], goal_cases)
  case (1 q)
  note goal = 1(1) and stored = 1(2) and run1 = 1(3)
  from run1 obtain c b where q: "q = Some c" "cp_borrower c = Some b" "b \<noteq> []" by (auto simp: truthy_def split: option.splits if_splits)
  have iss: "copy_status c = ISSUED"
    using con [OF stored [unfolded q(1)]] q(2) by (cases "copy_status c") (simp_all add: copy_consistent_def)
  have run2: "in_tx (pg_get_user (be_engine be) (be_users be) b False) (\<lambda>user.
      in_tx (case user of None \<Rightarrow> (\<lambda>conn. (Inr (), conn))
             | Some u \<Rightarrow> pg_save_user (be_engine be) (be_users be) (be_order be) (record_return (ev_now env) u cid late dam)) (\<lambda>_.
        pg_record_return be env cid actor late dam b (shelved c None))) s p = (Inr out, s', p')"
    using run1 q by (simp add: truthy_def return_issued [OF iss])
  show ?case
  proof (rule tx_get_user [OF backend_lawsD(1) [OF laws] run2], goal_cases)
    case (1 mu)
    note mu = 1(1) and run3 = 1(2)
    obtain s1 where s1: "sv s1 = (case mu of None \<Rightarrow> sv s | Some u \<Rightarrow> put_user be (record_return (ev_now env) u cid late dam) (sv s))"
      and run4: "pg_record_return be env cid actor late dam b (shelved c None) s1 p = (Inr out, s', p')"
    proof (cases mu)
      case None
      then show ?thesis using run3 by (intro that [of s]) (simp_all add: skip_tx)
    next
      case (Some u)
      show ?thesis
        by (rule tx_save_user [OF laws run3 [unfolded Some option.case]]) (rule that, simp_all add: Some)
    qed
    from pg_record_return_ok [OF laws run4 handled] s1
    have "sv s' = put_back be env cid late dam mu c (map_option re_user_id (assigned (cp_book_isbn c))) (sv s)"
      "pr_reservations p' = rm (cp_book_isbn c)"
      by (simp_all add: put_back_def Let_def)
    with stored q iss mu show ?case by (intro goal [of c b mu]) simp_all
  qed
qed

lemma put_back_copy: "cp_copy_id c = cid \<Longrightarrow> stored_copy (put_back be env cid late dam mu c n t) cid = Inr (Some (shelved c n))"
  by (simp add: stored_copy_def put_back_def Let_def optional_def map_ok_def copy_roundtrip)

lemma put_back_user:
  assumes "\<And>S. finite S \<Longrightarrow> set (be_order be S) = S" "\<And>d. ue_fromisoformat (be_users be) (ue_isoformat (be_users be) d) = Inr d"
    and "stored_user (be_users be) t b = Inr (Some u)" "us_user_id u = b"
  shows "stored_user (be_users be) (put_back be env cid late dam (Some u) c n t) b = Inr (Some (restored_user (record_return (ev_now env) u cid late dam)))"
proof -
  obtain m where "model_to_user (be_users be) m = Inr u"
    using assms(3) by (auto simp: stored_user_def optional_def map_ok_def split: option.splits sum.splits)
  then have "finite (us_active u)" "finite (us_active_reservations u)" by (auto simp: model_to_user_def split: sum.splits)
  then have "model_to_user (be_users be) (merged_row old (user_to_model (be_users be) (be_order be) (record_return (ev_now env) u cid late dam))) =
      Inr (restored_user (record_return (ev_now env) u cid late dam))" for old
    by (intro user_roundtrip assms(1,2)) (simp_all add: record_return_def)
  then show ?thesis
    using assms(4) by (simp add: stored_user_def put_back_def put_user_def Let_def optional_def map_ok_def record_return_def)
qed

text \<open>
  C7: a return over Postgres goes to the next waiting user. A return that succeeds ended the loan of the borrower in the
  database, stored the copy as kept for the first user who waits for the title, or as available when nobody waits, and
  took that user off the waiting list of the process.
\<close>

theorem postgres_return_serves_next:
  assumes laws: "backend_laws be sv dv ov odv" and res: "res_inv (pr_reservations p)"
    and con: "\<And>c. stored_copy (dv db) cid = Inr (Some c) \<Longrightarrow> copy_consistent c"
    and order: "\<And>S. finite S \<Longrightarrow> set (be_order be S) = S"
    and iso: "\<And>d. ue_fromisoformat (be_users be) (ue_isoformat (be_users be) d) = Inr d"
    and run: "pg_return_physical_book be env db p cid actor late dam = (Inr out, db', p')"
  shows "\<exists>c b c'. stored_copy (dv db) cid = Inr (Some c) \<and> cp_borrower c = Some b \<and>
    stored_copy (dv db') cid = Inr (Some c') \<and> cp_borrower c' = None \<and>
    (\<forall>u. stored_user (be_users be) (dv db) b = Inr (Some u) \<longrightarrow>
       (\<exists>u'. stored_user (be_users be) (dv db') b = Inr (Some u') \<and> us_active u' = us_active u - {cid})) \<and>
    (case wait_list (pr_reservations p) (cp_book_isbn c) of
       [] \<Rightarrow> copy_status c' = AVAILABLE
     | w # ws \<Rightarrow> copy_status c' = RESERVED \<and> cp_reserver c' = Some w \<and> wait_list (pr_reservations p') (cp_book_isbn c) = ws)"
proof (rule section_committed [OF backend_lawsD(1) [OF laws] run [unfolded pg_return_physical_book_def]], goal_cases)
  case (1 s s')
  note s = 1
  let ?h = "\<lambda>isbn. handle_copy_returned (ev_strftime env) (ev_now env) (pr_reservations p) (Some (pr_dispatcher p)) isbn cid 48"
  have ok: "tables_ok (dv db)" using engine_lawsD(5) [OF backend_lawsD(1) [OF laws], of s] s(2) by simp
  have h: "?h isbn = (fst (?h isbn), fst (snd (?h isbn)), snd (snd (?h isbn)))" for isbn by simp
  show ?case
  proof (rule pg_return_section_ok [OF laws s(4) con h], unfold s(2), goal_cases)
    case (2 c b mu)
    let ?w = "map_option re_user_id (fst (?h (cp_book_isbn c)))"
    let ?c' = "shelved c ?w"
    have db': "dv db' = put_back be env cid late dam mu c ?w (dv db)" using 2(5) s(6) by simp
    have c': "stored_copy (dv db') cid = Inr (Some ?c')"
      unfolding db' by (rule put_back_copy [OF stored_copy_id [OF ok 2(1)]])
    have user: "\<exists>u'. stored_user (be_users be) (dv db') b = Inr (Some u') \<and> us_active u' = us_active u - {cid}"
      if "stored_user (be_users be) (dv db) b = Inr (Some u)" for u
      using put_back_user [OF order iso that stored_user_id [OF ok that]] 2(4) that unfolding db'
      by (simp add: restored_user_def record_return_def)
    have w: "?w = (case wait_list (pr_reservations p) (cp_book_isbn c) of [] \<Rightarrow> None | w # _ \<Rightarrow> Some w)"
      by (rule handle_result [OF res])
    have wl: "wait_list (pr_reservations p') (cp_book_isbn c) = tl (wait_list (pr_reservations p) (cp_book_isbn c))"
      unfolding 2(6) by (simp add: handle_wait_list [OF res])
    have "cp_borrower ?c' = None" by (simp add: shelved_def)
    moreover have "case wait_list (pr_reservations p) (cp_book_isbn c) of
       [] \<Rightarrow> copy_status ?c' = AVAILABLE
     | w # ws \<Rightarrow> copy_status ?c' = RESERVED \<and> cp_reserver ?c' = Some w \<and> wait_list (pr_reservations p') (cp_book_isbn c) = ws"
      using w wl by (auto simp: shelved_def copy_status_def split: list.splits)
    ultimately show ?case using 2(1,2) c' user by blast
  qed simp
qed

text \<open>
  C34: the waiting list is not part of the transaction. When a return does everything and the commit then fails, the copy is
  still stored as issued to its borrower, but the first waiting user has left the list for good, with a notice that the
  copy is ready.
\<close>

theorem failed_commit_loses_reservation:
  assumes laws: "backend_laws be sv dv ov odv" and res: "res_inv (pr_reservations p)"
    and stored: "stored_copy (dv db) cid = Inr (Some c)" "copy_consistent c" "wait_list (pr_reservations p) (cp_book_isbn c) = w # ws"
    and body: "pg_return_section be env cid actor late dam (en_create_session (be_engine be) db) p = (Inr out, s', p1)"
    and run: "pg_return_physical_book be env db p cid actor late dam = (Inl e, db', p')"
    and lock: "t_lock_one (en_copies (be_engine be)) (en_create_session (be_engine be) db) (\<lambda>x. cw_copy_id x = cid) = Inr (Some row)"
  shows "db' = db \<and> (\<exists>b. stored_copy (dv db') cid = Inr (Some c) \<and> copy_status c = ISSUED \<and> cp_borrower c = Some b) \<and>
    wait_list (pr_reservations p') (cp_book_isbn c) = ws"
proof -
  let ?h = "\<lambda>isbn. handle_copy_returned (ev_strftime env) (ev_now env) (pr_reservations p) (Some (pr_dispatcher p)) isbn cid 48"
  have h: "?h isbn = (fst (?h isbn), fst (snd (?h isbn)), snd (snd (?h isbn)))" for isbn by simp
  have s: "sv (en_create_session (be_engine be) db) = dv db" by (rule session_start [OF backend_lawsD(1) [OF laws]])
  have con: "copy_consistent x" if "stored_copy (sv (en_create_session (be_engine be) db)) cid = Inr (Some x)" for x
    using that stored(1,2) s by simp
  have p': "p' = p1" "db' = db"
    using run body lock by (auto simp: pg_return_physical_book_def pg_locking_section_def Let_def split: sum.splits)
  obtain b where b: "cp_borrower c = Some b" "copy_status c = ISSUED"
    "pr_reservations p1 = fst (snd (?h (cp_book_isbn c)))"
  proof (rule pg_return_section_ok [OF laws body con h], goal_cases)
    case (2 c1 b mu)
    then have "c1 = c" using stored(1) s by simp
    then show ?case using 2 by simp
  qed simp
  then show ?thesis using stored p' handle_wait_list [OF res] by simp
qed

section \<open>A backend that satisfies the laws\<close>

text \<open>
  The tables and the outbox side by side in one session. Every call succeeds, except that the commits of one variant fail.
\<close>

definition beside :: "('s, 'm, 'r) table \<Rightarrow> ('s \<times> 'o, 'm, 'r) table" where
  "beside t = (let lift = (\<lambda>f s x. case f (fst s) x of Inl e \<Rightarrow> Inl e | Inr s' \<Rightarrow> Inr (s', snd s))
     in \<lparr>t_get = \<lambda>s. t_get t (fst s), t_select = \<lambda>s. t_select t (fst s), t_lock_one = \<lambda>s. t_lock_one t (fst s),
         t_add = lift (t_add t), t_merge = lift (t_merge t), t_assign = lift (t_assign t),
         t_delete = \<lambda>s x. case t_delete t (fst s) x of Inl e \<Rightarrow> Inl e | Inr s' \<Rightarrow> Inr (s', snd s)\<rparr>)"

definition joined_engine :: "bool \<Rightarrow> (tables \<times> outbox, tables \<times> outbox) engine" where
  "joined_engine commits = \<lparr>en_create_session = \<lambda>db. db,
     en_commit = \<lambda>s db. if commits then Inr s else Inl (RuntimeError ''serialization failure''), en_rollback = \<lambda>s. s,
     en_books = beside (en_books plain_engine), en_copies = beside (en_copies plain_engine), en_users = beside (en_users plain_engine),
     en_branches = beside (en_branches plain_engine), en_records = beside (en_records plain_engine)\<rparr>"

definition joined_outbox :: "bool \<Rightarrow> (tables \<times> outbox, tables \<times> outbox) outbox_engine" where
  "joined_outbox commits = \<lparr>oq_session = \<lambda>db. db,
     oq_commit = \<lambda>s db. if commits then Inr s else Inl (RuntimeError ''serialization failure''),
     oq_add = \<lambda>s e. case oq_add list_engine (snd s) e of Inl x \<Rightarrow> Inl x | Inr es \<Rightarrow> Inr (fst s, es),
     oq_select = \<lambda>s. oq_select list_engine (snd s), oq_select_skip_locked = \<lambda>s. oq_select_skip_locked list_engine (snd s),
     oq_assign = \<lambda>s e. case oq_assign list_engine (snd s) e of Inl x \<Rightarrow> Inl x | Inr es \<Rightarrow> Inr (fst s, es)\<rparr>"

definition joined_backend :: "bool \<Rightarrow> (tables \<times> outbox, tables \<times> outbox, toy_server) backend" where
  "joined_backend commits = \<lparr>be_engine = joined_engine commits, be_outbox = joined_outbox commits, be_redis = toy_client,
     be_users = iso_user_env, be_order = sorted_list_of_set\<rparr>"

lemma beside_laws:
  "query_laws t rows \<Longrightarrow> query_laws (beside t) (\<lambda>s. rows (fst s))"
  "store_laws t sv upd key merged \<Longrightarrow> store_laws (beside t) (\<lambda>s. sv (fst s)) upd key merged"
proof -
  show "query_laws t rows \<Longrightarrow> query_laws (beside t) (\<lambda>s. rows (fst s))" by (simp add: query_laws_def beside_def Let_def)
  assume "store_laws t sv upd key merged"
  then show "store_laws (beside t) (\<lambda>s. sv (fst s)) upd key merged"
    unfolding store_laws_def beside_def Let_def by (auto split: sum.splits)
qed

lemma joined_engine_laws: "engine_laws (joined_engine b) (\<lambda>s. shown (fst s)) (\<lambda>db. shown (fst db))"
proof -
  note l = plain_engine_laws [unfolded engine_laws_def]
  show ?thesis
    unfolding engine_laws_def joined_engine_def engine.simps
    by (intro conjI beside_laws(1) beside_laws(2))
      (use l in \<open>auto simp: beside_def Let_def split: if_splits sum.splits\<close>)
qed

lemma beside_frame:
  "t_add (beside t) s m = Inr s' \<Longrightarrow> snd s' = snd s" "t_merge (beside t) s m = Inr s' \<Longrightarrow> snd s' = snd s"
  by (auto simp: beside_def Let_def split: sum.splits)

lemma joined_backend_laws:
  "backend_laws (joined_backend b) (\<lambda>s. shown (fst s)) (\<lambda>db. shown (fst db)) (\<lambda>s. find_event (clean (snd s))) (\<lambda>db. find_event (clean (snd db)))"
proof -
  note l = list_engine_laws [unfolded outbox_laws_def]
  have "outbox_laws (joined_outbox b) (\<lambda>s. find_event (clean (snd s))) (\<lambda>db. find_event (clean (snd db)))"
    unfolding outbox_laws_def joined_outbox_def outbox_engine.simps
    by (intro conjI) (use l in \<open>auto split: if_splits sum.splits\<close>)
  moreover have "oq_add (joined_outbox b) s e = Inr s' \<Longrightarrow> fst s' = fst s" for s s' e
    by (auto simp: joined_outbox_def split: sum.splits)
  ultimately show ?thesis using joined_engine_laws [of b]
    unfolding backend_laws_def joined_backend_def backend.simps
    by (intro conjI allI impI) (simp_all add: joined_engine_def joined_outbox_def beside_frame)
qed

lemma set_tables:
  "tb_copies_update f t = t\<lparr>tb_copies := f (tb_copies t)\<rparr>" "tb_users_update g t = t\<lparr>tb_users := g (tb_users t)\<rparr>"
  by simp_all

text \<open>What a step does over this backend.\<close>

lemmas joined_defs = joined_backend_def joined_engine_def beside_def Let_def plain_engine_def plain_table_def
  plain_records_def in_tx_def reads_def writes_def map_ok_def

lemma ok_updates:
  assumes "tables_ok t"
  shows "tables_ok (t\<lparr>tb_records := rs\<rparr>)" "tables_ok (t\<lparr>tb_copies := dset (tb_copies t) (cp_copy_id c) (copy_to_model c)\<rparr>)"
    "tables_ok (put_user be u t)"
proof -
  have "uw_user_id (merged_row old (user_to_model (be_users be) (be_order be) u)) = us_user_id u" for old
    by (cases "us_details u") (simp_all add: user_to_model_def)
  then show "tables_ok (put_user be u t)" using assms by (simp add: tables_ok_def put_user_def row_keyed_dset)
qed (use assms in \<open>simp_all add: tables_ok_def row_keyed_dset copy_to_model_def\<close>)

lemma find_keyed: "row_keyed key d \<Longrightarrow> find (\<lambda>m. key m = k) (dvalues d) = dget d k"
  by (induction d) (auto simp: row_keyed_def dict_wf_def)

lemma joined_steps:
  assumes ok: "tables_ok t"
  shows "in_tx (pg_get_copy (be_engine (joined_backend b)) i) k' (t, es) p =
      (case stored_copy t i of Inl e \<Rightarrow> (Inl e, (t, es), p) | Inr r \<Rightarrow> k' r (t, es) p)"
    "in_tx (pg_save_record (be_engine (joined_backend b)) tx) k (t, es) p = k () (t\<lparr>tb_records := tb_records t @ [record_to_row tx]\<rparr>, es) p"
    "in_tx (pg_save_copy (be_engine (joined_backend b)) c) k (t, es) p =
       k () (t\<lparr>tb_copies := dset (tb_copies t) (cp_copy_id c) (copy_to_model c)\<rparr>, es) p"
proof -
  show "in_tx (pg_save_copy (be_engine (joined_backend b)) c) k (t, es) p =
       k () (t\<lparr>tb_copies := dset (tb_copies t) (cp_copy_id c) (copy_to_model c)\<rparr>, es) p"
  proof -
    have "cw_copy_id (copy_to_model c) = cp_copy_id c" by (simp add: copy_to_model_def)
    then show ?thesis by (simp add: pg_save_copy_def joined_defs shown_id [OF ok]) (subst set_tables(1), rule refl)
  qed
qed (simp_all add: pg_get_copy_def pg_save_record_def stored_copy_def joined_defs shown_id [OF ok] split: sum.splits)

lemma joined_user_steps:
  assumes ok: "tables_ok t"
  shows "in_tx (pg_get_user (be_engine (joined_backend b)) ue i fu) k' (t, es) p =
      (case stored_user ue t i of Inl e \<Rightarrow> (Inl e, (t, es), p) | Inr r \<Rightarrow> k' r (t, es) p)"
    "in_tx (pg_save_user (be_engine (joined_backend b)) (be_users (joined_backend b)) (be_order (joined_backend b)) u) k (t, es) p =
      k () (put_user (joined_backend b) u t, es) p"
proof -
  have "find (\<lambda>m. uw_user_id m = i) (dvalues (tb_users t)) = dget (tb_users t) i"
    by (rule find_keyed) (use ok in \<open>simp add: tables_ok_def\<close>)
  then show "in_tx (pg_get_user (be_engine (joined_backend b)) ue i fu) k' (t, es) p =
      (case stored_user ue t i of Inl e \<Rightarrow> (Inl e, (t, es), p) | Inr r \<Rightarrow> k' r (t, es) p)"
    by (simp add: pg_get_user_def stored_user_def joined_defs shown_id [OF ok] split: sum.splits)
  have "uw_user_id (user_to_model ue ord u) = us_user_id u" for ue ord
    by (cases "us_details u") (simp_all add: user_to_model_def)
  then show "in_tx (pg_save_user (be_engine (joined_backend b)) (be_users (joined_backend b)) (be_order (joined_backend b)) u) k (t, es) p =
      k () (put_user (joined_backend b) u t, es) p"
    by (simp add: pg_save_user_def put_user_def joined_defs shown_id [OF ok]) (subst set_tables(2), rule refl)
qed

lemma joined_section:
  assumes ok: "tables_ok t" and row: "dget (tb_copies t) i = Some w"
  shows "pg_locking_section (be_engine (joined_backend b)) i body (t, es) p =
    (case body (t, es) p of
       (Inl e, s, p) \<Rightarrow> (Inl e, (t, es), p)
     | (Inr x, s, p) \<Rightarrow> if b then (Inr x, s, p) else (Inl (RuntimeError ''serialization failure''), (t, es), p))"
    "t_lock_one (en_copies (be_engine (joined_backend b))) (t, es) (\<lambda>c. cw_copy_id c = i) = Inr (Some w)"
proof -
  have "find (\<lambda>c. cw_copy_id c = i) (dvalues (tb_copies t)) = Some w"
    using find_keyed [of cw_copy_id "tb_copies t" i] ok row by (simp add: tables_ok_def)
  then show l: "t_lock_one (en_copies (be_engine (joined_backend b))) (t, es) (\<lambda>c. cw_copy_id c = i) = Inr (Some w)"
    by (simp add: joined_defs shown_id [OF ok])
  have "en_create_session (be_engine (joined_backend b)) = (\<lambda>db. db)"
    "en_commit (be_engine (joined_backend b)) = (\<lambda>s db. if b then Inr s else Inl (RuntimeError ''serialization failure''))"
    by (simp_all add: joined_backend_def joined_engine_def)
  with l show "pg_locking_section (be_engine (joined_backend b)) i body (t, es) p =
    (case body (t, es) p of
       (Inl e, s, p) \<Rightarrow> (Inl e, (t, es), p)
     | (Inr x, s, p) \<Rightarrow> if b then (Inr x, s, p) else (Inl (RuntimeError ''serialization failure''), (t, es), p))"
    by (auto simp: pg_locking_section_def Let_def split: sum.splits prod.splits)
qed

lemma joined_event:
  "event_tx (be_outbox (joined_backend b)) env topic pl k (t, []) p = k (t, [new_event (ev_now env) (ev_uuid12 env) topic pl]) p"
  by (simp add: event_tx_def pg_add_event_def joined_backend_def joined_outbox_def list_engine_def clean_def Let_def)

definition redis_up :: "toy_server process \<Rightarrow> bool" where
  "redis_up p \<longleftrightarrow> ts_up (rc_server (pr_cache p)) \<and> \<not> ts_readonly (rc_server (pr_cache p))"

lemma joined_invalidate:
  "redis_up p \<Longrightarrow> invalidate_tx (be_redis (joined_backend b)) key k s p =
     k s (p\<lparr>pr_cache := snd (redis_invalidate toy_client key (pr_cache p))\<rparr>)"
  by (simp add: redis_up_def invalidate_tx_def joined_backend_def redis_invalidate_def or_on_error_def on_server_def toy_client_def when_up_def)

lemma redis_up_frame [simp]:
  "redis_up (p\<lparr>pr_forecaster := f\<rparr>) = redis_up p" "redis_up (p\<lparr>pr_rebalancer := rb\<rparr>) = redis_up p"
  "redis_up (p\<lparr>pr_reservations := rm\<rparr>) = redis_up p" "redis_up (p\<lparr>pr_dispatcher := d\<rparr>) = redis_up p"
  by (simp_all add: redis_up_def)

lemma joined_issue:
  assumes ok: "tables_ok t" and u: "stored_user (be_users (joined_backend True)) t uid = Inr (Some u)" "can_borrow u"
    and c: "stored_copy t cid = Inr (Some c)" "free_for c uid" and up: "redis_up p"
  obtains tx p1 where "pg_issue_physical_book (joined_backend True) env (t, []) p cid uid actor days =
    (Inr tx, (checked_out (joined_backend True) env cid uid days u c t,
       [new_event (ev_now env) (ev_uuid12 env) ''copy.issued'' (issued_payload env cid (cp_book_isbn c) uid days)]), p1)"
proof -
  have out: "copy_check_out c uid = Inr (issued_copy c uid)" using c(2) check_out_guarded by (simp add: free_for_def)
  obtain w where w: "dget (tb_copies t) cid = Some w" using c(1) by (auto simp: stored_copy_def optional_def split: option.splits)
  have free: "\<not> (copy_status c \<noteq> AVAILABLE \<and> \<not> (copy_status c = RESERVED \<and> cp_reserver c = Some uid))"
    using c(2) by (auto simp: free_for_def)
  obtain tx due p1 where sec: "pg_issue_section (joined_backend True) env cid uid days (t, []) p = (Inr (tx, issued_copy c uid, due),
      (checked_out (joined_backend True) env cid uid days u c t,
       [new_event (ev_now env) (ev_uuid12 env) ''copy.issued'' (issued_payload env cid (cp_book_isbn c) uid days)]), p1)"
    unfolding pg_issue_section_def joined_user_steps(1) [OF ok] u(1) sum.case option.case joined_steps(1) [OF ok] c(1)
    using u(2) free out up ok_updates [OF ok] ok_updates(2) [OF ok_updates(1) [OF ok], where c = "issued_copy c uid"]
    by (simp add: pg_record_issue_def Let_def joined_steps [OF ok] joined_steps(3) [OF ok_updates(1) [OF ok]]
        joined_user_steps(2) joined_event joined_invalidate checked_out_def issued_payload_def)
  show thesis
    by (rule that) (simp add: pg_issue_physical_book_def joined_section(1) [OF ok w] sec Let_def)
qed

lemma joined_return:
  assumes ok: "tables_ok t" and c: "stored_copy t cid = Inr (Some c)" "copy_status c = ISSUED" "cp_borrower c = Some b" "b \<noteq> []"
    and u: "stored_user (be_users (joined_backend k)) t b = Inr None" and up: "redis_up p"
  obtains out s' p1 where "pg_return_section (joined_backend k) env cid actor late dam (t, []) p = (Inr out, s', p1)"
proof -
  obtain assigned rm disp where h: "handle_copy_returned (ev_strftime env) (ev_now env) (pr_reservations p) (Some (pr_dispatcher p)) (cp_book_isbn c) cid 48 =
      (assigned, rm, disp)" by (metis prod.collapse)
  note ok' = ok_updates(2) [OF ok, where c = "shelved c None"]
  have "\<exists>out s' p1. pg_record_return (joined_backend k) env cid actor late dam b (shelved c None) (t, []) p = (Inr out, s', p1)"
    using up ok' by (cases assigned) (simp_all add: pg_record_return_def joined_steps [OF ok] joined_steps(3) h skip_tx reserve_shelved
        joined_event joined_invalidate)
  then obtain out s' p1 where "pg_record_return (joined_backend k) env cid actor late dam b (shelved c None) (t, []) p = (Inr out, s', p1)" by blast
  moreover have "copy_return_book c = Inr (shelved c None)" by (rule return_issued [OF c(2)])
  ultimately show thesis
    using c u by (intro that [of out s' p1]) (simp add: pg_return_section_def joined_steps(1) [OF ok] joined_user_steps(1) [OF ok] truthy_def skip_tx del: copy_return_book_def)
qed

text \<open>A copy on the shelf and a faculty member; the same copy issued, with a second user waiting for the title.\<close>

definition free_copy :: book_copy where
  "free_copy = new_copy ''C1'' ''I1'' ''B1'' ''A1'' 500"

definition desk_tables :: "book_copy \<Rightarrow> tables" where
  "desk_tables c = no_tables\<lparr>tb_copies := [(''C1'', copy_to_model c)], tb_users :=
     [(''U2'', merged_row None (user_to_model iso_user_env sorted_list_of_set (new_faculty ''U2'' ''N'' ''e'' (Some ''CS'') ''h'' ''B1'')))]\<rparr>"

definition desk_process :: "toy_server process" where
  "desk_process = (build_postgres_process 0 \<lparr>ts_store = [], ts_up = True, ts_readonly = False\<rparr>)
     \<lparr>pr_reservations := joined 0 ''R'' 0 new_reservation_mgr ''I1'' ''U2''\<rparr>"

lemma desk_facts:
  "tables_ok (desk_tables c)" if "cp_copy_id c = ''C1''" for c
  using that by (simp add: desk_tables_def no_tables_def tables_ok_def row_keyed_def dict_wf_def copy_to_model_def user_to_model_def new_faculty_def new_user_def)

lemma desk_stored:
  "stored_copy (desk_tables c) ''C1'' = Inr (Some c)" "stored_user ue (desk_tables c) ''U1'' = Inr None"
  "stored_user (be_users (joined_backend k)) (desk_tables c) ''U2'' = Inr (Some (new_faculty ''U2'' ''N'' ''e'' (Some ''CS'') ''h'' ''B1''))"
proof -
  let ?u = "new_faculty ''U2'' ''N'' ''e'' (Some ''CS'') ''h'' ''B1''"
  have "restored_user ?u = ?u" by (simp add: restored_user_def new_faculty_def new_user_def get_role_def role_limit_def)
  moreover have "finite (us_active ?u)" "finite (us_active_reservations ?u)" by (simp_all add: new_faculty_def new_user_def)
  ultimately have "model_to_user iso_user_env (merged_row None (user_to_model iso_user_env sorted_list_of_set ?u)) = Inr ?u"
    using user_roundtrip [of "sorted_list_of_set" iso_user_env ?u None] iso_user_env_law by simp
  then show "stored_user (be_users (joined_backend k)) (desk_tables c) ''U2'' = Inr (Some ?u)"
    by (simp add: stored_user_def desk_tables_def optional_def map_ok_def joined_backend_def)
qed (simp_all add: stored_copy_def stored_user_def desk_tables_def optional_def map_ok_def copy_roundtrip)

lemma desk_process_facts: "redis_up desk_process" "res_inv (pr_reservations desk_process)" "wait_list (pr_reservations desk_process) ''I1'' = [''U2'']"
proof -
  have "wait_list new_reservation_mgr ''I1'' = []" by (simp add: wait_list_def queue_of_def new_reservation_mgr_def dget_default_def)
  then show "wait_list (pr_reservations desk_process) ''I1'' = [''U2'']"
    by (simp add: desk_process_def joined_def reserve_wait_list)
qed (simp_all add: desk_process_def redis_up_def build_postgres_process_def new_redis_cache_def joined_def reserve_inv)

lemma desk_issue:
  obtains tx db1 p1 where "pg_issue_physical_book (joined_backend True) demo_env (desk_tables free_copy, []) desk_process ''C1'' ''U2'' ''LIB'' 14 = (Inr tx, db1, p1)"
proof -
  let ?u = "new_faculty ''U2'' ''N'' ''e'' (Some ''CS'') ''h'' ''B1''"
  have "tables_ok (desk_tables free_copy)" "can_borrow ?u" "free_for free_copy ''U2''"
    by (simp_all add: desk_facts free_copy_def new_copy_def free_for_def copy_status_def new_faculty_def new_user_def can_borrow_def)
  then show thesis
    by (rule joined_issue [OF _ desk_stored(3) _ desk_stored(1) _ desk_process_facts(1), where env = demo_env and actor = "''LIB''" and days = 14]) (rule that)
qed

theorem postgres_checkout_atomic_witness:
  "\<exists>tx db1 p1 c. pg_issue_physical_book (joined_backend True) demo_env (desk_tables free_copy, []) desk_process ''C1'' ''U2'' ''LIB'' 14 = (Inr tx, db1, p1) \<and>
     stored_copy (desk_tables free_copy) ''C1'' = Inr (Some c) \<and> free_for c ''U2'' \<and>
     tb_records (shown (fst db1)) = [record_to_row tx] \<and> find_event (clean (snd db1)) ''EVT-0B'' \<noteq> None"
proof (rule desk_issue)
  fix tx db1 p1
  assume run: "pg_issue_physical_book (joined_backend True) demo_env (desk_tables free_copy, []) desk_process ''C1'' ''U2'' ''LIB'' 14 = (Inr tx, db1, p1)"
  have "shown (desk_tables free_copy) = desk_tables free_copy" by (rule shown_id [OF desk_facts]) (simp add: free_copy_def new_copy_def)
  moreover have "tb_records (desk_tables free_copy) = []" by (simp add: desk_tables_def no_tables_def)
  moreover have "ev_uuid12 demo_env = ''0B''" by (simp add: demo_env_def)
  ultimately show ?thesis using postgres_checkout_atomic [OF joined_backend_laws run] run by auto
qed

theorem postgres_no_double_checkout_witness:
  "\<exists>tx db1 p1 e. pg_issue_physical_book (joined_backend True) demo_env (desk_tables free_copy, []) desk_process ''C1'' ''U2'' ''LIB'' 14 = (Inr tx, db1, p1) \<and>
     fst (pg_issue_physical_book (joined_backend True) demo_env db1 desk_process ''C1'' ''U2'' ''LIB'' 14) = Inl e"
proof (rule desk_issue)
  fix tx db1 p1
  assume run: "pg_issue_physical_book (joined_backend True) demo_env (desk_tables free_copy, []) desk_process ''C1'' ''U2'' ''LIB'' 14 = (Inr tx, db1, p1)"
  obtain r db2 q where "pg_issue_physical_book (joined_backend True) demo_env db1 desk_process ''C1'' ''U2'' ''LIB'' 14 = (r, db2, q)"
    by (metis prod.collapse)
  from postgres_no_double_checkout [OF joined_backend_laws run this] this run show ?thesis by auto
qed

lemma desk_return:
  obtains out s' p1 where "pg_return_section (joined_backend k) demo_env ''C1'' ''LIB'' False False (desk_tables demo_copy, []) desk_process = (Inr out, s', p1)"
proof -
  have "tables_ok (desk_tables demo_copy)" "copy_status demo_copy = ISSUED" "cp_borrower demo_copy = Some ''U1''"
    by (simp_all add: desk_facts demo_copy_def new_copy_def copy_status_def)
  then show thesis
    by (rule joined_return [OF _ desk_stored(1) _ _ _ desk_stored(2) desk_process_facts(1), where k = k and env = demo_env and actor = "''LIB''" and late = False and dam = False])
      (use that in simp_all)
qed

lemma demo_copy_facts: "copy_consistent demo_copy" "tables_ok (desk_tables demo_copy)" "shown (desk_tables demo_copy) = desk_tables demo_copy"
  "cp_book_isbn demo_copy = ''I1''" "dget (tb_copies (desk_tables demo_copy)) ''C1'' = Some (copy_to_model demo_copy)"
proof -
  show ok: "tables_ok (desk_tables demo_copy)" by (rule desk_facts [OF demo_tables(3)])
  show "shown (desk_tables demo_copy) = desk_tables demo_copy" by (rule shown_id [OF ok])
  show "dget (tb_copies (desk_tables demo_copy)) ''C1'' = Some (copy_to_model demo_copy)" by (simp add: desk_tables_def)
qed (simp_all add: demo_copy_def new_copy_def copy_consistent_def copy_status_def)

theorem postgres_return_serves_next_witness:
  "\<exists>out db' p' c'. pg_return_physical_book (joined_backend True) demo_env (desk_tables demo_copy, []) desk_process ''C1'' ''LIB'' False False = (Inr out, db', p') \<and>
     stored_copy (shown (fst db')) ''C1'' = Inr (Some c') \<and> copy_status c' = RESERVED \<and> cp_reserver c' = Some ''U2''"
proof (rule desk_return [of True])
  fix out s' p1
  assume sec: "pg_return_section (joined_backend True) demo_env ''C1'' ''LIB'' False False (desk_tables demo_copy, []) desk_process = (Inr out, s', p1)"
  have run: "pg_return_physical_book (joined_backend True) demo_env (desk_tables demo_copy, []) desk_process ''C1'' ''LIB'' False False = (Inr out, s', p1)"
    by (simp add: pg_return_physical_book_def joined_section(1) [OF demo_copy_facts(2,5)] sec)
  have con: "copy_consistent c" if "stored_copy (shown (fst (desk_tables demo_copy, [] :: outbox))) ''C1'' = Inr (Some c)" for c
    using that by (simp add: demo_copy_facts desk_stored)
  have order: "finite S \<Longrightarrow> set (be_order (joined_backend True) S) = S" for S by (simp add: joined_backend_def)
  have iso: "ue_fromisoformat (be_users (joined_backend True)) (ue_isoformat (be_users (joined_backend True)) d) = Inr d" for d
    by (simp add: joined_backend_def iso_user_env_law)
  from postgres_return_serves_next [OF joined_backend_laws desk_process_facts(2) con order iso run] run show ?thesis
    by (auto simp: demo_copy_facts desk_stored desk_process_facts)
qed

theorem failed_commit_loses_reservation_witness:
  "\<exists>e db' p'. pg_return_physical_book (joined_backend False) demo_env (desk_tables demo_copy, []) desk_process ''C1'' ''LIB'' False False = (Inl e, db', p') \<and>
     db' = (desk_tables demo_copy, []) \<and> wait_list (pr_reservations p') ''I1'' = []"
proof (rule desk_return [of False])
  fix out s' p1
  assume sec: "pg_return_section (joined_backend False) demo_env ''C1'' ''LIB'' False False (desk_tables demo_copy, []) desk_process = (Inr out, s', p1)"
  let ?db = "(desk_tables demo_copy, [] :: outbox)"
  have run: "pg_return_physical_book (joined_backend False) demo_env ?db desk_process ''C1'' ''LIB'' False False =
      (Inl (RuntimeError ''serialization failure''), ?db, p1)"
    by (simp add: pg_return_physical_book_def joined_section(1) [OF demo_copy_facts(2,5)] sec)
  have start: "en_create_session (be_engine (joined_backend False)) ?db = ?db" by (simp add: joined_backend_def joined_engine_def)
  have sec': "pg_return_section (joined_backend False) demo_env ''C1'' ''LIB'' False False
      (en_create_session (be_engine (joined_backend False)) ?db) desk_process = (Inr out, s', p1)"
    unfolding start by (rule sec)
  have st: "stored_copy (shown (fst ?db)) ''C1'' = Inr (Some demo_copy)" by (simp add: demo_copy_facts desk_stored)
  have wl: "wait_list (pr_reservations desk_process) (cp_book_isbn demo_copy) = ''U2'' # []"
    by (simp add: demo_copy_facts desk_process_facts)
  have lock: "t_lock_one (en_copies (be_engine (joined_backend False))) (en_create_session (be_engine (joined_backend False)) ?db) (\<lambda>x. cw_copy_id x = ''C1'') =
      Inr (Some (copy_to_model demo_copy))"
    unfolding start by (rule joined_section(2) [OF demo_copy_facts(2,5)])
  from failed_commit_loses_reservation [OF joined_backend_laws desk_process_facts(2) st demo_copy_facts(1) wl sec' run lock] run
  show ?thesis by (simp add: demo_copy_facts)
qed

end
