(* ===== verification/Postgres_Relay.thy ===== *)
theory Postgres_Relay
  imports Postgres_Outbox
begin

text \<open>
  The relay of \<^verbatim>\<open>libflow/storage/outbox.py\<close> in the deployed wiring, from the Postgres outbox to any event bus. Recording
  an outcome is a transaction of its own and may raise: an error while an event is recorded as published is treated like
  a refusal by the bus, and an error while a failure is recorded leaves the round.
\<close>

type_synonym 'b publisher = "string \<Rightarrow> payload \<Rightarrow> 'b \<Rightarrow> (exn + string) \<times> 'b"

section \<open>A round of the relay\<close>

fun pg_relay_loop ::
  "('db, 's) outbox_engine \<Rightarrow> timestamp \<Rightarrow> 'b publisher \<Rightarrow> outbox_event list \<Rightarrow> 'db \<Rightarrow> 'b \<Rightarrow> nat \<Rightarrow> (exn + nat) \<times> 'db \<times> 'b" where
  "pg_relay_loop q now publish [] db b n = (Inr n, db, b)"
| "pg_relay_loop q now publish (evt # pending) db b n =
     (case (case publish (oe_topic evt) (oe_payload evt) b of
              (Inl e, b) \<Rightarrow> (Inl e, db, b)
            | (Inr _, b) \<Rightarrow> (case pg_mark_published q now (oe_event_id evt) db of (r, db) \<Rightarrow> (r, db, b))) of
        (Inr _, db, b) \<Rightarrow> pg_relay_loop q now publish pending db b (n + 1)
      | (Inl _, db, b) \<Rightarrow>
          (case pg_mark_failed q (oe_event_id evt) db of
             (Inl e, db) \<Rightarrow> (Inl e, db, b)
           | (Inr _, db) \<Rightarrow> pg_relay_loop q now publish pending db b n))"

definition pg_publish_pending_once ::
  "('db, 's) outbox_engine \<Rightarrow> timestamp \<Rightarrow> 'b publisher \<Rightarrow> 'db \<Rightarrow> 'b \<Rightarrow> (exn + nat) \<times> 'db \<times> 'b" where
  "pg_publish_pending_once q now publish db b =
     (case pg_fetch_pending q 50 True db of
        (Inl e, db) \<Rightarrow> (Inl e, db, b)
      | (Inr pending, db) \<Rightarrow> pg_relay_loop q now publish pending db b 0)"

section \<open>One event\<close>

definition published :: "timestamp \<Rightarrow> outbox_event \<Rightarrow> outbox_event" where
  "published now e = e\<lparr>oe_status := OB_PUBLISHED, oe_published_at := Some now\<rparr>"

definition recorded :: "timestamp \<Rightarrow> event_view \<Rightarrow> outbox_event \<Rightarrow> bool" where
  "recorded now v e \<longleftrightarrow> v (oe_event_id e) = Some (published now e)"

definition outcome :: "timestamp \<Rightarrow> event_view \<Rightarrow> outbox_event \<Rightarrow> exn + string \<Rightarrow> bool" where
  "outcome now v e r \<longleftrightarrow> recorded now v e \<and> \<not> isl r \<or> v (oe_event_id e) = Some (failed_event e)"

text \<open>Offering events to the bus one after the other: the answers, and the bus afterwards.\<close>

fun offer :: "'b publisher \<Rightarrow> outbox_event list \<Rightarrow> 'b \<Rightarrow> (exn + string) list \<times> 'b" where
  "offer publish [] b = ([], b)"
| "offer publish (e # es) b =
     (case publish (oe_topic e) (oe_payload e) b of (r, b) \<Rightarrow> (case offer publish es b of (rs, b) \<Rightarrow> (r # rs, b)))"

lemma published_not_failed: "published now e \<noteq> failed_event e"
  by (cases e) (simp add: published_def failed_event_def Let_def)

lemma pg_update_raised: "pg_update_event q f i db = (Inl e, db') \<Longrightarrow> db' = db"
  by (auto simp: pg_update_event_def Let_def split: sum.splits list.splits)

lemma mark_raised:
  "pg_mark_published q now i db = (Inl e, db') \<Longrightarrow> db' = db" "pg_mark_failed q i db = (Inl e, db') \<Longrightarrow> db' = db"
  by (simp_all add: pg_mark_published_def pg_mark_failed_def pg_update_raised)

lemma mark_view:
  assumes laws: "outbox_laws q sv dv"
  shows "pg_mark_published q now i db = (Inr x, db') \<Longrightarrow> dv db' j = (if j = i then map_option (published now) (dv db i) else dv db j)"
    and "pg_mark_failed q i db = (Inr x, db') \<Longrightarrow> dv db' j = (if j = i then map_option failed_event (dv db i) else dv db j)"
proof -
  have ids: "oe_event_id (published now e) = oe_event_id e" "oe_event_id (failed_event e) = oe_event_id e" for e
    by (simp_all add: published_def failed_event_def Let_def)
  have f: "(\<lambda>e. e\<lparr>oe_status := OB_PUBLISHED, oe_published_at := Some now\<rparr>) = published now" by (simp add: published_def fun_eq_iff)
  show "pg_mark_published q now i db = (Inr x, db') \<Longrightarrow> dv db' j = (if j = i then map_option (published now) (dv db i) else dv db j)"
    unfolding pg_mark_published_def f by (rule postgres_outcome_refines [OF laws ids(1)]) simp
  show "pg_mark_failed q i db = (Inr x, db') \<Longrightarrow> dv db' j = (if j = i then map_option failed_event (dv db i) else dv db j)"
    unfolding pg_mark_failed_def by (rule postgres_outcome_refines [OF laws ids(2)]) simp
qed

text \<open>An event is offered to the bus once and then recorded as published or as failed, or the round ends with an error.\<close>

lemma relay_event:
  assumes laws: "outbox_laws q sv dv" and evt: "dv db (oe_event_id evt) = Some evt"
    and p: "publish (oe_topic evt) (oe_payload evt) b = (r, b1)"
  obtains (ok) db1 where "pg_relay_loop q now publish (evt # pending) db b n =
      pg_relay_loop q now publish pending db1 b1 (n + of_bool (recorded now (dv db1) evt))"
    "\<And>j. j \<noteq> oe_event_id evt \<Longrightarrow> dv db1 j = dv db j" "outcome now (dv db1) evt r"
  | (raised) e where "pg_relay_loop q now publish (evt # pending) db b n = (Inl e, db, b1)"
proof -
  let ?i = "oe_event_id evt"
  obtain o1 db1 where mp: "pg_mark_published q now ?i db = (o1, db1)" by fastforce
  obtain o2 db2 where mf: "pg_mark_failed q ?i db = (o2, db2)" by fastforce
  have failed: thesis if bad: "isl r \<or> isl o1"
  proof -
    have loop: "pg_relay_loop q now publish (evt # pending) db b n =
        (case o2 of Inl e \<Rightarrow> (Inl e, db2, b1) | Inr _ \<Rightarrow> pg_relay_loop q now publish pending db2 b1 n)"
      using bad p mp mf mark_raised(1) [of q now ?i db _ db1] by (auto simp: isl_def split: sum.splits)
    show thesis
    proof (cases o2)
      case (Inl e)
      then show ?thesis using raised [of e] loop mark_raised(2) [of q ?i db e db2] mf by simp
    next
      case (Inr x)
      note v = mark_view(2) [OF laws mf [unfolded Inr]]
      have "dv db2 ?i = Some (failed_event evt)" using v evt by simp
      then have "outcome now (dv db2) evt r" "\<not> recorded now (dv db2) evt"
        using published_not_failed [of now evt] by (auto simp: outcome_def recorded_def)
      then show ?thesis using ok [of db2] loop Inr v by simp
    qed
  qed
  show thesis
  proof (cases "isl r \<or> isl o1")
    case False
    then obtain m x where mx: "r = Inr m" "o1 = Inr x" by (cases r; cases o1) auto
    note v = mark_view(1) [OF laws mp [unfolded mx(2)]]
    have rec: "recorded now (dv db1) evt" using v evt by (simp add: recorded_def)
    then have "outcome now (dv db1) evt r" using mx by (simp add: outcome_def)
    moreover have "pg_relay_loop q now publish (evt # pending) db b n = pg_relay_loop q now publish pending db1 b1 (n + 1)"
      using p mp mx by simp
    ultimately show ?thesis using ok [of db1] v rec by simp
  qed (rule failed)
qed

section \<open>The events of a round\<close>

definition round_done :: "timestamp \<Rightarrow> 'b publisher \<Rightarrow> outbox_event list \<Rightarrow> 'b \<Rightarrow> event_view \<Rightarrow> event_view \<Rightarrow> bool" where
  "round_done now publish evs b v v' \<longleftrightarrow> list_all2 (outcome now v') evs (fst (offer publish evs b)) \<and>
     (\<forall>i. i \<notin> set (event_ids evs) \<longrightarrow> v' i = v i)"

lemma outcome_cong: "v' (oe_event_id e) = v (oe_event_id e) \<Longrightarrow> outcome now v' e r = outcome now v e r \<and> recorded now v' e = recorded now v e"
  by (simp add: outcome_def recorded_def)

lemma round_done_Cons:
  assumes "publish (oe_topic evt) (oe_payload evt) b = (r, b1)" "outcome now v1 evt r" "\<And>j. j \<noteq> oe_event_id evt \<Longrightarrow> v1 j = v j"
    "oe_event_id evt \<notin> set (event_ids evs)" "round_done now publish evs b1 v1 v'"
  shows "round_done now publish (evt # evs) b v v'"
proof -
  have "v' (oe_event_id evt) = v1 (oe_event_id evt)" using assms(4,5) by (simp add: round_done_def)
  then have "outcome now v' evt r" using assms(2) outcome_cong by metis
  then show ?thesis using assms(1,3,5) by (auto simp: round_done_def split: prod.splits)
qed

lemma others_kept:
  assumes "\<forall>e \<in> set (evt # evs). v (oe_event_id e) = Some e" "oe_event_id evt \<notin> set (event_ids evs)"
    "\<And>j. j \<noteq> oe_event_id evt \<Longrightarrow> w j = v j"
  shows "\<forall>e \<in> set evs. w (oe_event_id e) = Some e"
proof
  fix e assume e: "e \<in> set evs"
  then have "oe_event_id e \<in> set (event_ids evs)" by simp
  then have "oe_event_id e \<noteq> oe_event_id evt" using assms(2) by metis
  then show "w (oe_event_id e) = Some e" using assms(1,3) e by simp
qed

lemma relay_returns:
  assumes laws: "outbox_laws q sv dv"
  shows "pg_relay_loop q now publish evs db b n = (Inr n', db', b') \<Longrightarrow> distinct (event_ids evs) \<Longrightarrow>
    \<forall>e \<in> set evs. dv db (oe_event_id e) = Some e \<Longrightarrow>
    round_done now publish evs b (dv db) (dv db') \<and> b' = snd (offer publish evs b) \<and> n' = n + length (filter (recorded now (dv db')) evs)"
proof (induction evs arbitrary: db b n)
  case (Cons evt evs)
  obtain r b1 where p: "publish (oe_topic evt) (oe_payload evt) b = (r, b1)" by fastforce
  have evt: "dv db (oe_event_id evt) = Some evt" "oe_event_id evt \<notin> set (event_ids evs)" using Cons.prems by auto
  show ?case
  proof (rule relay_event [where now = now and pending = evs and n = n and dv = dv and db = db and publish = publish and b = b, OF laws evt(1) p])
    fix db1 assume a: "pg_relay_loop q now publish (evt # evs) db b n =
        pg_relay_loop q now publish evs db1 b1 (n + of_bool (recorded now (dv db1) evt))"
      "\<And>j. j \<noteq> oe_event_id evt \<Longrightarrow> dv db1 j = dv db j" "outcome now (dv db1) evt r"
    note kept = others_kept [where v = "dv db" and w = "dv db1", OF Cons.prems(3) evt(2) a(2)]
    from kept Cons.IH [OF Cons.prems(1) [unfolded a(1)]] Cons.prems(2)
    have ih: "round_done now publish evs b1 (dv db1) (dv db')" "b' = snd (offer publish evs b1)"
      "n' = n + of_bool (recorded now (dv db1) evt) + length (filter (recorded now (dv db')) evs)" by auto
    have "dv db' (oe_event_id evt) = dv db1 (oe_event_id evt)" using ih(1) evt(2) by (simp add: round_done_def)
    then have "recorded now (dv db') evt = recorded now (dv db1) evt" by (simp add: recorded_def)
    then show ?thesis using round_done_Cons [OF p a(3,2) evt(2) ih(1)] ih(2,3) p by (simp split: prod.splits)
  next
    fix e assume "pg_relay_loop q now publish (evt # evs) db b n = (Inl e, db, b1)"
    then show ?thesis using Cons.prems(1) by simp
  qed
qed (simp add: round_done_def)

lemma relay_raises:
  assumes laws: "outbox_laws q sv dv"
  shows "pg_relay_loop q now publish evs db b n = (Inl x, db', b') \<Longrightarrow> distinct (event_ids evs) \<Longrightarrow>
    \<forall>e \<in> set evs. dv db (oe_event_id e) = Some e \<Longrightarrow>
    \<exists>before evt left. evs = before @ evt # left \<and> round_done now publish before b (dv db) (dv db') \<and> b' = snd (offer publish (before @ [evt]) b)"
proof (induction evs arbitrary: db b n)
  case (Cons evt evs)
  obtain r b1 where p: "publish (oe_topic evt) (oe_payload evt) b = (r, b1)" by fastforce
  have evt: "dv db (oe_event_id evt) = Some evt" "oe_event_id evt \<notin> set (event_ids evs)" using Cons.prems by auto
  show ?case
  proof (rule relay_event [where now = now and pending = evs and n = n and dv = dv and db = db and publish = publish and b = b, OF laws evt(1) p])
    fix db1 assume a: "pg_relay_loop q now publish (evt # evs) db b n =
        pg_relay_loop q now publish evs db1 b1 (n + of_bool (recorded now (dv db1) evt))"
      "\<And>j. j \<noteq> oe_event_id evt \<Longrightarrow> dv db1 j = dv db j" "outcome now (dv db1) evt r"
    note kept = others_kept [where v = "dv db" and w = "dv db1", OF Cons.prems(3) evt(2) a(2)]
    from kept Cons.IH [OF Cons.prems(1) [unfolded a(1)]] Cons.prems(2)
    obtain before e left where ih: "evs = before @ e # left" "round_done now publish before b1 (dv db1) (dv db')"
      "b' = snd (offer publish (before @ [e]) b1)" by auto
    have "oe_event_id evt \<notin> set (event_ids before)" using evt(2) ih(1) by simp
    from round_done_Cons [OF p a(3,2) this ih(2)] have "round_done now publish (evt # before) b (dv db) (dv db')" .
    moreover have "b' = snd (offer publish ((evt # before) @ [e]) b)" using ih(3) p by (simp split: prod.splits)
    ultimately show ?thesis using ih(1) by (metis append_Cons)
  next
    fix e assume "pg_relay_loop q now publish (evt # evs) db b n = (Inl e, db, b1)"
    then have "db' = db" "b' = b1" using Cons.prems(1) by auto
    then have "round_done now publish [] b (dv db) (dv db')" "b' = snd (offer publish ([] @ [evt]) b)"
      using p by (auto simp: round_done_def)
    then show ?thesis by blast
  qed
qed simp

text \<open>What a claim hands to the loop.\<close>

lemma claimed_events:
  assumes laws: "outbox_laws q sv dv" and claim: "pg_fetch_pending q limit True db = (Inr evs, db1)"
  shows "distinct (event_ids evs)" "\<forall>e \<in> set evs. dv db1 (oe_event_id e) = Some e \<and> oe_status e = OB_IN_FLIGHT"
    "\<And>i. i \<notin> set (event_ids evs) \<Longrightarrow> dv db1 i = dv db i"
proof -
  obtain rows where rows: "evs = map in_flight rows" "rows_of (dv db) is_pending (Some limit) rows"
    "\<And>i. dv db1 i = (case find_event rows i of Some e \<Rightarrow> Some (in_flight e) | None \<Rightarrow> dv db i)"
    using claim_view [OF laws claim] by metis
  have d: "distinct (event_ids rows)" using rows(2) by (simp add: rows_of_def)
  have ids: "event_ids evs = event_ids rows" using rows(1) by simp
  show "distinct (event_ids evs)" using d ids by simp
  show "\<forall>e \<in> set evs. dv db1 (oe_event_id e) = Some e \<and> oe_status e = OB_IN_FLIGHT"
    using rows(1,3) find_event_in [OF d] by (auto simp: in_flight_def)
  show "dv db1 i = dv db i" if "i \<notin> set (event_ids evs)" for i
    using that rows(3) [of i] find_event_None [of rows i] ids by simp
qed

lemma round_doneD: "round_done now publish evs b v v' \<Longrightarrow> i \<notin> set (event_ids evs) \<Longrightarrow> v' i = v i"
  by (simp add: round_done_def)

lemma claim_skips:
  assumes laws: "outbox_laws q sv dv" and claim: "pg_fetch_pending q limit True db = (Inr evs, db1)"
    and "dv db i = Some e" "oe_status e = OB_IN_FLIGHT"
  shows "i \<notin> set (event_ids evs)"
proof
  assume i: "i \<in> set (event_ids evs)"
  obtain rows where rows: "evs = map in_flight rows" "rows_of (dv db) is_pending (Some limit) rows"
    using claim_view [OF laws claim] by metis
  then obtain p where "p \<in> set rows" "oe_event_id p = i" using i by auto
  then have "dv db i = Some p" "is_pending p" using rows(2) by (auto simp: rows_of_def)
  then show False using assms(3,4) by (simp add: is_pending_def)
qed

text \<open>
  C38: a round of the relay over Postgres that returns has offered every event it claimed to the bus, once and in
  order, and has left each of them published or counted as failed, published only if the bus accepted it. The number it
  returns is the number of events it left published, and no event that it did not claim has changed.
\<close>

theorem postgres_relay_round:
  assumes laws: "outbox_laws q sv dv" and run: "pg_publish_pending_once q now publish db b = (Inr n, db', b')"
  shows "\<exists>evs db1. pg_fetch_pending q 50 True db = (Inr evs, db1) \<and> b' = snd (offer publish evs b) \<and>
    list_all2 (outcome now (dv db')) evs (fst (offer publish evs b)) \<and> n = length (filter (recorded now (dv db')) evs) \<and>
    (\<forall>i. i \<notin> set (event_ids evs) \<longrightarrow> dv db' i = dv db i)"
proof -
  obtain evs db1 where f: "pg_fetch_pending q 50 True db = (Inr evs, db1)" "pg_relay_loop q now publish evs db1 b 0 = (Inr n, db', b')"
    using run by (auto simp: pg_publish_pending_once_def split: sum.splits prod.splits)
  note c = claimed_events [OF laws f(1)]
  from relay_returns [OF laws f(2) c(1)] c(2)
  have "round_done now publish evs b (dv db1) (dv db')" "b' = snd (offer publish evs b)" "n = length (filter (recorded now (dv db')) evs)"
    by auto
  then show ?thesis using f(1) c(3) by (auto simp: round_done_def)
qed

text \<open>
  An error while a failure is recorded ends the round. The events before it have their outcome; the event itself was offered
  to the bus, the events after it were not. All of these stay in flight, and no later claim returns them.
\<close>

theorem postgres_relay_strands_batch:
  assumes laws: "outbox_laws q sv dv" and claim: "pg_fetch_pending q 50 True db = (Inr evs, db1)"
    and run: "pg_publish_pending_once q now publish db b = (Inl x, db', b')"
  shows "\<exists>before evt left. evs = before @ evt # left \<and> b' = snd (offer publish (before @ [evt]) b) \<and>
    list_all2 (outcome now (dv db')) before (fst (offer publish before b)) \<and>
    (\<forall>e \<in> set (evt # left). dv db' (oe_event_id e) = Some e \<and> oe_status e = OB_IN_FLIGHT) \<and>
    (\<forall>limit evs' db''. pg_fetch_pending q limit True db' = (Inr evs', db'') \<longrightarrow> set (event_ids (evt # left)) \<inter> set (event_ids evs') = {})"
proof -
  have loop: "pg_relay_loop q now publish evs db1 b 0 = (Inl x, db', b')"
    using run claim by (simp add: pg_publish_pending_once_def)
  note c = claimed_events [OF laws claim]
  obtain before evt left where r: "evs = before @ evt # left" "round_done now publish before b (dv db1) (dv db')"
    "b' = snd (offer publish (before @ [evt]) b)" using relay_raises [OF laws loop c(1)] c(2) by blast
  have stuck: "\<forall>e \<in> set (evt # left). dv db' (oe_event_id e) = Some e \<and> oe_status e = OB_IN_FLIGHT"
  proof
    fix e assume e: "e \<in> set (evt # left)"
    then have "oe_event_id e \<notin> set (event_ids before)" using c(1) r(1) by auto
    from round_doneD [OF r(2) this]
    show "dv db' (oe_event_id e) = Some e \<and> oe_status e = OB_IN_FLIGHT" using c(2) e r(1) by auto
  qed
  have "set (event_ids (evt # left)) \<inter> set (event_ids evs') = {}" if next_claim: "pg_fetch_pending q limit True db' = (Inr evs', db'')" for limit evs' db''
  proof -
    have "i \<notin> set (event_ids evs')" if "i \<in> set (event_ids (evt # left))" for i
    proof -
      obtain e where e: "e \<in> set (evt # left)" "oe_event_id e = i" using \<open>i \<in> set (event_ids (evt # left))\<close> by auto
      then have "dv db' i = Some e" "oe_status e = OB_IN_FLIGHT" using stuck by blast+
      then show ?thesis by (rule claim_skips [OF laws next_claim])
    qed
    then show ?thesis by blast
  qed
  then show ?thesis using r stuck unfolding round_done_def by blast
qed

section \<open>Two rounds\<close>

text \<open>A bus that accepts the first event only, and a database that refuses to commit a retry.\<close>

definition first_only :: "nat publisher" where
  "first_only topic payload b = (if b = 0 then Inr ''0-1'' else Inl (RuntimeError ''bus''), b + 1)"

definition no_retry_engine :: "(outbox, outbox) outbox_engine" where
  "no_retry_engine = list_engine\<lparr>oq_commit := \<lambda>s db. if \<exists>e \<in> set s. 0 < oe_retry_count e then Inl (RuntimeError ''commit'') else Inr s\<rparr>"

lemma no_retry_engine_laws: "outbox_laws no_retry_engine (\<lambda>s. find_event (clean s)) (\<lambda>s. find_event (clean s))"
proof -
  have same: "oq_session no_retry_engine = oq_session list_engine" "oq_add no_retry_engine = oq_add list_engine"
    "oq_select no_retry_engine = oq_select list_engine" "oq_select_skip_locked no_retry_engine = oq_select_skip_locked list_engine"
    "oq_assign no_retry_engine = oq_assign list_engine" by (simp_all add: no_retry_engine_def)
  have "\<forall>s db db'. oq_commit no_retry_engine s db = Inr db' \<longrightarrow> find_event (clean db') = find_event (clean s)"
    by (simp add: no_retry_engine_def)
  then show ?thesis using list_engine_laws unfolding outbox_laws_def same by (elim conjE) (intro conjI; assumption)
qed

abbreviation evt_A :: outbox_event where
  "evt_A \<equiv> new_event 0 ''A'' ''t'' []"

abbreviation evt_B :: outbox_event where
  "evt_B \<equiv> new_event 0 ''B'' ''t'' []"

lemmas relay_eval = Let_def pg_publish_pending_once_def pg_fetch_pending_def pg_mark_published_def pg_mark_failed_def pg_update_event_def
  list_engine_def no_retry_engine_def two_events_def new_event_def clean_def capped_def is_pending_def in_flight_def first_only_def
  failed_event_def published_def

theorem postgres_relay_round_witness:
  "\<exists>n db' b'. pg_publish_pending_once list_engine 7 first_only two_events 0 = (Inr n, db', b') \<and> n = 1 \<and> b' = 2 \<and>
     (\<exists>evs db1. pg_fetch_pending list_engine 50 True two_events = (Inr evs, db1) \<and> b' = snd (offer first_only evs 0) \<and>
        list_all2 (outcome 7 (find_event (clean db'))) evs (fst (offer first_only evs 0)))"
proof -
  have run: "pg_publish_pending_once list_engine 7 first_only two_events 0 =
      (Inr 1, [published 7 (in_flight evt_A), failed_event (in_flight evt_B)], 2)"
    by (simp add: relay_eval)
  from postgres_relay_round [OF list_engine_laws run] run show ?thesis by auto
qed

theorem postgres_relay_strands_batch_witness:
  "\<exists>x db' b'. pg_publish_pending_once no_retry_engine 7 first_only two_events 0 = (Inl x, db', b') \<and>
     (\<exists>before evt left. [in_flight evt_A, in_flight evt_B] = before @ evt # left \<and> b' = snd (offer first_only (before @ [evt]) 0) \<and>
        list_all2 (outcome 7 (find_event (clean db'))) before (fst (offer first_only before 0)) \<and>
        (\<forall>e \<in> set (evt # left). find_event (clean db') (oe_event_id e) = Some e \<and> oe_status e = OB_IN_FLIGHT))"
proof -
  have claim: "pg_fetch_pending no_retry_engine 50 True two_events = (Inr [in_flight evt_A, in_flight evt_B], [in_flight evt_A, in_flight evt_B])"
    by (simp add: relay_eval)
  have run: "pg_publish_pending_once no_retry_engine 7 first_only two_events 0 =
      (Inl (RuntimeError ''commit''), [published 7 (in_flight evt_A), in_flight evt_B], 2)"
    by (simp add: relay_eval)
  from postgres_relay_strands_batch [OF no_retry_engine_laws claim run] run show ?thesis by blast
qed

end
