(* ===== verification/Redis_Versions.thy ===== *)
theory Redis_Versions
  imports Lock_Manager
begin

text \<open>
  The optimistic versions of \<^verbatim>\<open>libflow/storage/lock_manager.py\<close> in distributed mode: the Lua script
  \<open>LUA_OPTIMISTIC_VERSION\<close>, which the server runs atomically, and the two methods over it. The commands of the server
  and the conversions of numbers to and from text, in Lua and in Python, are parameters. Lua numbers print exactly
  up to fourteen digits only, which is all that is assumed.
\<close>

record 'r version_server =
  vs_get :: "'r \<Rightarrow> string \<Rightarrow> string option"
  vs_set :: "'r \<Rightarrow> string \<Rightarrow> string \<Rightarrow> 'r"

record numerals =
  nm_tonumber :: "string \<Rightarrow> int option"
  nm_tostring :: "int \<Rightarrow> string"
  nm_int :: "string \<Rightarrow> int option"

definition server_keeps :: "'r version_server \<Rightarrow> bool" where
  "server_keeps sv \<longleftrightarrow> (\<forall>r k v k'. vs_get sv (vs_set sv r k v) k' = (if k' = k then Some v else vs_get sv r k'))"

definition exact_limit :: int where "exact_limit = 10 ^ 14"

definition numerals_exact :: "numerals \<Rightarrow> bool" where
  "numerals_exact nm \<longleftrightarrow>
     (\<forall>n. 0 \<le> n \<and> n < exact_limit \<longrightarrow> nm_tonumber nm (nm_tostring nm n) = Some n \<and> nm_int nm (nm_tostring nm n) = Some n) \<and>
     nm_tonumber nm ''1'' = Some 1"

definition ver_key :: "string \<Rightarrow> string" where
  "ver_key resource_id = ''ver:'' @ resource_id"

definition lua_optimistic_version :: "'r version_server \<Rightarrow> numerals \<Rightarrow> 'r \<Rightarrow> string \<Rightarrow> int \<Rightarrow> int \<times> 'r" where
  "lua_optimistic_version sv nm r key expected =
     (let current = (case vs_get sv r key of None \<Rightarrow> ''1'' | Some t \<Rightarrow> t)
      in case nm_tonumber nm current of
           None \<Rightarrow> (-1, r)
         | Some n \<Rightarrow>
             if n = expected then (n + 1, vs_set sv r key (nm_tostring nm (n + 1))) else (-1, r))"

definition redis_get_version :: "'r version_server \<Rightarrow> numerals \<Rightarrow> 'r \<Rightarrow> string \<Rightarrow> int" where
  "redis_get_version sv nm r resource_id =
     (case vs_get sv r (ver_key resource_id) of
        None \<Rightarrow> 1
      | Some t \<Rightarrow> (case nm_int nm t of None \<Rightarrow> 1 | Some n \<Rightarrow> n))"

definition redis_check_and_update_version ::
  "'r version_server \<Rightarrow> numerals \<Rightarrow> 'r \<Rightarrow> string \<Rightarrow> int \<Rightarrow> (exn + int) \<times> 'r" where
  "redis_check_and_update_version sv nm r resource_id expected =
     (case lua_optimistic_version sv nm r (ver_key resource_id) expected of
        (res, r) \<Rightarrow>
          if res = -1 then (Inl (version_conflict resource_id expected (redis_get_version sv nm r resource_id)), r)
          else (Inr res, r))"

section \<open>The distributed versions refine the versions in memory\<close>

definition versions_agree :: "'r version_server \<Rightarrow> numerals \<Rightarrow> lock_mgr \<Rightarrow> 'r \<Rightarrow> bool" where
  "versions_agree sv nm lm r \<longleftrightarrow>
     (\<forall>res. 1 \<le> get_version lm res \<and>
        (vs_get sv r (ver_key res) = None \<longrightarrow> get_version lm res = 1) \<and>
        (\<forall>t. vs_get sv r (ver_key res) = Some t \<longrightarrow>
           nm_tonumber nm t = Some (get_version lm res) \<and> nm_int nm t = Some (get_version lm res)))"

lemma ver_key_inj [simp]: "ver_key a = ver_key b \<longleftrightarrow> a = b"
  by (simp add: ver_key_def)

lemma agree_get: "versions_agree sv nm lm r \<Longrightarrow> redis_get_version sv nm r res = get_version lm res"
  by (cases "vs_get sv r (ver_key res)") (simp_all add: versions_agree_def redis_get_version_def)

lemma agree_lua:
  assumes "versions_agree sv nm lm r" "numerals_exact nm"
  shows "lua_optimistic_version sv nm r (ver_key res) v =
    (if get_version lm res = v then (v + 1, vs_set sv r (ver_key res) (nm_tostring nm (v + 1))) else (-1, r))"
proof -
  have "nm_tonumber nm (case vs_get sv r (ver_key res) of None \<Rightarrow> ''1'' | Some t \<Rightarrow> t) = Some (get_version lm res)"
    using assms by (cases "vs_get sv r (ver_key res)") (simp_all add: versions_agree_def numerals_exact_def)
  then show ?thesis by (simp add: lua_optimistic_version_def)
qed

lemma check_refines:
  assumes agree: "versions_agree sv nm lm r" and laws: "server_keeps sv" "numerals_exact nm"
    and small: "get_version lm res + 1 < exact_limit"
  shows "fst (redis_check_and_update_version sv nm r res v) = fst (check_and_update_version lm res v)"
    "versions_agree sv nm (snd (check_and_update_version lm res v)) (snd (redis_check_and_update_version sv nm r res v))"
proof -
  have pos: "1 \<le> get_version lm res" using agree by (simp add: versions_agree_def)
  show "fst (redis_check_and_update_version sv nm r res v) = fst (check_and_update_version lm res v)"
    using pos agree_get [OF agree] by (auto simp: redis_check_and_update_version_def agree_lua [OF agree laws(2)] check_version)
  show "versions_agree sv nm (snd (check_and_update_version lm res v)) (snd (redis_check_and_update_version sv nm r res v))"
  proof (cases "get_version lm res = v")
    case False
    then have "get_version (snd (check_and_update_version lm res v)) x = get_version lm x" for x by (simp add: check_version)
    moreover have "snd (redis_check_and_update_version sv nm r res v) = r"
      using False by (simp add: redis_check_and_update_version_def agree_lua [OF agree laws(2)])
    ultimately show ?thesis using agree by (simp add: versions_agree_def)
  next
    case True
    have n: "nm_tonumber nm (nm_tostring nm (v + 1)) = Some (v + 1)" "nm_int nm (nm_tostring nm (v + 1)) = Some (v + 1)"
      using laws(2) pos small True by (simp_all add: numerals_exact_def)
    have r: "snd (redis_check_and_update_version sv nm r res v) = vs_set sv r (ver_key res) (nm_tostring nm (v + 1))"
      using True pos by (simp add: redis_check_and_update_version_def agree_lua [OF agree laws(2)])
    have g: "get_version (snd (check_and_update_version lm res v)) x = (if x = res then v + 1 else get_version lm x)" for x
      using True by (simp add: check_version)
    show ?thesis
      using agree n pos True laws(1) unfolding versions_agree_def r g server_keeps_def by simp
  qed
qed

fun redis_updates :: "'r version_server \<Rightarrow> numerals \<Rightarrow> 'r \<Rightarrow> (string \<times> int) list \<Rightarrow> (exn + int) list" where
  "redis_updates sv nm r [] = []"
| "redis_updates sv nm r ((res, v) # xs) =
     (case redis_check_and_update_version sv nm r res v of (x, r) \<Rightarrow> x # redis_updates sv nm r xs)"

fun memory_updates :: "lock_mgr \<Rightarrow> (string \<times> int) list \<Rightarrow> (exn + int) list" where
  "memory_updates lm [] = []"
| "memory_updates lm ((res, v) # xs) =
     (case check_and_update_version lm res v of (x, lm) \<Rightarrow> x # memory_updates lm xs)"

text \<open>
  C19: distributed versions behave like versions in memory. On a server that keeps what is set, starting from versions that
  agree, every sequence of optimistic updates by any number of processes gets, one by one, the answers that a single
  process with versions in memory would give: the same successes and the same conflicts with the same messages. The
  versions must stay below the fourteen digits that Lua prints exactly.
\<close>

theorem distributed_versions_refine:
  assumes "versions_agree sv nm lm r" "server_keeps sv" "numerals_exact nm"
    "\<And>res. get_version lm res + int (length xs) < exact_limit"
  shows "redis_updates sv nm r xs = memory_updates lm xs"
  using assms
proof (induction xs arbitrary: r lm)
  case (Cons x xs)
  obtain res v where x: "x = (res, v)" by (cases x)
  have small: "get_version lm res + 1 < exact_limit" using Cons.prems(4) [of res] by simp
  note step = check_refines [OF Cons.prems(1-3) small, of v]
  have "get_version (snd (check_and_update_version lm res v)) i + int (length xs) < exact_limit" for i
    using Cons.prems(4) [of i] by (auto simp: check_version)
  from Cons.IH [OF step(2) Cons.prems(2,3) this] step(1) show ?case by (simp add: x case_prod_unfold)
qed simp

definition dict_server :: "(string \<Rightarrow> string option) version_server" where
  "dict_server = \<lparr>vs_get = \<lambda>r. r, vs_set = \<lambda>r k v. r(k := Some v)\<rparr>"

definition unary_numerals :: numerals where
  "unary_numerals = \<lparr>nm_tonumber = \<lambda>t. Some (int (length t)), nm_tostring = \<lambda>n. replicate (nat n) (CHR ''1''), nm_int = \<lambda>t. Some (int (length t))\<rparr>"

theorem distributed_versions_refine_witness:
  "redis_updates dict_server unary_numerals Map.empty [(''C1'', 1), (''C1'', 1), (''C2'', 1)] =
     [Inr 2, Inl (version_conflict ''C1'' 1 2), Inr 2]"
proof -
  have "versions_agree dict_server unary_numerals new_lock_mgr Map.empty"
    by (simp add: versions_agree_def dict_server_def get_version_def new_lock_mgr_def dget_default_def)
  moreover have "server_keeps dict_server" "numerals_exact unary_numerals"
    by (simp_all add: server_keeps_def numerals_exact_def dict_server_def unary_numerals_def)
  moreover have "get_version new_lock_mgr res + int (length [(''C1'', 1), (''C1'', 1), (''C2'', 1::int)]) < exact_limit" for res
    by (simp add: get_version_def new_lock_mgr_def dget_default_def exact_limit_def)
  ultimately have "redis_updates dict_server unary_numerals Map.empty [(''C1'', 1), (''C1'', 1), (''C2'', 1)] =
      memory_updates new_lock_mgr [(''C1'', 1), (''C1'', 1), (''C2'', 1)]"
    by (rule distributed_versions_refine)
  moreover have "get_version new_lock_mgr res = 1" for res by (simp add: get_version_def new_lock_mgr_def dget_default_def)
  ultimately show ?thesis by (simp add: case_prod_unfold check_version)
qed

end
