(* ===== verification/Redis_Streams.thy ===== *)
theory Redis_Streams
  imports Outbox
begin

text \<open>
  The Redis Streams event bus of \<^verbatim>\<open>libflow/distributed/event_bus.py\<close>: publishing, subscribing and one round of the
  consumer loop. The stream commands of the client act on the server state \<open>'r\<close> and may raise; the JSON encoding is
  a parameter, \<open>None\<close> where decoding raises. Handlers act on an environment \<open>'s\<close>. The thread that repeats the round
  until it is stopped, and its waiting, are not modelled.
\<close>

record 'r stream_client =
  sc_xadd :: "string \<Rightarrow> string \<Rightarrow> 'r \<Rightarrow> (exn + string) \<times> 'r"
  sc_xgroup_create :: "string \<Rightarrow> string \<Rightarrow> 'r \<Rightarrow> (exn + unit) \<times> 'r"
  sc_xreadgroup :: "string \<Rightarrow> string \<Rightarrow> string list \<Rightarrow> 'r \<Rightarrow> (exn + (string \<times> (string \<times> string option) list) list) \<times> 'r"
  sc_xack :: "string \<Rightarrow> string \<Rightarrow> string \<Rightarrow> 'r \<Rightarrow> (exn + unit) \<times> 'r"

type_synonym 's handler = "payload \<Rightarrow> 's \<Rightarrow> (exn + unit) \<times> 's"

record 's stream_bus =
  sb_stream_prefix :: string
  sb_group_name :: string
  sb_subscribers :: "(string, 's handler list) dict"

definition new_stream_bus :: "'s stream_bus" where
  "new_stream_bus = \<lparr>sb_stream_prefix = ''stream:'', sb_group_name = ''libraflow_workers'', sb_subscribers = []\<rparr>"

definition stream_key :: "'s stream_bus \<Rightarrow> string \<Rightarrow> string" where
  "stream_key bus topic = sb_stream_prefix bus @ topic"

definition stream_publish :: "'r stream_client \<Rightarrow> (payload \<Rightarrow> string) \<Rightarrow> 's stream_bus \<Rightarrow> string \<Rightarrow> payload \<Rightarrow> 'r \<Rightarrow> (exn + string) \<times> 'r" where
  "stream_publish cl dumps bus topic payload = sc_xadd cl (stream_key bus topic) (dumps payload)"

text \<open>An error while the group is created (it may exist) is ignored.\<close>

definition stream_subscribe :: "'r stream_client \<Rightarrow> 's stream_bus \<Rightarrow> string \<Rightarrow> 's handler \<Rightarrow> 'r \<Rightarrow> 's stream_bus \<times> 'r" where
  "stream_subscribe cl bus topic handler r =
     (bus\<lparr>sb_subscribers := dset (sb_subscribers bus) topic (dget_default (sb_subscribers bus) topic [] @ [handler])\<rparr>,
      snd (sc_xgroup_create cl (stream_key bus topic) (sb_group_name bus) r))"

section \<open>The consumer\<close>

text \<open>The call \<open>name.replace(prefix, "", 1)\<close>: the first occurrence of the prefix is dropped.\<close>

fun replace_first :: "string \<Rightarrow> string \<Rightarrow> string" where
  "replace_first p [] = []"
| "replace_first p (c # s) = (if prefix p (c # s) then drop (length p) (c # s) else c # replace_first p s)"

definition run_handlers :: "'s handler list \<Rightarrow> payload \<Rightarrow> 's \<Rightarrow> 's" where
  "run_handlers handlers payload s = fold (\<lambda>h s. snd (h payload s)) handlers s"

definition decode :: "(string \<Rightarrow> payload option) \<Rightarrow> string option \<Rightarrow> exn + payload" where
  "decode loads raw =
     (if truthy raw then (case loads (the raw) of None \<Rightarrow> Inl (ValueError ''JSON'') | Some p \<Rightarrow> Inr p) else Inr [])"

fun consume_messages ::
  "'r stream_client \<Rightarrow> (string \<Rightarrow> payload option) \<Rightarrow> 's stream_bus \<Rightarrow> string \<Rightarrow> (string \<times> string option) list \<Rightarrow> 'r \<times> 's \<Rightarrow>
   (exn + unit) \<times> 'r \<times> 's" where
  "consume_messages cl loads bus s_name [] (r, s) = (Inr (), r, s)"
| "consume_messages cl loads bus s_name ((msg_id, raw) # msgs) (r, s) =
     (case decode loads raw of
        Inl e \<Rightarrow> (Inl e, r, s)
      | Inr payload \<Rightarrow>
          let topic = replace_first (sb_stream_prefix bus) s_name;
              s = run_handlers (dget_default (sb_subscribers bus) topic []) payload s
          in case sc_xack cl s_name (sb_group_name bus) msg_id r of
               (Inl e, r) \<Rightarrow> (Inl e, r, s)
             | (Inr _, r) \<Rightarrow> consume_messages cl loads bus s_name msgs (r, s))"

fun consume_entries ::
  "'r stream_client \<Rightarrow> (string \<Rightarrow> payload option) \<Rightarrow> 's stream_bus \<Rightarrow> (string \<times> (string \<times> string option) list) list \<Rightarrow> 'r \<times> 's \<Rightarrow>
   (exn + unit) \<times> 'r \<times> 's" where
  "consume_entries cl loads bus [] rs = (Inr (), rs)"
| "consume_entries cl loads bus ((s_name, msgs) # entries) rs =
     (case consume_messages cl loads bus s_name msgs rs of
        (Inl e, rs) \<Rightarrow> (Inl e, rs)
      | (Inr _, rs) \<Rightarrow> consume_entries cl loads bus entries rs)"

text \<open>One round: the topics that have subscribers are read, and an error ends the round.\<close>

definition consume_round ::
  "'r stream_client \<Rightarrow> (string \<Rightarrow> payload option) \<Rightarrow> 's stream_bus \<Rightarrow> string \<Rightarrow> 'r \<times> 's \<Rightarrow> (exn + unit) \<times> 'r \<times> 's" where
  "consume_round cl loads bus consumer_name rs =
     (case rs of (r, s) \<Rightarrow>
        if sb_subscribers bus = [] then (Inr (), r, s)
        else case sc_xreadgroup cl (sb_group_name bus) consumer_name (map (stream_key bus) (dkeys (sb_subscribers bus))) r of
               (Inl e, r) \<Rightarrow> (Inl e, r, s)
             | (Inr entries, r) \<Rightarrow> consume_entries cl loads bus entries (r, s))"

section \<open>Delivery\<close>

lemma replace_prefix: "p \<noteq> [] \<Longrightarrow> replace_first p (p @ t) = t"
  by (cases p) simp_all

definition acks :: "'r stream_client \<Rightarrow> bool" where
  "acks cl \<longleftrightarrow> (\<forall>k g i r. \<exists>r'. sc_xack cl k g i r = (Inr (), r'))"

definition deliveries :: "'s stream_bus \<Rightarrow> (string \<Rightarrow> payload option) \<Rightarrow> string \<Rightarrow> (string \<times> string option) list \<Rightarrow> 's \<Rightarrow> 's" where
  "deliveries bus loads topic msgs s =
     fold (\<lambda>m. run_handlers (dget_default (sb_subscribers bus) topic []) (projr (decode loads (snd m)))) msgs s"

definition acked :: "'r stream_client \<Rightarrow> 's stream_bus \<Rightarrow> string \<Rightarrow> (string \<times> string option) list \<Rightarrow> 'r \<Rightarrow> 'r" where
  "acked cl bus s_name msgs r = fold (\<lambda>m r. snd (sc_xack cl s_name (sb_group_name bus) (fst m) r)) msgs r"

lemma consume_good_messages:
  assumes "acks cl" "\<forall>m \<in> set msgs. is_ok (decode loads (snd m))"
  shows "consume_messages cl loads bus s_name (msgs @ rest) (r, s) =
    consume_messages cl loads bus s_name rest
      (acked cl bus s_name msgs r, deliveries bus loads (replace_first (sb_stream_prefix bus) s_name) msgs s)"
  using assms(2)
proof (induction msgs arbitrary: r s)
  case (Cons m msgs)
  obtain i raw where m: "m = (i, raw)" by (cases m)
  obtain p where p: "decode loads raw = Inr p" using Cons.prems m by (auto simp: is_ok_iff)
  obtain r' where r': "sc_xack cl s_name (sb_group_name bus) i r = (Inr (), r')" using assms(1) unfolding acks_def by blast
  show ?case using Cons.IH [of r'] Cons.prems p r' by (simp add: m Let_def acked_def deliveries_def)
qed (simp add: acked_def deliveries_def)

text \<open>
  One message that cannot be decoded stops its stream. Messages before it are handed to every handler of their topic, in
  order, whether or not handlers raise, and acknowledged. The message itself and all messages behind it in the batch
  are neither handled nor acknowledged; as the loop only asks for new messages, they are not read again.
\<close>

theorem poison_message_ends_batch:
  assumes "acks cl" "sb_stream_prefix bus \<noteq> []" "\<forall>m \<in> set good. is_ok (decode loads (snd m))"
    and bad: "decode loads raw = Inl e"
  shows "consume_entries cl loads bus ((stream_key bus topic, good @ (i, raw) # rest) # entries) (r, s) =
    (Inl e, acked cl bus (stream_key bus topic) good r, deliveries bus loads topic good s)"
  using consume_good_messages [OF assms(1,3), of bus "stream_key bus topic" "(i, raw) # rest" r s] bad
  by (simp add: stream_key_def replace_prefix [OF assms(2)])

text \<open>
  Every message of a batch is delivered once and acknowledged. If all messages of a batch can be decoded, each is handed
  once to every handler of its topic, in order, an exception of a handler does not affect the others, and each is acknowledged.
\<close>

theorem batch_delivered_and_acknowledged:
  assumes "acks cl" "sb_stream_prefix bus \<noteq> []" "\<forall>m \<in> set msgs. is_ok (decode loads (snd m))"
  shows "consume_entries cl loads bus [(stream_key bus topic, msgs)] (r, s) =
    (Inr (), acked cl bus (stream_key bus topic) msgs r, deliveries bus loads topic msgs s)"
  using consume_good_messages [OF assms(1,3), of bus "stream_key bus topic" "[]" r s]
  by (simp add: stream_key_def replace_prefix [OF assms(2)])

definition ack_client :: "string list stream_client" where
  "ack_client = \<lparr>sc_xadd = \<lambda>k v r. (Inr k, r), sc_xgroup_create = \<lambda>k g r. (Inr (), r), sc_xreadgroup = \<lambda>g c ks r. (Inr [], r),
     sc_xack = \<lambda>k g i r. (Inr (), r @ [i])\<rparr>"

definition noting_bus :: "payload list stream_bus" where
  "noting_bus = new_stream_bus\<lparr>sb_subscribers := [(''t'', [\<lambda>p s. (Inl (ValueError []), s @ [p]), \<lambda>p s. (Inr (), s @ [p])])]\<rparr>"

definition tag_loads :: "string \<Rightarrow> payload option" where
  "tag_loads t = (if hd t = CHR ''!'' then None else Some [(t, JNull)])"

lemma ack_client_acks: "acks ack_client"
  by (simp add: acks_def ack_client_def)

theorem poison_message_ends_batch_witness:
  "consume_entries ack_client tag_loads noting_bus [(''stream:t'', [(''1'', Some ''a''), (''2'', Some ''!''), (''3'', Some ''b'')])] ([], []) =
     (Inl (ValueError ''JSON''), [''1''], [[(''a'', JNull)], [(''a'', JNull)]])"
  using poison_message_ends_batch [OF ack_client_acks, of noting_bus "[(''1'', Some ''a'')]" tag_loads "Some ''!''" "ValueError ''JSON''"
      "''t''" "''2''" "[(''3'', Some ''b'')]" "[]" "[]" "[]"]
  by (simp add: noting_bus_def new_stream_bus_def stream_key_def decode_def tag_loads_def acked_def ack_client_def deliveries_def
      dget_default_def run_handlers_def)

theorem batch_delivered_and_acknowledged_witness:
  "consume_entries ack_client tag_loads noting_bus [(''stream:t'', [(''1'', Some ''a'')])] ([], []) =
     (Inr (), [''1''], [[(''a'', JNull)], [(''a'', JNull)]])"
  using batch_delivered_and_acknowledged [OF ack_client_acks, of noting_bus "[(''1'', Some ''a'')]" tag_loads "''t''" "[]" "[]"]
  by (simp add: noting_bus_def new_stream_bus_def stream_key_def decode_def tag_loads_def acked_def ack_client_def deliveries_def
      dget_default_def run_handlers_def)

end
