(* ===== verification/Seed.thy ===== *)
theory Seed
  imports Api_Routes
begin

text \<open>
  Seeding a library: \<^verbatim>\<open>libflow/seed.py\<close>, on the in-memory library. The tables of the module are constants; the
  examination dates are relative to the day the module is loaded. Every service call reads the clock and fresh
  identifiers; \<open>envs\<close> gives that environment for the call about a given object. The first call that raises ends the
  seeding with its exception.
\<close>

section \<open>The tables\<close>

definition BRANCHES :: "library_branch list" where
  "BRANCHES =
     (let branch = (\<lambda>i n c a. \<lparr>br_branch_id = i, br_name = n, br_city = c, br_address = a, br_phone = [], br_latitude = 0, br_longitude = 0\<rparr>)
      in [branch ''BRANCH-DELHI'' ''Delhi Main Campus Library'' ''Delhi'' ''Connaught Place, New Delhi'',
          branch ''BRANCH-MUMBAI'' ''Mumbai Tech & Engineering Wing'' ''Mumbai'' ''Powai, Mumbai'',
          branch ''BRANCH-PUNE'' ''Pune Research Library'' ''Pune'' ''Shivaji Nagar, Pune''])"

definition person :: "string \<Rightarrow> string \<Rightarrow> string \<Rightarrow> user_kwargs" where
  "person user_id name email = no_user_kwargs\<lparr>uk_user_id := Some user_id, uk_name := Some name, uk_email := Some email\<rparr>"

definition student_row :: "string \<Rightarrow> string \<Rightarrow> string \<Rightarrow> int \<Rightarrow> string \<Rightarrow> date \<Rightarrow> user_role \<times> user_kwargs" where
  "student_row user_id name email year maj exam =
     (STUDENT, (person user_id name email)\<lparr>uk_academic_year := Some year, uk_major := Some maj, uk_exam_date := Some (ExamDate exam)\<rparr>)"

definition USERS :: "date \<Rightarrow> (user_role \<times> user_kwargs) list" where
  "USERS today =
     [student_row ''STU-ISHAAN'' ''Ishaan'' ''ishaan@example.com'' 3 ''Computer Science'' (today + 1),
      student_row ''STU-ALICE'' ''Alice'' ''alice@example.com'' 1 ''Electrical Engineering'' (today + 25),
      student_row ''STU-BOB'' ''Bob'' ''bob@example.com'' 4 ''Computer Science'' (today + 3),
      student_row ''STU-RAHUL'' ''Rahul (Risky)'' ''rahul@example.com'' 2 ''Mechanical'' (today + 15),
      (FACULTY, (person ''FAC-DR-SHARMA'' ''Dr. Sharma'' ''sharma@univ.edu'')\<lparr>uk_department := Some (Some ''Computer Science & Engineering'')\<rparr>),
      (LIBRARIAN, (person ''LIB-SARAH'' ''Sarah Jenkins'' ''sarah@library.org'')\<lparr>uk_staff_code := Some (Some ''LIB-001'')\<rparr>),
      (ADMIN, person ''ADMIN-01'' ''Root Admin'' ''admin@libraflow.org'')]"

record seed_book =
  sb_format :: string
  sb_isbn :: string
  sb_title :: string
  sb_authors :: "string list"
  sb_category :: string
  sb_year :: int
  sb_rating :: py_float
  sb_difficulty :: string
  sb_keywords :: "string list"
  sb_description :: string
  sb_download_url :: "string option"
  sb_file_size_mb :: "py_float option"
  sb_copies :: "(string \<times> string \<times> string) list"

definition BOOKS :: "seed_book list" where
  "BOOKS =
     [\<lparr>sb_format = ''PHYSICAL'', sb_isbn = ''978-0132350884'',
       sb_title = ''Clean Code: A Handbook of Agile Software Craftsmanship'',
       sb_authors = [''Robert C. Martin''], sb_category = ''Software Engineering'', sb_year = 2008,
       sb_rating = (49/10), sb_difficulty = ''Intermediate'',
       sb_keywords = [''Refactoring'', ''Clean Architecture'', ''OOP'', ''Design Patterns''],
       sb_description = ''Even bad code can function. But if code isn't clean, it can bring a development organization to its knees.'',
       sb_download_url = None, sb_file_size_mb = None,
       sb_copies = [(''CC-DEL-01'', ''BRANCH-DELHI'', ''A1-01''), (''CC-DEL-02'', ''BRANCH-DELHI'', ''A1-02''), (''CC-MUM-01'', ''BRANCH-MUMBAI'', ''B2-05'')]\<rparr>,
      \<lparr>sb_format = ''PHYSICAL'', sb_isbn = ''978-0262033848'',
       sb_title = ''Introduction to Algorithms (CLRS 3rd Edition)'',
       sb_authors = [''Thomas H. Cormen'', ''Charles E. Leiserson'', ''Ronald L. Rivest'', ''Clifford Stein''], sb_category = ''Data Structures & Algorithms'', sb_year = 2009,
       sb_rating = 5, sb_difficulty = ''Advanced'',
       sb_keywords = [''DSA'', ''Dynamic Programming'', ''Graph Theory'', ''Greedy'', ''Heaps''],
       sb_description = ''Comprehensive textbook covering modern algorithms, rigorous proofs, and asymptotic complexities.'',
       sb_download_url = None, sb_file_size_mb = None,
       sb_copies = [(''CLRS-DEL-01'', ''BRANCH-DELHI'', ''A2-10''), (''CLRS-MUM-01'', ''BRANCH-MUMBAI'', ''C1-02'')]\<rparr>,
      \<lparr>sb_format = ''PHYSICAL'', sb_isbn = ''978-1491950357'',
       sb_title = ''Designing Data-Intensive Applications'',
       sb_authors = [''Martin Kleppmann''], sb_category = ''Distributed Systems'', sb_year = 2017,
       sb_rating = 5, sb_difficulty = ''Advanced'',
       sb_keywords = [''Databases'', ''Distributed Consensus'', ''Replication'', ''Partitioning'', ''Transactions''],
       sb_description = ''The definitive guide to the architecture, internals, and tradeoffs of modern distributed data systems.'',
       sb_download_url = None, sb_file_size_mb = None,
       sb_copies = [(''DDIA-DEL-01'', ''BRANCH-DELHI'', ''B1-04''), (''DDIA-PUN-01'', ''BRANCH-PUNE'', ''A3-01'')]\<rparr>,
      \<lparr>sb_format = ''PHYSICAL'', sb_isbn = ''978-1492040347'',
       sb_title = ''Database Internals: A Deep Dive into Storage Engines'',
       sb_authors = [''Alex Petrov''], sb_category = ''Distributed Systems'', sb_year = 2019,
       sb_rating = (24/5), sb_difficulty = ''Advanced'',
       sb_keywords = [''B-Trees'', ''LSM-Trees'', ''Storage Engines'', ''Transactions'', ''WAL''],
       sb_description = ''Examines storage engines, distributed consensus protocols, and consensus algorithms like Paxos and Raft.'',
       sb_download_url = None, sb_file_size_mb = None,
       sb_copies = [(''DBI-DEL-01'', ''BRANCH-DELHI'', ''B1-05'')]\<rparr>,
      \<lparr>sb_format = ''PHYSICAL'', sb_isbn = ''978-1118063330'',
       sb_title = ''Operating System Concepts (10th Edition)'',
       sb_authors = [''Abraham Silberschatz'', ''Peter B. Galvin'', ''Greg Gagne''], sb_category = ''Computer Systems'', sb_year = 2018,
       sb_rating = (47/10), sb_difficulty = ''Intermediate'',
       sb_keywords = [''Kernel'', ''Virtual Memory'', ''Deadlocks'', ''Processes'', ''Concurrency''],
       sb_description = ''Fundamental textbook covering OS architecture, CPU scheduling, memory management, and file systems.'',
       sb_download_url = None, sb_file_size_mb = None,
       sb_copies = [(''OSC-DEL-01'', ''BRANCH-DELHI'', ''A3-01'')]\<rparr>,
      \<lparr>sb_format = ''PHYSICAL'', sb_isbn = ''978-0134494166'',
       sb_title = ''Clean Architecture: A Craftsman's Guide to Software Structure'',
       sb_authors = [''Robert C. Martin''], sb_category = ''Software Engineering'', sb_year = 2017,
       sb_rating = (24/5), sb_difficulty = ''Intermediate'',
       sb_keywords = [''Architecture'', ''SOLID'', ''Microservices'', ''Design Patterns''],
       sb_description = ''Universal rules of software architecture, dependency inversion, component principles, and boundary decoupling.'',
       sb_download_url = None, sb_file_size_mb = None,
       sb_copies = [(''CA-DEL-01'', ''BRANCH-DELHI'', ''A1-03'')]\<rparr>,
      \<lparr>sb_format = ''EBOOK'', sb_isbn = ''978-0134685991'',
       sb_title = ''Effective Java (3rd Edition) Digital Edition'',
       sb_authors = [''Joshua Bloch''], sb_category = ''Programming Languages'', sb_year = 2018,
       sb_rating = (49/10), sb_difficulty = ''Advanced'',
       sb_keywords = [''Java'', ''OOP'', ''Generics'', ''Concurrency'', ''Design Patterns''],
       sb_description = ''Best practices for the Java platform covering lambdas, streams, generics, and concurrent programming.'',
       sb_download_url = Some ''https://cdn.libraflow.org/ebooks/effective_java_3e.pdf'', sb_file_size_mb = Some (46/5),
       sb_copies = []\<rparr>,
      \<lparr>sb_format = ''EBOOK'', sb_isbn = ''978-1492051725'',
       sb_title = ''Fluent Python: Clear, Concise, and Effective Programming'',
       sb_authors = [''Luciano Ramalho''], sb_category = ''Programming Languages'', sb_year = 2022,
       sb_rating = (49/10), sb_difficulty = ''Intermediate'',
       sb_keywords = [''Python'', ''AsyncIO'', ''Metaprogramming'', ''Data Structures''],
       sb_description = ''Deep dive into Python language features, generators, coroutines, and type annotations.'',
       sb_download_url = Some ''https://cdn.libraflow.org/ebooks/fluent_python_2e.pdf'', sb_file_size_mb = Some (74/5),
       sb_copies = []\<rparr>]"

definition GRAPH_RELATIONS :: "(string \<times> string \<times> py_float \<times> string) list" where
  "GRAPH_RELATIONS =
     [(''978-0262033848'', ''978-1491950357'', (17/20), ''PREREQUISITE_FOR''),
      (''978-1118063330'', ''978-1491950357'', (9/10), ''PREREQUISITE_FOR''),
      (''978-1491950357'', ''978-1492040347'', (19/20), ''SIMILAR_TO''),
      (''978-0132350884'', ''978-0134494166'', (19/20), ''PREREQUISITE_FOR''),
      (''978-0134685991'', ''978-0132350884'', (4/5), ''SIMILAR_TO'')]"

definition interactions :: "(string \<times> string \<times> py_float) list" where
  "interactions =
     [(''STU-ISHAAN'', ''978-0132350884'', 9/2), (''STU-ISHAAN'', ''978-0262033848'', 5),
      (''STU-BOB'', ''978-0132350884'', 5), (''STU-BOB'', ''978-0134494166'', 4),
      (''FAC-DR-SHARMA'', ''978-1491950357'', 5), (''FAC-DR-SHARMA'', ''978-1492040347'', 9/2)]"

section \<open>Seeding\<close>

type_synonym seed_action = "library \<Rightarrow> (exn + unit) \<times> library"

fun for_each :: "('a \<Rightarrow> seed_action) \<Rightarrow> 'a list \<Rightarrow> seed_action" where
  "for_each act [] s = (Inr (), s)"
| "for_each act (x # xs) s = (case act x s of (Inl e, s) \<Rightarrow> (Inl e, s) | (Inr _, s) \<Rightarrow> for_each act xs s)"

definition and_then :: "seed_action \<Rightarrow> seed_action \<Rightarrow> seed_action" where
  "and_then f g s = (case f s of (Inl e, s) \<Rightarrow> (Inl e, s) | (Inr _, s) \<Rightarrow> g s)"

definition seed_branch :: "library_branch \<Rightarrow> seed_action" where
  "seed_branch b s =
     (let s = save_branch s b in (Inr (), s\<lparr>lb_branch_mgr := register_branch (lb_branch_mgr s) b\<rparr>))"

definition seed_kwargs :: "user_role \<times> user_kwargs \<Rightarrow> user_kwargs" where
  "seed_kwargs row =
     (case row of (role, kw) \<Rightarrow>
        kw\<lparr>uk_password := Some (if role = ADMIN \<and> uk_user_id kw = Some ''ADMIN-01'' then ''admin123'' else ''passw0rd''),
           uk_branch_id := Some (if role \<noteq> LIBRARIAN then ''BRANCH-DELHI'' else ''BRANCH-MUMBAI'')\<rparr>)"

definition seed_user :: "user_env \<Rightarrow> user_role \<times> user_kwargs \<Rightarrow> seed_action" where
  "seed_user ue row s =
     (case create_user ue (role_value (fst row)) (seed_kwargs row) of
        Inl e \<Rightarrow> (Inl e, s)
      | Inr u \<Rightarrow> (Inr (), save_user s u))"

definition poor_record :: "call_env \<Rightarrow> user \<Rightarrow> user" where
  "poor_record env u =
     add_fine (foldl (\<lambda>u i.
        record_return (ev_now env) (add_borrow (ev_now env) u (''OLD-COPY-'' @ show_nat i) (''OLD-ISBN-'' @ show_nat i))
          (''OLD-COPY-'' @ show_nat i) True (i = 0)) u [0..<5]) 120"

definition seed_rahul :: "call_env \<Rightarrow> seed_action" where
  "seed_rahul env s =
     (case get_user s ''STU-RAHUL'' of None \<Rightarrow> (Inr (), s) | Some u \<Rightarrow> (Inr (), save_user s (poor_record env u)))"

definition seed_book_kwargs :: "seed_book \<Rightarrow> book_kwargs" where
  "seed_book_kwargs b = no_book_kwargs\<lparr>kw_isbn := Some (sb_isbn b), kw_title := Some (sb_title b), kw_authors := Some (sb_authors b),
     kw_category := Some (sb_category b), kw_publication_year := Some (sb_year b), kw_rating := Some (sb_rating b),
     kw_difficulty_level := Some (sb_difficulty b), kw_keywords := Some (sb_keywords b), kw_description := Some (sb_description b),
     kw_download_url := sb_download_url b, kw_file_size_mb := sb_file_size_mb b\<rparr>"

definition seed_copy :: "(string \<Rightarrow> call_env) \<Rightarrow> string \<Rightarrow> string \<times> string \<times> string \<Rightarrow> seed_action" where
  "seed_copy envs isbn row s =
     (case row of (cid, branch, shelf) \<Rightarrow>
        case add_physical_copy (envs cid) s isbn cid branch shelf 500 ''ADMIN-01'' of
          (Inl e, s) \<Rightarrow> (Inl e, s) | (Inr _, s) \<Rightarrow> (Inr (), s))"

definition seed_title :: "(string \<Rightarrow> call_env) \<Rightarrow> seed_book \<Rightarrow> seed_action" where
  "seed_title envs b s =
     (case register_book (envs (sb_isbn b)) s (sb_format b) ''ADMIN-01'' (seed_book_kwargs b) of
        (Inl e, s) \<Rightarrow> (Inl e, s)
      | (Inr book, s) \<Rightarrow>
          (case rec_register_book (lb_recommender s, lb_graph s) book of
             (rc, g) \<Rightarrow> for_each (seed_copy envs (sb_isbn b)) (sb_copies b) (s\<lparr>lb_recommender := rc, lb_graph := g\<rparr>)))"

definition seed_relation :: "string \<times> string \<times> py_float \<times> string \<Rightarrow> seed_action" where
  "seed_relation row s =
     (case row of (src, dst, weight, rel_type) \<Rightarrow> (Inr (), s\<lparr>lb_graph := add_relation (lb_graph s) src dst weight rel_type True\<rparr>))"

definition seed_interaction :: "string \<times> string \<times> py_float \<Rightarrow> seed_action" where
  "seed_interaction row s =
     (case row of (uid, isbn, rating) \<Rightarrow>
        (Inr (), s\<lparr>lb_recommender := record_user_interaction (get_book s) (lb_recommender s) uid isbn (Some rating)\<rparr>))"

definition seed_loan :: "(string \<Rightarrow> call_env) \<Rightarrow> user option \<Rightarrow> string \<Rightarrow> seed_action" where
  "seed_loan envs clean_user cid s =
     (case issue_physical_book (envs cid) s cid (case clean_user of Some u \<Rightarrow> us_user_id u | None \<Rightarrow> ''STU-BOB'') ''LIB-SARAH'' 14 of
        (Inl e, s) \<Rightarrow> (Inl e, s)
      | (Inr _, s) \<Rightarrow>
          if clean_user = None then (Inr (), s)
          else (case return_physical_book (envs (''return:'' @ cid)) s cid ''LIB-SARAH'' False False of
                  (Inl e, s) \<Rightarrow> (Inl e, s) | (Inr _, s) \<Rightarrow> (Inr (), s)))"

definition seed_loans :: "(string \<Rightarrow> call_env) \<Rightarrow> seed_action" where
  "seed_loans envs s = for_each (seed_loan envs (get_user s ''STU-ALICE'')) [''CC-DEL-01'', ''OSC-DEL-01''] s"

definition seed_library :: "user_env \<Rightarrow> (string \<Rightarrow> call_env) \<Rightarrow> date \<Rightarrow> seed_action" where
  "seed_library ue envs today =
     and_then (for_each seed_branch BRANCHES)
     (and_then (for_each (seed_user ue) (USERS today))
     (and_then (seed_rahul (envs ''STU-RAHUL''))
     (and_then (for_each (seed_title envs) BOOKS)
     (and_then (for_each seed_relation GRAPH_RELATIONS)
     (and_then (for_each seed_interaction interactions) (seed_loans envs))))))"

section \<open>What holds during seeding\<close>

text \<open>
  Nobody waits and nobody has a loan, the given users are registered, all but the one with the poor record may borrow, and
  the given copies are on the shelf.
\<close>

definition stock :: "library \<Rightarrow> string \<Rightarrow> (string \<times> book_status) option" where
  "stock s cid = map_option (\<lambda>(r, c). (cp_book_isbn c, copy_status c)) (get_copy s cid)"

definition seeded :: "string set \<Rightarrow> (string \<rightharpoonup> string) \<Rightarrow> library \<Rightarrow> bool" where
  "seeded ids shelf s \<longleftrightarrow> lib_inv s \<and> (\<forall>isbn. wait_list (lb_reservations s) isbn = []) \<and>
     (\<forall>i. get_user s i \<noteq> None \<longleftrightarrow> i \<in> ids) \<and>
     (\<forall>i u. get_user s i = Some u \<longrightarrow> us_active u = {} \<and> (i \<noteq> ''STU-RAHUL'' \<longrightarrow> can_borrow u)) \<and>
     (\<forall>cid. stock s cid = map_option (\<lambda>isbn. (isbn, AVAILABLE)) (shelf cid))"

lemma stock_cong: "rp_copies s' = rp_copies s \<Longrightarrow> rp_heap s' = rp_heap s \<Longrightarrow> stock s' = stock s"
  using get_copy_cong [of s' s] by (simp add: stock_def fun_eq_iff)

lemma seeded_cong:
  assumes "seeded ids shelf s" "lib_inv s'" "rp_users s' = rp_users s" "rp_heap s' = rp_heap s" "rp_copies s' = rp_copies s"
    "lb_reservations s' = lb_reservations s"
  shows "seeded ids shelf s'"
proof -
  have "get_user s' = get_user s" using assms(3) by (simp add: get_user_def fun_eq_iff)
  moreover have "stock s' = stock s" by (rule stock_cong [OF assms(5,4)])
  ultimately show ?thesis using assms(1,2,6) by (simp add: seeded_def)
qed

lemma stock_None: "stock s cid = None \<longleftrightarrow> get_copy s cid = None"
  by (simp add: stock_def)

lemma seeded_fresh: "seeded ids shelf s \<Longrightarrow> shelf cid = None \<Longrightarrow> get_copy s cid = None"
  by (simp add: seeded_def flip: stock_None)

lemma for_each_ok:
  assumes step: "\<And>x before rest s. xs = before @ x # rest \<Longrightarrow> I before s \<Longrightarrow> \<exists>s'. act x s = (Inr (), s') \<and> I (before @ [x]) s'"
    and init: "I [] s"
  shows "\<exists>s'. for_each act xs s = (Inr (), s') \<and> I xs s'"
proof -
  have "xs = before @ rest \<Longrightarrow> I before s \<Longrightarrow> \<exists>s'. for_each act rest s = (Inr (), s') \<and> I xs s'" for before rest s
  proof (induction rest arbitrary: before s)
    case (Cons x rest)
    then obtain s1 where s1: "act x s = (Inr (), s1)" "I (before @ [x]) s1" using step by blast
    then show ?case using Cons.IH [of "before @ [x]" s1] Cons.prems(1) by simp
  qed simp
  from this [of "[]" xs s] init show ?thesis by simp
qed

text \<open>An action that succeeds from every state with one property and ends in a state with another.\<close>

definition runs :: "(library \<Rightarrow> bool) \<Rightarrow> seed_action \<Rightarrow> (library \<Rightarrow> bool) \<Rightarrow> bool" where
  "runs P f Q \<longleftrightarrow> (\<forall>s. P s \<longrightarrow> (\<exists>t. f s = (Inr (), t) \<and> Q t))"

lemma runs_then: "runs P f Q \<Longrightarrow> runs Q g R \<Longrightarrow> runs P (and_then f g) R"
  by (fastforce simp: runs_def and_then_def)

section \<open>The stages\<close>

lemma seed_branch_ok:
  assumes "seeded ids shelf s" "br_branch_id b \<noteq> []"
  shows "\<exists>s'. seed_branch b s = (Inr (), s') \<and> seeded ids shelf s'"
proof -
  let ?s = "snd (seed_branch b s)"
  have "lib_inv s" using assms(1) by (simp add: seeded_def)
  then have "lib_inv ?s"
    using assms(2) same_repo_ledger [of s ?s]
    by (auto simp: seed_branch_def Let_def lib_inv_def no_locks_def named_branches_def save_branch_def same_repo_def register_branch_def
        simp del: set_map)
  then have "seeded ids shelf ?s"
    by (rule seeded_cong [OF assms(1)]) (simp_all add: seed_branch_def Let_def save_branch_def)
  then show ?thesis by (simp add: seed_branch_def Let_def)
qed

lemma seed_user_ok:
  assumes s: "seeded ids shelf s" and kw: "uk_user_id (snd row) = Some i" "uk_name (snd row) \<noteq> None" "uk_email (snd row) \<noteq> None"
    and exam: "\<forall>t. uk_exam_date (snd row) \<noteq> Some (ExamText t)" and new: "i \<notin> ids"
  shows "\<exists>s'. seed_user ue row s = (Inr (), s') \<and> seeded (insert i ids) shelf s'"
proof -
  have "is_ok (create_user ue (role_value (fst row)) (seed_kwargs row))"
    using kw exam by (cases "fst row"; cases "uk_exam_date (snd row)")
      (auto simp: create_user_def seed_kwargs_def Let_def exam_of_arg_def split: prod.splits exam_arg.splits simp del: role_value.simps)
  then obtain u where u: "create_user ue (role_value (fst row)) (seed_kwargs row) = Inr u" by (auto simp: is_ok_iff)
  have id: "us_user_id u = i" "us_active u = {}" "can_borrow u"
    by (rule create_user_ok [OF u], use kw in \<open>simp add: seed_kwargs_def split: prod.splits\<close>)+
  have "get_user s i = None" using s new by (auto simp: seeded_def)
  then have inv: "lib_inv (save_user s u)" using s id new_user_lib_inv [of s u] by (simp add: seeded_def)
  have gu: "get_user (save_user s u) j = (if j = i then Some u else get_user s j)" for j using id by (simp add: get_user_save_user)
  have st: "stock (save_user s u) = stock s" by (rule stock_cong) simp_all
  have "lb_reservations (save_user s u) = lb_reservations s" by (simp add: save_user_def)
  then have "seeded (insert i ids) shelf (save_user s u)"
    using s inv id unfolding seeded_def gu st by (auto split: if_splits)
  then show ?thesis using u by (simp add: seed_user_def)
qed

lemma poor_record_frame:
  "us_user_id (poor_record env u) = us_user_id u" "us_max_borrow_limit (poor_record env u) = us_max_borrow_limit u"
  "us_active u = {} \<Longrightarrow> us_active (poor_record env u) = {}"
  by (simp_all add: poor_record_def upt_rec)

lemma seed_rahul_ok:
  assumes s: "seeded ids shelf s"
  shows "\<exists>s'. seed_rahul env s = (Inr (), s') \<and> seeded ids shelf s'"
proof (cases "get_user s ''STU-RAHUL''")
  case None
  then show ?thesis using s by (simp add: seed_rahul_def)
next
  case (Some u)
  have inv: "lib_inv s" "repo_inv s" using s by (auto simp: seeded_def lib_inv_def dest: ledger_repo)
  have u: "us_user_id u = ''STU-RAHUL''" "us_active u = {}" using get_user_id [OF inv(2) Some] s Some by (auto simp: seeded_def)
  let ?u = "poor_record env u" and ?s = "save_user s (poor_record env u)"
  have led: "ledger_inv ?s"
    by (rule save_user_ledger [OF _ Some]) (use inv(1) u in \<open>simp_all add: lib_inv_def poor_record_frame\<close>)
  have "lib_inv ?s" using inv(1) led by (simp add: lib_inv_def no_locks_def named_branches_def save_user_def)
  moreover have gu: "get_user ?s j = (if j = ''STU-RAHUL'' then Some ?u else get_user s j)" for j
    using u by (simp add: get_user_save_user poor_record_frame)
  moreover have st: "stock ?s = stock s" by (rule stock_cong) simp_all
  moreover have "lb_reservations ?s = lb_reservations s" by (simp add: save_user_def)
  ultimately have "seeded ids shelf ?s"
    using s Some u poor_record_frame(3) [OF u(2), of env] unfolding seeded_def gu st by (auto split: if_splits)
  then show ?thesis using Some by (simp add: seed_rahul_def)
qed

definition on_shelf :: "string \<Rightarrow> (string \<rightharpoonup> string) \<Rightarrow> (string \<times> string \<times> string) list \<Rightarrow> (string \<rightharpoonup> string)" where
  "on_shelf isbn shelf rows = foldl (\<lambda>m row. m(fst row \<mapsto> isbn)) shelf rows"

lemma on_shelf_simps [simp]: "on_shelf isbn shelf [] = shelf" "on_shelf isbn shelf (rows @ [row]) = (on_shelf isbn shelf rows)(fst row \<mapsto> isbn)"
  by (simp_all add: on_shelf_def)

lemma on_shelf_None: "on_shelf isbn shelf rows x = None \<longleftrightarrow> shelf x = None \<and> x \<notin> fst ` set rows"
  by (induction rows rule: rev_induct) auto

lemma ran_on_shelf: "ran (on_shelf isbn shelf rows) \<subseteq> insert isbn (ran shelf)"
  by (induction rows rule: rev_induct) (auto simp: ran_def split: if_splits)

lemma seed_copy_ok:
  assumes s: "seeded ids shelf s" and b: "get_book s isbn = Some b" "is_physical b" and new: "shelf (fst row) = None"
  shows "\<exists>s'. seed_copy envs isbn row s = (Inr (), s') \<and> seeded ids (shelf(fst row \<mapsto> isbn)) s' \<and> (\<exists>b'. get_book s' isbn = Some b' \<and> is_physical b')"
proof -
  obtain cid br sh where row: "row = (cid, br, sh)" by (cases row)
  have fresh: "get_copy s cid = None" using seeded_fresh [OF s] new row by simp
  have inv: "lib_inv s" "ledger_inv s" "repo_inv s" using s by (auto simp: seeded_def lib_inv_def dest: ledger_repo)
  obtain c s' where run: "add_physical_copy (envs cid) s isbn cid br sh 500 ''ADMIN-01'' = (Inr c, s')"
    using b by (simp add: add_physical_copy_def Let_def)
  have i': "lib_inv s'" using add_copy_lib_inv [OF inv(1) fresh, of "envs cid" isbn br sh 500 "''ADMIN-01''"] run by simp
  note led = add_copy_ledger [OF inv(2) run fresh]
  show ?thesis
  proof (rule add_copy_ok [OF inv(3) run], goal_cases)
    case (1 b0)
    have gu: "get_user s' = get_user s" using 1(8) by (simp add: get_user_def fun_eq_iff)
    have "stock s' x = (if x = cid then Some (isbn, AVAILABLE) else stock s x)" for x
      using led(2) led(3) [of x] 1(3) by (simp add: stock_def new_copy_def copy_status_def)
    then have "seeded ids (shelf(fst row \<mapsto> isbn)) s'" using s i' gu 1(10) row by (simp add: seeded_def)
    moreover have "get_book s' isbn = Some (add_copy b0 cid (rp_next s))" using 1(6) by (simp add: get_book_def)
    moreover have "is_physical (add_copy b0 cid (rp_next s))" using 1(2) by (simp add: add_copy_def)
    ultimately show ?case using run row by (simp add: seed_copy_def)
  qed
qed

lemma seed_title_ok:
  assumes s: "seeded ids shelf s" and fmt: "book_format_of (py_upper (sb_format b)) = Some fmt"
    and phys: "sb_copies b \<noteq> [] \<Longrightarrow> fmt = PHYSICAL" and isbn: "sb_isbn b \<notin> ran shelf"
    and ids: "distinct (map fst (sb_copies b))" "\<And>row. row \<in> set (sb_copies b) \<Longrightarrow> shelf (fst row) = None"
  shows "\<exists>s'. seed_title envs b s = (Inr (), s') \<and> seeded ids (on_shelf (sb_isbn b) shelf (sb_copies b)) s'"
proof -
  have kw: "kw_isbn (seed_book_kwargs b) = Some (sb_isbn b)" "kw_title (seed_book_kwargs b) \<noteq> None"
    by (simp_all add: seed_book_kwargs_def)
  obtain bk s1 where run: "register_book (envs (sb_isbn b)) s (sb_format b) ''ADMIN-01'' (seed_book_kwargs b) = (Inr bk, s1)"
    using kw fmt by (auto simp: register_book_def create_book_def Let_def)
  note st = register_ok [OF run]
  have bk: "bk_isbn bk = sb_isbn b" "get_format bk = fmt" using st(1) kw(1) fmt by (auto elim: create_book_ok)
  have "Some (cp_book_isbn c) \<noteq> kw_isbn (seed_book_kwargs b)" if "get_copy s cid = Some (r, c)" for cid r c
  proof -
    have "shelf cid = Some (cp_book_isbn c)"
      using s that unfolding seeded_def stock_def by (cases "shelf cid") (auto dest: spec [of _ cid])
    then show ?thesis using isbn kw(1) by (auto simp: ran_def)
  qed
  then have "lib_inv s1"
    using register_service_lib_inv [of s "seed_book_kwargs b" "envs (sb_isbn b)" "sb_format b" "''ADMIN-01''"] s run by (auto simp: seeded_def)
  obtain rc g where rg: "rec_register_book (lb_recommender s1, lb_graph s1) bk = (rc, g)" by fastforce
  let ?s = "s1\<lparr>lb_recommender := rc, lb_graph := g\<rparr>"
  have s2: "seeded ids shelf ?s"
    by (rule seeded_cong [OF s lib_inv_graph [OF \<open>lib_inv s1\<close>]]) (simp_all add: st)
  have gb: "get_book ?s (sb_isbn b) = Some bk" using st(2) bk(1) by (simp add: get_book_def)
  define I where "I = (\<lambda>rows t. seeded ids (on_shelf (sb_isbn b) shelf rows) t \<and>
      (sb_copies b \<noteq> [] \<longrightarrow> (\<exists>b'. get_book t (sb_isbn b) = Some b' \<and> is_physical b')))"
  have "\<exists>s'. for_each (seed_copy envs (sb_isbn b)) (sb_copies b) ?s = (Inr (), s') \<and> I (sb_copies b) s'"
  proof (rule for_each_ok)
    fix x before rest t
    assume split: "sb_copies b = before @ x # rest" and i: "I before t"
    have "on_shelf (sb_isbn b) shelf before (fst x) = None" using ids split by (auto simp: on_shelf_None)
    then show "\<exists>s'. seed_copy envs (sb_isbn b) x t = (Inr (), s') \<and> I (before @ [x]) s'"
      using seed_copy_ok [of ids "on_shelf (sb_isbn b) shelf before" t "sb_isbn b" _ x envs] i split unfolding I_def by auto
  next
    have "is_physical bk" if "sb_copies b \<noteq> []"
      using phys [OF that] bk(2) by (cases "bk_details bk") (simp_all add: get_format_def)
    then show "I [] ?s" using s2 gb by (simp add: I_def)
  qed
  then show ?thesis using run rg by (auto simp: seed_title_def I_def)
qed

lemma seed_issue:
  assumes inv: "lib_inv s" and v: "get_user s a = Some v" "can_borrow v"
    and cp: "get_copy s cid = Some (r, cp)" "copy_status cp = AVAILABLE"
  obtains tx s1 where "issue_physical_book env s cid a actor days = (Inr tx, s1)" "lib_inv s1"
    "\<And>i. get_copy s1 i = (if i = cid then Some (r, issued_copy cp a) else get_copy s i)"
    "rp_users s1 = dset (rp_users s) a (add_borrow (ev_now env) v cid (cp_book_isbn cp))" "lb_reservations s1 = lb_reservations s"
proof -
  have inv': "no_locks s" "repo_inv s" using inv by (auto simp: lib_inv_def dest: ledger_repo)
  obtain x s1 where run: "issue_physical_book env s cid a actor days = (x, s1)" by fastforce
  have "issue_guard s cid a r cp v" using v cp by (simp add: issue_guard_def)
  then obtain tx where x: "x = Inr tx" using issue_refused [OF inv'(1)] run by (cases x) blast+
  have i1: "lib_inv s1" using issue_lib_inv [OF inv, of env cid a actor days] run by simp
  show thesis
  proof (rule issue_ok [OF inv' run [unfolded x]], goal_cases)
    case (1 r1 c1 u1)
    have eq: "r1 = r" "c1 = cp" "u1 = v" using 1(1) cp v by (simp_all add: issue_guard_def)
    have "get_copy s1 i = (if i = cid then Some (r, issued_copy cp a) else get_copy s i)" for i
      using get_copy_heap_put [OF inv'(2) cp(1), of "issued_copy cp a" i]
        get_copy_cong [of s1 "heap_put r (issued_copy cp a) s" i] 1(3,5) eq by simp
    then show ?case using that run x i1 1 eq by blast
  qed
qed

lemma seed_loan_ok:
  assumes s: "seeded ids shelf s" and u: "us_user_id u = ''STU-ALICE''" "''STU-ALICE'' \<in> ids" and c: "shelf cid = Some isbn"
  shows "\<exists>s'. seed_loan envs (Some u) cid s = (Inr (), s') \<and> seeded ids shelf s'"
proof -
  let ?a = "''STU-ALICE''" and ?e = "envs cid" and ?e' = "envs (''return:'' @ cid)"
  have inv: "lib_inv s" using s by (simp add: seeded_def)
  have "get_user s ?a \<noteq> None" using s u(2) unfolding seeded_def by blast
  then obtain v where v: "get_user s ?a = Some v" by blast
  then have v': "us_active v = {}" "can_borrow v" using s unfolding seeded_def by blast+
  have stk: "stock s cid = Some (isbn, AVAILABLE)" using s c by (simp add: seeded_def)
  then obtain r cp where cp: "get_copy s cid = Some (r, cp)" "cp_book_isbn cp = isbn" "copy_status cp = AVAILABLE" by (auto simp: stock_def)
  obtain tx s1 where run: "issue_physical_book ?e s cid ?a ''LIB-SARAH'' 14 = (Inr tx, s1)" and i1: "lib_inv s1"
    and g1: "\<And>i. get_copy s1 i = (if i = cid then Some (r, issued_copy cp ?a) else get_copy s i)"
    and u1: "rp_users s1 = dset (rp_users s) ?a (add_borrow (ev_now ?e) v cid isbn)" and wl: "lb_reservations s1 = lb_reservations s"
    by (rule seed_issue [OF inv v v'(2) cp(1,3)]) (use cp(2) in blast)
  have n1: "no_locks s1" "ledger_inv s1" "res_inv (lb_reservations s1)" using i1 by (simp_all add: lib_inv_def)
  have h1: "truthy (holder s1 cid)" by (simp add: holder_def g1 issued_copy_def copy_status_def)
  obtain y s2 where run2: "return_physical_book ?e' s1 cid ''LIB-SARAH'' False False = (y, s2)" by fastforce
  obtain out where y: "y = Inr out" using return_raise [OF n1(1,2)] run2 h1 by (cases y) blast+
  have i2: "lib_inv s2" using return_lib_inv [OF i1, of ?e' cid "''LIB-SARAH''" False False] run2 by simp
  show ?thesis
  proof (rule return_ok [OF n1(1,2) run2 [unfolded y]], goal_cases)
    case (1 r2 c2 b w assigned)
    have e2: "r2 = r" "c2 = issued_copy cp ?a" "b = ?a" using 1(1,2) g1 by (auto simp: issued_copy_def)
    have e3: "w = add_borrow (ev_now ?e) v cid isbn" using 1(4) e2 u1 by (simp add: get_user_def)
    have none: "map_option re_user_id assigned = None"
      using handle_result [OF n1(3), of "ev_strftime ?e'" "ev_now ?e'" "Some (lb_dispatcher s1)" "cp_book_isbn c2" cid 48] 1(5) s wl
      by (simp add: seeded_def)
    have "get_copy s2 i = (if i = cid then Some (r, shelved (issued_copy cp ?a) None) else get_copy s1 i)" for i
      using get_copy_heap_put [OF ledger_repo [OF n1(2)], of cid r "issued_copy cp ?a" "shelved (issued_copy cp ?a) None" i] g1
        get_copy_cong [of s2 "heap_put r (shelved (issued_copy cp ?a) None) s1" i] 1(7,9) e2 none by simp
    then have st: "stock s2 = stock s"
      using stk g1 cp(2) by (auto simp: stock_def fun_eq_iff shelved_def issued_copy_def copy_status_def)
    have gu: "get_user s2 i = (if i = ?a then Some (record_return (ev_now ?e') w cid False False) else get_user s i)" for i
      using 1(8) e2 u1 by (simp add: get_user_def)
    have cb: "can_borrow (record_return (ev_now ?e') w cid False False)" "us_active (record_return (ev_now ?e') w cid False False) = {}"
      using v' e3 by (simp_all add: can_borrow_iff) (simp_all add: record_return_def)
    have "wait_list (lb_reservations s2) i = []" for i
      using handle_wait_list [OF n1(3), of "ev_strftime ?e'" "ev_now ?e'" "Some (lb_dispatcher s1)" "cp_book_isbn c2" cid 48 i] 1(6) s wl
      by (simp add: seeded_def)
    then have "seeded ids shelf s2" using s i2 gu cb st u(2) by (simp add: seeded_def)
    then show ?case using run run2 y u(1) by (simp add: seed_loan_def)
  qed
qed

section \<open>Seeding an empty library\<close>

definition shelf_of :: "seed_book list \<Rightarrow> (string \<rightharpoonup> string)" where
  "shelf_of bs = foldl (\<lambda>m b. on_shelf (sb_isbn b) m (sb_copies b)) Map.empty bs"

lemma shelf_of_snoc: "shelf_of [] = Map.empty" "shelf_of (bs @ [b]) = on_shelf (sb_isbn b) (shelf_of bs) (sb_copies b)"
  by (simp_all add: shelf_of_def)

lemma shelf_of_None: "shelf_of bs x = None \<longleftrightarrow> (\<forall>b \<in> set bs. x \<notin> fst ` set (sb_copies b))"
  by (induction bs rule: rev_induct) (auto simp: shelf_of_snoc on_shelf_None)

lemma ran_shelf_of: "ran (shelf_of bs) \<subseteq> sb_isbn ` set bs"
proof (induction bs rule: rev_induct)
  case (snoc b bs)
  then show ?case using ran_on_shelf [of "sb_isbn b" "shelf_of bs" "sb_copies b"] by (auto simp: shelf_of_snoc)
qed (simp add: shelf_of_snoc)

lemma BOOKS_facts:
  "distinct (map sb_isbn BOOKS)" "distinct (concat (map (\<lambda>b. map fst (sb_copies b)) BOOKS))"
  "list_all (\<lambda>b. book_format_of (py_upper (sb_format b)) = Some (if sb_copies b = [] then EBOOK else PHYSICAL)) BOOKS"
  by code_simp+

lemma seed_titles_ok:
  assumes "seeded ids Map.empty s"
  shows "\<exists>s'. for_each (seed_title envs) BOOKS s = (Inr (), s') \<and> seeded ids (shelf_of BOOKS) s'"
proof (rule for_each_ok)
  fix b before rest s
  assume split: "BOOKS = before @ b # rest" and s: "seeded ids (shelf_of before) s"
  note facts = BOOKS_facts [unfolded split]
  have "sb_isbn b \<notin> ran (shelf_of before)" using facts(1) ran_shelf_of [of before] by auto
  moreover have "shelf_of before (fst row) = None" if "row \<in> set (sb_copies b)" for row
    using facts(2) that by (fastforce simp: shelf_of_None)
  moreover have "distinct (map fst (sb_copies b))" using facts(2) by simp
  ultimately show "\<exists>s'. seed_title envs b s = (Inr (), s') \<and> seeded ids (shelf_of (before @ [b])) s'"
    unfolding shelf_of_snoc(2) using facts(3)
    by (intro seed_title_ok [OF s, where fmt = "if sb_copies b = [] then EBOOK else PHYSICAL"]) simp_all
qed (use assms in \<open>simp add: shelf_of_snoc\<close>)

definition seed_ids :: "(user_role \<times> user_kwargs) list \<Rightarrow> string list" where
  "seed_ids rows = map (\<lambda>row. the (uk_user_id (snd row))) rows"

lemma USERS_facts:
  "distinct (seed_ids (USERS today))"
  "row \<in> set (USERS today) \<Longrightarrow> uk_user_id (snd row) \<noteq> None \<and> uk_name (snd row) \<noteq> None \<and> uk_email (snd row) \<noteq> None \<and>
     (\<forall>t. uk_exam_date (snd row) \<noteq> Some (ExamText t))"
  "set (seed_ids (USERS today)) = {''STU-ISHAAN'', ''STU-ALICE'', ''STU-BOB'', ''STU-RAHUL'', ''FAC-DR-SHARMA'', ''LIB-SARAH'', ''ADMIN-01''}"
  by (auto simp: USERS_def seed_ids_def student_row_def person_def no_user_kwargs_def)

lemma seed_users_ok:
  assumes "seeded {} shelf s"
  shows "\<exists>s'. for_each (seed_user ue) (USERS today) s = (Inr (), s') \<and> seeded (set (seed_ids (USERS today))) shelf s'"
proof (rule for_each_ok)
  fix row before rest s
  assume split: "USERS today = before @ row # rest" and s: "seeded (set (seed_ids before)) shelf s"
  have row: "row \<in> set (USERS today)" using split by simp
  note f = USERS_facts(2) [OF row]
  have "the (uk_user_id (snd row)) \<notin> set (seed_ids before)" using USERS_facts(1) [of today, unfolded split] by (simp add: seed_ids_def)
  then show "\<exists>s'. seed_user ue row s = (Inr (), s') \<and> seeded (set (seed_ids (before @ [row]))) shelf s'"
    using seed_user_ok [OF s, of row "the (uk_user_id (snd row))" ue] f by (auto simp: seed_ids_def)
qed (use assms in \<open>simp add: seed_ids_def\<close>)

lemma seed_rest_ok:
  assumes "seeded ids shelf s"
  shows "\<exists>s'. for_each seed_relation rs s = (Inr (), s') \<and> seeded ids shelf s'"
    "\<exists>s'. for_each seed_interaction xs s = (Inr (), s') \<and> seeded ids shelf s'"
proof -
  have graph: "seeded ids shelf (t\<lparr>lb_recommender := rc, lb_graph := g\<rparr>)" if "seeded ids shelf t" for t rc g
    by (rule seeded_cong [OF that]) (use that lib_inv_graph in \<open>auto simp: seeded_def\<close>)
  have g: "seeded ids shelf (t\<lparr>lb_graph := g\<rparr>)" if "seeded ids shelf t" for t g
    using graph [OF that, where rc = "lb_recommender t" and g = g] by simp
  have r: "seeded ids shelf (t\<lparr>lb_recommender := rc\<rparr>)" if "seeded ids shelf t" for t rc
    using graph [OF that, where rc = rc and g = "lb_graph t"] by simp
  show "\<exists>s'. for_each seed_relation rs s = (Inr (), s') \<and> seeded ids shelf s'"
    by (rule for_each_ok [where I = "\<lambda>_. seeded ids shelf"]) (auto simp: seed_relation_def g assms split: prod.splits)
  show "\<exists>s'. for_each seed_interaction xs s = (Inr (), s') \<and> seeded ids shelf s'"
    by (rule for_each_ok [where I = "\<lambda>_. seeded ids shelf"]) (auto simp: seed_interaction_def r assms split: prod.splits)
qed

lemma seed_loans_ok:
  assumes s: "seeded ids (shelf_of BOOKS) s" and alice: "''STU-ALICE'' \<in> ids"
  shows "\<exists>s'. seed_loans envs s = (Inr (), s') \<and> seeded ids (shelf_of BOOKS) s'"
proof -
  have "get_user s ''STU-ALICE'' \<noteq> None" using s alice unfolding seeded_def by blast
  moreover have "repo_inv s" using s by (auto simp: seeded_def lib_inv_def dest: ledger_repo)
  ultimately obtain u where u: "get_user s ''STU-ALICE'' = Some u" "us_user_id u = ''STU-ALICE''" using get_user_id by blast
  have shelf: "shelf_of BOOKS cid \<noteq> None" if "cid \<in> set [''CC-DEL-01'', ''OSC-DEL-01'']" for cid
  proof -
    have "list_all (\<lambda>cid. cid \<in> set (concat (map (\<lambda>b. map fst (sb_copies b)) BOOKS))) [''CC-DEL-01'', ''OSC-DEL-01'']" by code_simp
    then have "cid \<in> set (concat (map (\<lambda>b. map fst (sb_copies b)) BOOKS))" using that unfolding list_all_iff by blast
    then obtain b where "b \<in> set BOOKS" "cid \<in> set (map fst (sb_copies b))" by auto
    then show ?thesis unfolding shelf_of_None by auto
  qed
  have "\<exists>s'. for_each (seed_loan envs (Some u)) [''CC-DEL-01'', ''OSC-DEL-01''] s = (Inr (), s') \<and> seeded ids (shelf_of BOOKS) s'"
  proof (rule for_each_ok [where I = "\<lambda>_. seeded ids (shelf_of BOOKS)"])
    fix cid before rest t
    assume "[''CC-DEL-01'', ''OSC-DEL-01''] = before @ cid # rest" and t: "seeded ids (shelf_of BOOKS) t"
    then have "cid \<in> set [''CC-DEL-01'', ''OSC-DEL-01'']" by (metis in_set_conv_decomp)
    with shelf obtain isbn where "shelf_of BOOKS cid = Some isbn" by blast
    then show "\<exists>s'. seed_loan envs (Some u) cid t = (Inr (), s') \<and> seeded ids (shelf_of BOOKS) s'"
      by (rule seed_loan_ok [OF t u(2) alice])
  qed (rule s)
  then show ?thesis using u(1) by (simp add: seed_loans_def)
qed

text \<open>The library a server in memory starts with, as the lifespan handler of \<^verbatim>\<open>libflow/api/app.py\<close> builds it.\<close>

definition startup :: "user_env \<Rightarrow> (string \<Rightarrow> call_env) \<Rightarrow> date \<Rightarrow> (exn + unit) \<times> library" where
  "startup ue envs today = seed_library ue envs today build_in_memory_container"

lemma startup_seeded:
  "\<exists>s. startup ue envs today = (Inr (), s) \<and> seeded (set (seed_ids (USERS today))) (shelf_of BOOKS) s"
proof -
  let ?ids = "set (seed_ids (USERS today))"
  have "seeded {} Map.empty build_in_memory_container"
    using boot_lib_inv
    by (simp add: seeded_def stock_def get_user_def get_copy_def wait_list_def queue_of_def build_in_memory_container_def
        new_reservation_mgr_def dget_default_def)
  moreover
  let ?Q = "seeded ?ids (shelf_of BOOKS)"
  have "runs (seeded {} Map.empty) (for_each seed_branch BRANCHES) (seeded {} Map.empty)"
    unfolding runs_def by (intro allI impI, rule for_each_ok [where I = "\<lambda>_. seeded {} Map.empty"])
      (rule seed_branch_ok, auto simp: BRANCHES_def Let_def Cons_eq_append_conv)
  moreover have "runs (seeded {} Map.empty) (for_each (seed_user ue) (USERS today)) (seeded ?ids Map.empty)"
    unfolding runs_def by (intro allI impI) (rule seed_users_ok)
  moreover have "runs (seeded ?ids Map.empty) (seed_rahul (envs ''STU-RAHUL'')) (seeded ?ids Map.empty)"
    unfolding runs_def by (intro allI impI) (rule seed_rahul_ok)
  moreover have "runs (seeded ?ids Map.empty) (for_each (seed_title envs) BOOKS) ?Q"
    unfolding runs_def by (intro allI impI) (rule seed_titles_ok)
  moreover have "runs ?Q (for_each seed_relation GRAPH_RELATIONS) ?Q" "runs ?Q (for_each seed_interaction interactions) ?Q"
    unfolding runs_def by (intro allI impI, rule seed_rest_ok, assumption)+
  moreover have "runs ?Q (seed_loans envs) ?Q"
    unfolding runs_def by (intro allI impI) (rule seed_loans_ok, simp_all add: USERS_facts(3))
  ultimately have "seeded {} Map.empty build_in_memory_container" "runs (seeded {} Map.empty) (seed_library ue envs today) ?Q"
    unfolding seed_library_def by (simp, intro runs_then)
  then show ?thesis unfolding runs_def startup_def by blast
qed



section \<open>The running server\<close>



end
