(* ===== verification/Settings.thy ===== *)
theory Settings
  imports Core_Types
begin

text \<open>
  The settings of \<^verbatim>\<open>libflow/config.py\<close> for the database and for Redis, and the choice of the storage backend in
  \<^verbatim>\<open>libflow/api/container.py\<close>. The environment of the process is a dictionary; \<open>int\<close> on text is a parameter. The
  secret key is part of the theory \<open>Access_Control\<close>.
\<close>

definition getenv :: "(string, string) dict \<Rightarrow> string \<Rightarrow> string \<Rightarrow> string" where
  "getenv env name d = dget_default env name d"

record database_settings =
  ds_host :: string
  ds_port :: int
  ds_name :: string
  ds_user :: string
  ds_password :: string

definition db_url :: "database_settings \<Rightarrow> string" where
  "db_url ds =
     ''postgresql+psycopg2://'' @ ds_user ds @ '':'' @ ds_password ds @ ''@'' @ ds_host ds @ '':'' @ show_int (ds_port ds) @ ''/'' @ ds_name ds"

definition db_from_env :: "(string \<Rightarrow> exn + int) \<Rightarrow> (string, string) dict \<Rightarrow> exn + database_settings" where
  "db_from_env py_int env =
     (case py_int (getenv env ''DB_PORT'' ''5432'') of
        Inl e \<Rightarrow> Inl e
      | Inr port \<Rightarrow>
          Inr \<lparr>ds_host = getenv env ''DB_HOST'' ''localhost'', ds_port = port, ds_name = getenv env ''DB_NAME'' ''libraflow'',
               ds_user = getenv env ''DB_USER'' ''libraflow_user'', ds_password = getenv env ''DB_PASSWORD'' ''libraflow_secret''\<rparr>)"

record redis_settings =
  rs_host :: string
  rs_port :: int
  rs_db :: int
  rs_password :: "string option"

definition redis_from_env :: "(string \<Rightarrow> exn + int) \<Rightarrow> (string, string) dict \<Rightarrow> exn + redis_settings" where
  "redis_from_env py_int env =
     (case py_int (getenv env ''REDIS_PORT'' ''6379'') of
        Inl e \<Rightarrow> Inl e
      | Inr port \<Rightarrow>
          (case py_int (getenv env ''REDIS_DB'' ''0'') of
             Inl e \<Rightarrow> Inl e
           | Inr db \<Rightarrow>
               Inr \<lparr>rs_host = getenv env ''REDIS_HOST'' ''localhost'', rs_port = port, rs_db = db,
                    rs_password = (if truthy (dget env ''REDIS_PASSWORD'') then dget env ''REDIS_PASSWORD'' else None)\<rparr>))"

section \<open>The storage backend\<close>

datatype storage_backend = MemoryBackend | PostgresBackend

definition default_storage_backend :: "(string, string) dict \<Rightarrow> string" where
  "default_storage_backend env = py_lower (py_strip (getenv env ''LIBRAFLOW_STORAGE'' ''postgres''))"

definition choose_backend :: "(string, string) dict \<Rightarrow> string option \<Rightarrow> exn + storage_backend" where
  "choose_backend env backend =
     (let chosen = py_lower (if truthy backend then the backend else default_storage_backend env)
      in if chosen = ''memory'' then Inr MemoryBackend
         else if chosen = ''postgres'' then Inr PostgresBackend
         else Inl (ValueError (''Unknown storage backend '' @ quoted chosen @ '' (expected 'memory' or 'postgres').'')))"

lemma choose_backend_default: "choose_backend [] None = Inr PostgresBackend"
proof -
  have "default_storage_backend [] = ''postgres''" by code_simp
  moreover have "py_lower ''postgres'' = ''postgres''" by code_simp
  ultimately show ?thesis by (simp add: choose_backend_def)
qed

lemma choose_backend_case:
  assumes "b \<noteq> []"
  shows "choose_backend env (Some b) = choose_backend env (Some (py_lower b))"
proof -
  have "py_lower b \<noteq> []" using assms by (simp add: py_lower_def)
  then show ?thesis using assms by (simp only: choose_backend_def truthy_simps option.sel if_True py_lower_idem not_False_eq_True)
qed

end
