(* ===== verification/Spec2Isabelle.thy ===== *)
theory Spec2Isabelle
  imports Stale_Details Postgres_Rebalancing Postgres_Circulation Postgres_Relay Redis_Cache Redis_Versions Redis_Streams Seed Settings
begin

text \<open>
  LibraFlow is the back end of a library network: an HTTP service (\<^verbatim>\<open>src/libflow/api\<close>) over domain services
  (\<^verbatim>\<open>services\<close>) that lend physical copies, reserve and allocate titles, charge and collect fines, search the catalogue,
  recommend titles and move copies between branches. It runs on one of two storage back ends: everything in the memory of
  one process, or PostgreSQL with Redis. This development models the program function by function and proves what makes
  each part, and their composition, correct.

  \<^bold>\<open>How the parts interact.\<close> A request passes the token and permission checks, and for checkouts, returns and payments the
  idempotency store; the route then calls a service. The circulation service works inside the mutation block of a copy
  (\<^verbatim>\<open>locking_section\<close>): in memory a mutex per copy, over PostgreSQL a transaction that locks the row of the copy. Inside
  the block it changes the copy (a state machine), the user, the circulation records and the outbox, serves the
  reservation queue on a return, feeds the demand forecaster and the rebalancer, and invalidates the cache; notifications
  and the audit log follow. A relay publishes the outbox to an event bus. The catalogue service keeps the books, the
  autocompletion trie, the inverted index and a cache of book details.

  \<^bold>\<open>Theories and sources\<close> (paths under \<^verbatim>\<open>src/libflow\<close>).

  \<^item> \<open>Prelude\<close>: Python dictionaries as association lists in insertion order (locale \<open>keyed_store\<close>), slices, rounding, truth
    values, strings; JSON values are in \<open>Core_Types\<close> with the enumerations and the exceptions (\<^verbatim>\<open>core/enums.py\<close>,
    \<^verbatim>\<open>core/exceptions.py\<close>). Every raise is the left summand of a sum.
  \<^item> \<open>Book_State\<close>, \<open>Books\<close>, \<open>Users\<close>, \<open>Factory\<close>: \<^verbatim>\<open>core\<close>. A copy is an object in a heap, shared by its book and by the
    repository. Shown: states and attributes of a copy agree along every run; loans and fines are conserved.
  \<^item> \<open>Heapq\<close>, \<open>Smart_Allocation\<close>, \<open>Autocomplete_Trie\<close>, \<open>Graph_Engine\<close>, \<open>Inverted_Index\<close>: \<^verbatim>\<open>dsa\<close>. The binary heap of the
    standard library implements a priority queue (locale \<open>priority_queue\<close>); the trie, the index and the searches are
    shown equal to what they stand for (sets of entries, a map of titles to tokens, shortest paths).
  \<^item> \<open>Notifications\<close>, \<open>Reservation_Queue\<close>, \<open>Fines\<close>, \<open>Payments\<close>: \<^verbatim>\<open>patterns\<close>. The reservation desk refines waiting lists
    (locale \<open>waiting_lists\<close>).
  \<^item> \<open>Repository\<close> (contract: locale \<open>entity_store\<close>), \<open>Lru_Cache\<close>, \<open>Circuit_Breaker\<close>, \<open>Lock_Manager\<close>, \<open>Outbox\<close>: the
    in-memory side of \<^verbatim>\<open>storage\<close> and \<^verbatim>\<open>distributed\<close>. Locks, the breaker and the relay are also step relations, in which
    threads, overlapping calls, workers and crashes interleave; the invariants are proved by rule induction.
  \<^item> \<open>Forecaster\<close>, \<open>Recommender\<close>, \<open>Risk_Assessment\<close>, \<open>Branch_Manager\<close>, \<open>Rebalancer\<close>: \<^verbatim>\<open>ai\<close> and
    \<^verbatim>\<open>distributed/branch_manager.py\<close>.
  \<^item> \<open>Library_State\<close>: the container, one record for the state of the whole program; \<open>Circulation\<close>, \<open>Billing\<close>, \<open>Catalog\<close>:
    \<^verbatim>\<open>services\<close>. Shown: a checkout is all or nothing and happens once, a return serves the next in line, the ledger of
    loans balances (\<open>ledger_inv\<close>), cached details are current.
  \<^item> \<open>Idempotency\<close>, \<open>Access_Control\<close>, \<open>Api_Routes\<close>, \<open>Seed\<close>, \<open>Settings\<close>: \<^verbatim>\<open>api\<close>, \<^verbatim>\<open>seed.py\<close>, \<^verbatim>\<open>config.py\<close>.
    \<open>Api_Routes\<close> has every route and the relation of reachable libraries; \<open>Seed\<close> starts the server and shows that
    the invariant of the library holds in every state any sequence of requests leads to. \<open>Stale_Details\<close> is the run in
    which a transfer leaves the cached details behind.
  \<^item> \<open>Postgres_Mapping\<close>, \<open>Postgres_Repository\<close>, \<open>Postgres_Outbox\<close>, \<open>Postgres_Circulation\<close>, \<open>Postgres_Rebalancing\<close>,
    \<open>Postgres_Relay\<close>:
    \<^verbatim>\<open>storage/postgres.py\<close>, \<^verbatim>\<open>storage/models.py\<close>, \<^verbatim>\<open>storage/outbox.py\<close> and the circulation service in the deployed
    wiring. Shown: what is saved is found again, up to the losses stated; a checkout commits the copy, the loan, the
    record and the event together or not at all; a copy is checked out once; a round of the relay gives every event it
    claimed an outcome, or strands them; what stays in the memory of the process is outside the transaction.
  \<^item> \<open>Redis_Cache\<close>, \<open>Redis_Versions\<close>, \<open>Redis_Streams\<close>: \<^verbatim>\<open>storage/redis_cache.py\<close>, the Redis side of
    \<^verbatim>\<open>storage/lock_manager.py\<close> with both Lua scripts, and \<^verbatim>\<open>distributed/event_bus.py\<close>.

  \<^bold>\<open>Parameters.\<close> Code that is not in the repository is an argument, with its documented behaviour as a named predicate:
  the SQL sessions (\<open>engine\<close>, \<open>outbox_engine\<close> with \<open>engine_laws\<close>, \<open>outbox_laws\<close>, \<open>backend_laws\<close>), the Redis client
  (\<open>redis_client\<close>, \<open>version_server\<close>, \<open>stream_client\<close>), the JSON codec, the token and password libraries, the classifier,
  and \<^verbatim>\<open>math.log\<close>, \<^verbatim>\<open>math.sqrt\<close>, \<^verbatim>\<open>math.hypot\<close>. Every call of a database or a server may raise. The clock, fresh
  identifiers and the formatting of dates and numbers are the record \<open>call_env\<close>. The witnesses instantiate the parameters
  by concrete functions that satisfy the laws.

  \<^bold>\<open>Conventions and bounds.\<close> Python integers are \<open>int\<close>; floats are real numbers, so rounding errors of binary floats are
  not modelled, while \<^verbatim>\<open>round\<close> and \<^verbatim>\<open>int\<close> are. Time stamps are integers in seconds; ISO strings of time stamps in records and
  responses are kept as that number. Strings are ASCII where the code depends on it (the tokenizer). Loops are total functions with
  termination proofs; the retry loop of the distributed lock runs over the list of times at which it looks at the clock.
  The version script is exact up to \<open>exact_limit\<close>, \<open>10 ^ 14\<close>, because Lua prints larger numbers in another format.

  \<^bold>\<open>Not modelled.\<close> HTTP parsing and validation (FastAPI, pydantic); the Prometheus metrics (\<^verbatim>\<open>api/metrics.py\<close>) and log
  output, which nothing reads back; the getters of \<^verbatim>\<open>api/dependencies.py\<close>; the training of the classifier
  (\<^verbatim>\<open>ai/risk_seed.py\<close>); opening and disposing of connections and threads; the scripts, benchmarks and migrations, which
  only call the code modelled here. The abstract repository classes have no code of their own.
\<close>

end
